(* ===== verification/Prelude.thy ===== *)
theory Prelude
  imports Main "HOL-Library.Word"
begin

text \<open>
  Shared ground of the NexusTier development: the JavaScript string type and the
  string operations the console uses, the small idioms of the language (\<open>a || b\<close>,
  \<open>xs || []\<close>, out-of-range array reads), keyed lookups, and a generic account of
  step functions with invariants.

  A JavaScript string is a sequence of UTF-16 code units, so \<open>length\<close>, \<open>slice\<close> and
  \<open>split\<close> count code units. ASCII literals are written \<open>js ''...''\<close>; a literal with
  Chinese text is the list of its code units.
\<close>

section \<open>Collections of rewrite rules\<close>

named_theorems js_string \<open>facts that evaluate and decompose JavaScript strings\<close>
named_theorems js_eval \<open>definitions to unfold when a closed model term is evaluated\<close>

section \<open>Strings\<close>

type_synonym code_unit = "16 word"
type_synonym jsstr = "code_unit list"

definition js :: "string \<Rightarrow> jsstr" where
  "js s = map of_char s"

lemma js_Nil [simp, js_string]: "js [] = []"
  by (simp add: js_def)

lemma js_Cons [simp, js_string]: "js (c # cs) = of_char c # js cs"
  by (simp add: js_def)

lemma js_append [js_string]: "js (a @ b) = js a @ js b"
  by (simp add: js_def)

lemma length_js [simp]: "length (js s) = length s"
  by (simp add: js_def)

definition colon :: code_unit where
  "colon = 58"

lemma of_char_colon [js_string]: "(of_char CHR '':'' :: code_unit) = colon"
  by (simp add: colon_def)

text \<open>
  \<^verbatim>\<open>s.split(sep)\<close> for a separator of one code unit. The string operations do not depend on the
  kind of unit; Go strings, which are sequences of bytes, use them too.
\<close>

fun js_split :: "'a \<Rightarrow> 'a list \<Rightarrow> 'a list list" where
  "js_split c [] = [[]]"
| "js_split c (x # xs) =
     (if x = c then [] # js_split c xs
      else (case js_split c xs of [] \<Rightarrow> [[x]] | p # ps \<Rightarrow> (x # p) # ps))"

lemma js_split_nonempty [simp]: "js_split c s \<noteq> []"
  by (cases s) (auto split: list.splits)

lemma js_split_none: "c \<notin> set s \<Longrightarrow> js_split c s = [s]"
  by (induction s) auto

lemma js_split_append: "c \<notin> set a \<Longrightarrow> js_split c (a @ c # b) = a # js_split c b"
  by (induction a) auto

text \<open>\<^verbatim>\<open>parts.join(sep)\<close>, and the round trip with \<open>js_split\<close>.\<close>

fun js_join :: "'a list \<Rightarrow> 'a list list \<Rightarrow> 'a list" where
  "js_join sep [] = []"
| "js_join sep [p] = p"
| "js_join sep (p # q # ps) = p @ sep @ js_join sep (q # ps)"

lemma js_join_Cons: "ps \<noteq> [] \<Longrightarrow> js_join sep (p # ps) = p @ sep @ js_join sep ps"
  by (cases ps) auto

lemma js_join_split: "js_join [c] (js_split c s) = s"
proof (induction s)
  case Nil
  show ?case by simp
next
  case (Cons x xs)
  obtain p ps where split: "js_split c xs = p # ps"
    by (meson js_split_nonempty neq_Nil_conv)
  with Cons show ?case
    by (cases ps) (auto simp: js_join_Cons)
qed

text \<open>
  \<^verbatim>\<open>s.trim()\<close>: the code units ECMAScript counts as WhiteSpace or LineTerminator are
  dropped at both ends.
\<close>

definition js_whitespace :: "code_unit list" where
  "js_whitespace =
     [9, 10, 11, 12, 13, 32, 160, 0x1680,
      0x2000, 0x2001, 0x2002, 0x2003, 0x2004, 0x2005, 0x2006, 0x2007, 0x2008, 0x2009, 0x200A,
      0x2028, 0x2029, 0x202F, 0x205F, 0x3000, 0xFEFF]"

definition js_trim :: "jsstr \<Rightarrow> jsstr" where
  "js_trim s =
     rev (dropWhile (\<lambda>c. c \<in> set js_whitespace)
       (rev (dropWhile (\<lambda>c. c \<in> set js_whitespace) s)))"

lemma dropWhile_rev_dropWhile:
  "dropWhile P (rev (dropWhile P (rev (dropWhile P xs)))) = rev (dropWhile P (rev (dropWhile P xs)))"
proof -
  let ?ys = "rev (dropWhile P (rev (dropWhile P xs)))"
  have "?ys = [] \<or> \<not> P (hd ?ys)"
  proof (cases "dropWhile P xs")
    case Nil
    then show ?thesis by (simp only: rev.simps dropWhile.simps) simp
  next
    case (Cons y ys)
    then have "\<not> P y"
      using hd_dropWhile [of P xs] by simp
    with Cons have "hd ?ys = y"
      by (simp add: dropWhile_append)
    with \<open>\<not> P y\<close> show ?thesis by simp
  qed
  then have "dropWhile P ?ys = ?ys"
    by (metis dropWhile_eq_self_iff)
  then show ?thesis .
qed

lemma js_trim_idem: "js_trim (js_trim s) = js_trim s"
  by (simp add: js_trim_def dropWhile_rev_dropWhile)

text \<open>\<^verbatim>\<open>s.includes(q)\<close>.\<close>

fun js_prefix :: "'a list \<Rightarrow> 'a list \<Rightarrow> bool" where
  "js_prefix [] s = True"
| "js_prefix (q # qs) [] = False"
| "js_prefix (q # qs) (x # xs) = (q = x \<and> js_prefix qs xs)"

fun js_includes :: "'a list \<Rightarrow> 'a list \<Rightarrow> bool" where
  "js_includes q [] = (q = [])"
| "js_includes q (x # xs) = (js_prefix q (x # xs) \<or> js_includes q xs)"

lemma js_prefix_iff: "js_prefix q s \<longleftrightarrow> (\<exists>t. s = q @ t)"
  by (induction q s rule: js_prefix.induct) auto

lemma js_includes_iff: "js_includes q s \<longleftrightarrow> (\<exists>a b. s = a @ q @ b)"
proof (induction s)
  case Nil
  show ?case by auto
next
  case (Cons x xs)
  have "(\<exists>a b. x # xs = a @ q @ b) \<longleftrightarrow> (\<exists>b. x # xs = q @ b) \<or> (\<exists>a b. xs = a @ q @ b)"
    by (metis append_Cons append_Nil list.exhaust list.inject)
  with Cons show ?case by (simp add: js_prefix_iff)
qed

section \<open>Decimal integers\<close>

text \<open>
  \<^verbatim>\<open>String(n)\<close> of an integer below \<open>10\<^sup>2\<^sup>1\<close> is its decimal digits without leading
  zeros. \<open>digits_val\<close> reads them back.
\<close>

definition digit :: "nat \<Rightarrow> code_unit" where
  "digit d = of_nat (48 + d)"

fun nat_str :: "nat \<Rightarrow> jsstr" where
  "nat_str n = (if n < 10 then [digit n] else nat_str (n div 10) @ [digit (n mod 10)])"

declare nat_str.simps [simp del]

lemma nat_str_code [js_eval]:
  "nat_str n = (if n < 10 then [digit n] else nat_str (n div 10) @ [digit (n mod 10)])"
  by (rule nat_str.simps)

definition int_str :: "int \<Rightarrow> jsstr" where
  "int_str i = (if i < 0 then js ''-'' @ nat_str (nat (- i)) else nat_str (nat i))"

definition digit_val :: "code_unit \<Rightarrow> nat" where
  "digit_val c = unat c - 48"

definition digits_val :: "jsstr \<Rightarrow> nat" where
  "digits_val s = foldl (\<lambda>acc c. 10 * acc + digit_val c) 0 s"

lemma unat_digit: "d < 10 \<Longrightarrow> unat (digit d) = 48 + d"
proof -
  assume "d < 10"
  then have "48 + d < 2 ^ LENGTH(16)" by simp
  then show ?thesis unfolding digit_def by (simp only: unat_of_nat mod_less)
qed

lemma digit_val_digit [simp]: "d < 10 \<Longrightarrow> digit_val (digit d) = d"
  by (simp add: digit_val_def unat_digit)

lemma digits_val_nat_str [simp]: "digits_val (nat_str n) = n"
proof (induction n rule: nat_str.induct)
  case (1 n)
  show ?case
  proof (cases "n < 10")
    case True
    then show ?thesis by (subst nat_str.simps) (simp add: digits_val_def)
  next
    case False
    with 1 have "digits_val (nat_str (n div 10)) = n div 10" by simp
    with False show ?thesis
      by (subst nat_str.simps) (simp add: digits_val_def)
  qed
qed

lemma nat_str_inject [simp]: "nat_str a = nat_str b \<longleftrightarrow> a = b"
  by (metis digits_val_nat_str)

lemma nat_str_nonempty [simp]: "nat_str n \<noteq> []"
  by (subst nat_str.simps) simp

lemma set_nat_str: "c \<in> set (nat_str n) \<Longrightarrow> 48 \<le> unat c \<and> unat c \<le> 57"
proof (induction n rule: nat_str.induct)
  case (1 n)
  show ?case
  proof (cases "n < 10")
    case True
    with "1.prems" have "c = digit n" by (subst (asm) nat_str.simps) simp
    with True show ?thesis by (simp add: unat_digit)
  next
    case False
    with "1.prems" have "c \<in> set (nat_str (n div 10)) \<or> c = digit (n mod 10)"
      by (subst (asm) nat_str.simps) auto
    with "1.IH" False show ?thesis by (auto simp: unat_digit)
  qed
qed

lemma colon_notin_nat_str [simp]: "colon \<notin> set (nat_str n)"
  using set_nat_str [of colon n] by (auto simp: colon_def)

section \<open>Idioms of the language\<close>

text \<open>
  A value that may be \<open>null\<close> or \<open>undefined\<close> is an option. \<^verbatim>\<open>a || b\<close> on strings takes
  \<open>b\<close> when \<open>a\<close> is missing or empty.
\<close>

definition truthy_str :: "jsstr option \<Rightarrow> bool" where
  "truthy_str a = (case a of None \<Rightarrow> False | Some s \<Rightarrow> s \<noteq> [])"

definition or_str :: "jsstr option \<Rightarrow> jsstr \<Rightarrow> jsstr" where
  "or_str a b = (case a of None \<Rightarrow> b | Some s \<Rightarrow> if s = [] then b else s)"

definition or_empty :: "'a list option \<Rightarrow> 'a list" where
  "or_empty a = (case a of None \<Rightarrow> [] | Some xs \<Rightarrow> xs)"

lemma or_empty_simps [simp]: "or_empty None = []" "or_empty (Some xs) = xs"
  by (simp_all add: or_empty_def)

lemma truthy_str_simps [simp]:
  "truthy_str None = False" "truthy_str (Some s) = (s \<noteq> [])"
  by (simp_all add: truthy_str_def)

text \<open>Reading an array out of range gives \<open>undefined\<close>.\<close>

fun js_nth :: "'a list \<Rightarrow> nat \<Rightarrow> 'a option" where
  "js_nth [] i = None"
| "js_nth (x # xs) 0 = Some x"
| "js_nth (x # xs) (Suc i) = js_nth xs i"

lemma js_nth_eq: "js_nth xs i = (if i < length xs then Some (xs ! i) else None)"
  by (induction xs i rule: js_nth.induct) auto

lemma js_nth_numeral [simp]: "js_nth (x # xs) (numeral n) = js_nth xs (pred_numeral n)"
  by (simp add: numeral_eq_Suc)

text \<open>\<^verbatim>\<open>.filter(Boolean)\<close> on a list of optional strings.\<close>

definition js_compact :: "jsstr option list \<Rightarrow> jsstr list" where
  "js_compact xs = List.map_filter (\<lambda>a. if truthy_str a then a else None) xs"

lemma set_js_compact: "set (js_compact xs) = {s. Some s \<in> set xs \<and> s \<noteq> []}"
  by (induction xs) (auto simp: js_compact_def List.map_filter_simps split: option.splits)

section \<open>Fallible operations\<close>

text \<open>\<open>Inl\<close> is the error that an operation returns early with, \<open>Inr\<close> its value.\<close>

fun and_then :: "'e + 'a \<Rightarrow> ('a \<Rightarrow> 'e + 'b) \<Rightarrow> 'e + 'b" where
  "and_then (Inl e) f = Inl e"
| "and_then (Inr x) f = f x"

lemma and_then_eq_Inr: "and_then r f = Inr y \<longleftrightarrow> (\<exists>x. r = Inr x \<and> f x = Inr y)"
  by (cases r) simp_all

lemma and_then_eq_Inl: "and_then r f = Inl e \<longleftrightarrow> r = Inl e \<or> (\<exists>x. r = Inr x \<and> f x = Inl e)"
  by (cases r) simp_all

section \<open>Lists\<close>

lemma find_None_iff_all: "List.find P xs = None \<longleftrightarrow> (\<forall>x\<in>set xs. \<not> P x)"
  by (induction xs) auto

lemma find_SomeD: "List.find P xs = Some x \<Longrightarrow> P x \<and> x \<in> set xs"
  by (induction xs) (auto split: if_splits)

lemma find_append:
  "List.find P (xs @ ys) = (case List.find P xs of None \<Rightarrow> List.find P ys | Some x \<Rightarrow> Some x)"
  by (induction xs) auto

lemma find_map: "List.find P (map f xs) = map_option f (List.find (P \<circ> f) xs)"
  by (induction xs) auto

lemma find_distinct_key:
  assumes "distinct (map key xs)" and "x \<in> set xs"
  shows "List.find (\<lambda>y. key y = key x) xs = Some x"
  using assms by (induction xs) auto

lemma find_cong_set:
  "(\<And>x. x \<in> set xs \<Longrightarrow> P x = Q x) \<Longrightarrow> List.find P xs = List.find Q xs"
  by (induction xs) auto

lemma sum_list_map_length: "sum_list (map (\<lambda>x. length (f x)) xs) = length (concat (map f xs))"
  by (induction xs) auto

lemma concat_map_Nil: "concat (map (\<lambda>x. []) xs) = []"
  by (induction xs) simp_all

end
