(* ===== verification/Js_Number.thy ===== *)
theory Js_Number
  imports Prelude "HOL-Library.Log_Nat"
begin

text \<open>
  JavaScript numbers. Every finite IEEE binary64 value is a dyadic rational, so a number
  is a \<open>rat\<close>, and each of \<open>+ - * /\<close> is the exact rational operation followed by \<open>rnd\<close>,
  the rounding to 53 significant bits, ties to even. \<open>rnd\<close> is executable. The exponent
  is unbounded: values beyond the range of binary64 (overflow to infinity, subnormals)
  and NaN are outside the model; the code reaches the arithmetic below only with finite
  numbers decoded from JSON, pixel coordinates and constants.

  The lemmas show what the clients rest on: \<open>rnd\<close> is monotone, odd, idempotent, exact
  on integers up to \<open>2\<^sup>5\<^sup>3\<close> and under scaling by powers of two, and its relative error is
  at most \<open>2\<^sup>-\<^sup>5\<^sup>3\<close>. The locale \<open>rounding\<close> states the laws a client may use.
\<close>

section \<open>Rounding to binary64\<close>

type_synonym jsnum = rat

text \<open>The binary exponent of a positive number: \<open>2\<^sup>e \<le> x < 2\<^sup>e\<^sup>+\<^sup>1\<close>.\<close>

definition expo :: "jsnum \<Rightarrow> int" where
  "expo x = (if 1 \<le> x then bitlen \<lfloor>x\<rfloor> - 1 else - bitlen (\<lceil>1 / x\<rceil> - 1))"

definition round_even :: "rat \<Rightarrow> int" where
  "round_even y =
     (let f = \<lfloor>y\<rfloor>; r = y - of_int f
      in if r < 1 / 2 \<or> (r = 1 / 2 \<and> even f) then f else f + 1)"

definition ulp :: "jsnum \<Rightarrow> rat" where
  "ulp x = 2 powi (expo \<bar>x\<bar> - 52)"

definition rnd :: "rat \<Rightarrow> jsnum" where
  "rnd x = (if x = 0 then 0 else of_int (round_even (x / ulp x)) * ulp x)"

definition fadd :: "jsnum \<Rightarrow> jsnum \<Rightarrow> jsnum" where
  "fadd a b = rnd (a + b)"

definition fsub :: "jsnum \<Rightarrow> jsnum \<Rightarrow> jsnum" where
  "fsub a b = rnd (a - b)"

definition fmul :: "jsnum \<Rightarrow> jsnum \<Rightarrow> jsnum" where
  "fmul a b = rnd (a * b)"

definition fdiv :: "jsnum \<Rightarrow> jsnum \<Rightarrow> jsnum" where
  "fdiv a b = rnd (a / b)"

text \<open>
  \<^verbatim>\<open>Math.round(x)\<close> is the integer nearest to \<open>x\<close>, the larger one on a tie.
  \<^verbatim>\<open>x.toFixed(f)\<close> below \<open>10\<^sup>2\<^sup>1\<close> picks the integer \<open>n\<close> with \<open>n / 10\<^sup>f\<close> nearest to \<open>|x|\<close>, the
  larger one on a tie, prints it with \<open>f\<close> decimals and puts the sign of \<open>x\<close> first; from
  \<open>10\<^sup>2\<^sup>1\<close> on it prints the number as \<open>String(x)\<close> does, here the argument \<open>ts\<close>.
\<close>

definition math_round :: "jsnum \<Rightarrow> int" where
  "math_round x = \<lfloor>x + 1 / 2\<rfloor>"

definition fixed_digits :: "nat \<Rightarrow> nat \<Rightarrow> jsstr" where
  "fixed_digits f n =
     (if f = 0 then nat_str n
      else nat_str (n div 10 ^ f) @ js ''.'' @
        (let d = nat_str (n mod 10 ^ f) in replicate (f - length d) (digit 0) @ d))"

definition to_fixed :: "(jsnum \<Rightarrow> jsstr) \<Rightarrow> nat \<Rightarrow> jsnum \<Rightarrow> jsstr" where
  "to_fixed ts f x =
     (if \<bar>x\<bar> \<ge> 10 ^ 21 then ts x
      else (if x < 0 then js ''-'' else []) @
        fixed_digits f (nat (math_round (\<bar>x\<bar> * 10 ^ f))))"

section \<open>The exponent\<close>

lemma powi_of_nat: "0 \<le> k \<Longrightarrow> (2::rat) powi k = of_int (2 ^ nat k)"
  by (simp add: power_int_def)

lemma powi_neg: "(2::rat) powi (- k) = 1 / 2 powi k"
  by (simp add: power_int_minus_divide)

lemma powi_less_iff: "(2::rat) powi a < 2 powi b \<longleftrightarrow> a < b"
  by (metis linorder_not_less one_less_numeral_iff power_int_increasing
      power_int_strict_increasing semiring_norm(76) order_less_imp_le)

lemma powi_le_iff: "(2::rat) powi a \<le> 2 powi b \<longleftrightarrow> a \<le> b"
  using powi_less_iff [of b a] by linarith

lemma bitlen_pos: "0 < n \<Longrightarrow> 1 \<le> bitlen n"
  by (simp add: bitlen_alt_def)

lemma bitlen_powi_bounds:
  assumes "0 < n"
  shows "(2::rat) powi (bitlen n - 1) \<le> of_int n" and "of_int (n + 1) \<le> (2::rat) powi bitlen n"
proof -
  have b: "2 ^ nat (bitlen n - 1) \<le> n" "n < 2 ^ nat (bitlen n)"
    using bitlen_bounds [OF assms] by auto
  have pos: "0 \<le> bitlen n - 1"
    using bitlen_pos [OF assms] by simp
  show "(2::rat) powi (bitlen n - 1) \<le> of_int n"
    using b(1) by (simp only: powi_of_nat [OF pos] of_int_le_iff)
  have nn: "0 \<le> bitlen n" using pos by simp
  from b(2) have "n + 1 \<le> 2 ^ nat (bitlen n)" by simp
  then show "of_int (n + 1) \<le> (2::rat) powi bitlen n"
    by (simp only: powi_of_nat [OF nn] of_int_le_iff)
qed

lemma expo_bounds:
  assumes "0 < x"
  shows "2 powi expo x \<le> x" and "x < 2 powi (expo x + 1)"
proof -
  have "2 powi expo x \<le> x \<and> x < 2 powi (expo x + 1)"
  proof (cases "1 \<le> x")
    case True
    then have fl: "0 < \<lfloor>x\<rfloor>" by simp
    have "of_int \<lfloor>x\<rfloor> \<le> x" "x < of_int (\<lfloor>x\<rfloor> + 1)"
      by linarith+
    with bitlen_powi_bounds [OF fl]
    have "2 powi (bitlen \<lfloor>x\<rfloor> - 1) \<le> x" "x < 2 powi bitlen \<lfloor>x\<rfloor>"
      by linarith+
    with True show ?thesis
      by (simp add: expo_def)
  next
    case False
    define m where "m = \<lceil>1 / x\<rceil> - 1"
    have "1 < 1 / x" using False assms by simp
    then have m: "0 < m" unfolding m_def by linarith
    have lt: "of_int m < 1 / x" and le: "1 / x \<le> of_int (m + 1)"
      unfolding m_def by linarith+
    have pos: "(0::rat) < 2 powi k" for k by simp
    have "2 powi (bitlen m - 1) < 1 / x"
      using bitlen_powi_bounds(1) [OF m] lt by linarith
    then have up: "x < 1 / 2 powi (bitlen m - 1)"
      using assms pos [of "bitlen m - 1"] by (simp add: field_simps)
    have "1 / x \<le> 2 powi bitlen m"
      using bitlen_powi_bounds(2) [OF m] le by linarith
    then have low: "1 / 2 powi bitlen m \<le> x"
      using assms pos [of "bitlen m"] by (simp add: field_simps)
    have e: "expo x = - bitlen m" using False by (simp add: expo_def m_def)
    have e1: "expo x + 1 = - (bitlen m - 1)" using e by simp
    have "2 powi expo x \<le> x" using low unfolding e powi_neg .
    moreover have "x < 2 powi (expo x + 1)" using up unfolding e1 powi_neg .
    ultimately show ?thesis ..
  qed
  then show "2 powi expo x \<le> x" and "x < 2 powi (expo x + 1)" by auto
qed

lemma expo_unique: "0 < x \<Longrightarrow> 2 powi e \<le> x \<Longrightarrow> x < 2 powi (e + 1) \<Longrightarrow> expo x = e"
proof -
  assume "0 < x" and a: "2 powi e \<le> x" and b: "x < 2 powi (e + 1)"
  note c = expo_bounds [OF \<open>0 < x\<close>]
  have "(2::rat) powi e < 2 powi (expo x + 1)" using a c by linarith
  then have "e < expo x + 1" by (simp add: powi_less_iff)
  moreover have "(2::rat) powi expo x < 2 powi (e + 1)" using b c by linarith
  then have "expo x < e + 1" by (simp add: powi_less_iff)
  ultimately show ?thesis by simp
qed

lemma expo_mono: "0 < x \<Longrightarrow> x \<le> y \<Longrightarrow> expo x \<le> expo y"
proof -
  assume "0 < x" and "x \<le> y"
  then have "(2::rat) powi expo x < 2 powi (expo y + 1)"
    using expo_bounds(1) [of x] expo_bounds(2) [of y] by linarith
  then show ?thesis by (simp add: powi_less_iff)
qed

lemma ulp_pos [simp]: "0 < ulp x"
  by (simp add: ulp_def)

lemma ulp_nonzero [simp]: "ulp x \<noteq> 0"
  using ulp_pos [of x] by linarith

lemma ulp_minus [simp]: "ulp (- x) = ulp x"
  by (simp add: ulp_def)

section \<open>Rounding to the nearest integer, ties to even\<close>

lemma round_even_cases:
  obtains "round_even y = \<lfloor>y\<rfloor>" "y - of_int \<lfloor>y\<rfloor> \<le> 1 / 2"
  | "round_even y = \<lfloor>y\<rfloor> + 1" "1 / 2 \<le> y - of_int \<lfloor>y\<rfloor>"
  unfolding round_even_def Let_def by (metis linorder_le_less_linear order_less_imp_le order_refl)

lemma round_even_near: "\<bar>of_int (round_even y) - y\<bar> \<le> 1 / 2"
proof -
  have "of_int \<lfloor>y\<rfloor> \<le> y" "y < of_int \<lfloor>y\<rfloor> + 1" by linarith+
  then show ?thesis
    by (cases y rule: round_even_cases) (auto simp: abs_le_iff)
qed

lemma round_even_of_int [simp]: "round_even (of_int k) = k"
  by (simp add: round_even_def)

lemma round_even_mono: "y \<le> z \<Longrightarrow> round_even y \<le> round_even z"
proof (cases "\<lfloor>y\<rfloor> = \<lfloor>z\<rfloor>")
  case True
  assume "y \<le> z"
  with True show ?thesis by (auto simp: round_even_def Let_def)
next
  case False
  assume "y \<le> z"
  with False have "\<lfloor>y\<rfloor> + 1 \<le> \<lfloor>z\<rfloor>"
    using floor_mono [of y z] by linarith
  moreover have "round_even y \<le> \<lfloor>y\<rfloor> + 1" "\<lfloor>z\<rfloor> \<le> round_even z"
    by (simp_all add: round_even_def Let_def)
  ultimately show ?thesis by linarith
qed

lemma round_even_minus: "round_even (- y) = - round_even y"
proof (cases "y = of_int \<lfloor>y\<rfloor>")
  case True
  then show ?thesis
    by (metis of_int_minus round_even_of_int)
next
  case False
  have "of_int \<lfloor>y\<rfloor> < y" "y < of_int \<lfloor>y\<rfloor> + 1"
    using False by linarith+
  then have fl: "\<lfloor>- y\<rfloor> = - \<lfloor>y\<rfloor> - 1"
    by (intro floor_unique) auto
  show ?thesis
    unfolding round_even_def Let_def fl
    by (auto simp: algebra_simps)
qed

section \<open>Laws of the rounding\<close>

lemma rnd_0 [simp]: "rnd 0 = 0"
  by (simp add: rnd_def)

lemma rnd_alt: "rnd x = of_int (round_even (x / ulp x)) * ulp x"
  by (cases "x = 0") (simp_all add: rnd_def round_even_def)

lemma rnd_minus: "rnd (- x) = - rnd x"
  by (simp add: rnd_alt round_even_minus)

lemma rnd_error: "\<bar>rnd x - x\<bar> \<le> ulp x / 2"
proof -
  have "rnd x - x = (of_int (round_even (x / ulp x)) - x / ulp x) * ulp x"
    by (simp add: rnd_alt algebra_simps)
  then have "\<bar>rnd x - x\<bar> = \<bar>of_int (round_even (x / ulp x)) - x / ulp x\<bar> * ulp x"
    using abs_of_pos [OF ulp_pos [of x]] by (simp add: abs_mult)
  also have "\<dots> \<le> 1 / 2 * ulp x"
    using round_even_near [of "x / ulp x"] by (intro mult_right_mono) (auto simp: less_imp_le)
  finally show ?thesis by simp
qed

lemma ulp_le: "x \<noteq> 0 \<Longrightarrow> ulp x * 2 ^ 52 \<le> \<bar>x\<bar>"
  and ulp_gt: "x \<noteq> 0 \<Longrightarrow> \<bar>x\<bar> < ulp x * 2 ^ 53"
proof -
  assume "x \<noteq> 0"
  then have pos: "0 < \<bar>x\<bar>" by simp
  have e: "(2::rat) powi expo \<bar>x\<bar> = ulp x * 2 ^ 52" "(2::rat) powi (expo \<bar>x\<bar> + 1) = ulp x * 2 ^ 53"
    by (simp_all add: ulp_def power_int_diff power_int_add)
  from expo_bounds [OF pos] e show "ulp x * 2 ^ 52 \<le> \<bar>x\<bar>" "\<bar>x\<bar> < ulp x * 2 ^ 53"
    by simp_all
qed

lemma rnd_relative_error: "\<bar>rnd x - x\<bar> \<le> \<bar>x\<bar> / 2 ^ 53"
proof (cases "x = 0")
  case False
  have "ulp x / 2 \<le> \<bar>x\<bar> / 2 ^ 53"
    using ulp_le [OF False] by simp
  with rnd_error [of x] show ?thesis by linarith
qed simp

text \<open>The representable numbers: an integer of at most 53 bits times a power of two.\<close>

definition representable :: "rat \<Rightarrow> bool" where
  "representable x \<longleftrightarrow> (\<exists>k e. x = of_int k * 2 powi e \<and> \<bar>k\<bar> \<le> 2 ^ 53)"

lemma rnd_representable: "representable x \<Longrightarrow> rnd x = x"
proof (cases "x = 0")
  case False
  assume "representable x"
  then obtain k e where x: "x = of_int k * 2 powi e" and k: "\<bar>k\<bar> \<le> 2 ^ 53"
    by (auto simp: representable_def)
  define E where "E = expo \<bar>x\<bar>"
  have u: "ulp x = 2 powi (E - 52)" by (simp add: ulp_def E_def)
  have pos: "0 < \<bar>x\<bar>" using False by simp
  have "\<exists>j. x / ulp x = of_int j"
  proof (cases "E - 52 \<le> e")
    case True
    have "x / ulp x = of_int k * 2 powi (e - (E - 52))"
      unfolding u by (simp add: x power_int_diff)
    also have "\<dots> = of_int (k * 2 ^ nat (e - (E - 52)))"
      using True by (simp add: powi_of_nat)
    finally show ?thesis by blast
  next
    case False
    have "\<bar>x\<bar> = of_int \<bar>k\<bar> * 2 powi e" by (simp add: x abs_mult)
    also have "\<dots> \<le> of_int (2 ^ 53) * 2 powi e"
      using k by (intro mult_right_mono) (auto simp only: of_int_le_iff zero_le_power_int zero_le_numeral)
    also have "\<dots> = 2 powi (53 + e)"
      by (simp add: power_int_add)
    also have "\<dots> \<le> 2 powi E"
      using False by (simp add: powi_le_iff)
    finally have "\<bar>x\<bar> = 2 powi E"
      using expo_bounds(1) [OF pos] by (simp add: E_def)
    then have "\<bar>x\<bar> / ulp x = 2 ^ 52"
      by (simp add: u power_int_diff)
    then have "x / ulp x = of_int (2 ^ 52) \<or> x / ulp x = of_int (- (2 ^ 52))"
      by (auto simp: abs_if split: if_splits)
    then show ?thesis by blast
  qed
  then obtain j where "x / ulp x = of_int j" ..
  then show ?thesis
    by (simp add: rnd_alt) (metis nonzero_divide_eq_eq ulp_nonzero)
qed simp

lemma representable_rnd: "representable (rnd x)"
proof (cases "x = 0")
  case True
  then show ?thesis
    by (auto simp: representable_def intro: exI [of _ 0])
next
  case False
  let ?j = "round_even (x / ulp x)"
  have "\<bar>x / ulp x\<bar> \<le> of_int (2 ^ 53)"
    using ulp_gt [OF False] by (simp add: abs_divide field_simps)
  then have "x / ulp x \<le> of_int (2 ^ 53)" "of_int (- (2 ^ 53)) \<le> x / ulp x"
    unfolding abs_le_iff by auto
  then have "?j \<le> 2 ^ 53" "- (2 ^ 53) \<le> ?j"
    by (metis round_even_mono round_even_of_int)+
  then have "\<bar>?j\<bar> \<le> 2 ^ 53" by linarith
  moreover have "rnd x = of_int ?j * 2 powi (expo \<bar>x\<bar> - 52)"
    by (simp add: rnd_alt ulp_def)
  ultimately show ?thesis
    unfolding representable_def by blast
qed

lemma rnd_fixed_iff: "rnd x = x \<longleftrightarrow> representable x"
  by (metis rnd_representable representable_rnd)

lemma rnd_idem [simp]: "rnd (rnd x) = rnd x"
  by (simp add: rnd_representable representable_rnd)

lemma rnd_of_int: "\<bar>n\<bar> \<le> 2 ^ 53 \<Longrightarrow> rnd (of_int n) = of_int n"
proof -
  assume "\<bar>n\<bar> \<le> 2 ^ 53"
  then have "(of_int n :: rat) = of_int n * 2 powi 0 \<and> \<bar>n\<bar> \<le> 2 ^ 53" by simp
  then show ?thesis
    unfolding rnd_fixed_iff representable_def by blast
qed

lemma rnd_scale: "rnd x = x \<Longrightarrow> rnd (x * 2 powi i) = x * 2 powi i"
proof -
  assume "rnd x = x"
  then obtain k e where "x = of_int k * 2 powi e" and k: "\<bar>k\<bar> \<le> 2 ^ 53"
    by (auto simp: rnd_fixed_iff representable_def)
  then have "x * 2 powi i = of_int k * 2 powi (e + i)"
    by (simp add: power_int_add)
  with k show ?thesis
    unfolding rnd_fixed_iff representable_def by blast
qed

text \<open>
  Monotonicity: with equal exponents it is that of \<open>round_even\<close>; otherwise a power of two
  lies between the two numbers, and powers of two are representable.
\<close>

lemma rnd_powi [simp]: "rnd (2 powi k) = 2 powi k"
  using rnd_scale [of 1 k] rnd_of_int [of 1] by simp

lemma rnd_same_expo: "ulp x = ulp y \<Longrightarrow> x \<le> y \<Longrightarrow> rnd x \<le> rnd y"
proof -
  assume u: "ulp x = ulp y" and "x \<le> y"
  then have "x / ulp y \<le> y / ulp y"
    using ulp_pos [of y] by (simp add: divide_right_mono less_imp_le)
  then have "round_even (x / ulp y) \<le> round_even (y / ulp y)"
    by (rule round_even_mono)
  then show ?thesis
    using ulp_pos [of y] by (simp add: rnd_alt u)
qed

lemma ulp_eqI: "expo \<bar>x\<bar> = expo \<bar>y\<bar> \<Longrightarrow> ulp x = ulp y"
  by (simp add: ulp_def)

lemma rnd_le_powi: "0 < x \<Longrightarrow> rnd x \<le> 2 powi (expo x + 1)"
proof -
  assume "0 < x"
  let ?u = "ulp x"
  have "x / ?u < of_int (2 ^ 53)"
    using ulp_gt [of x] \<open>0 < x\<close> by (simp add: field_simps)
  then have "round_even (x / ?u) \<le> 2 ^ 53"
    using round_even_mono [of "x / ?u" "of_int (2 ^ 53)"] unfolding round_even_of_int by simp
  then have "of_int (round_even (x / ?u)) * ?u \<le> of_int (2 ^ 53) * ?u"
    by (intro mult_right_mono) (auto simp only: of_int_le_iff less_imp_le ulp_pos)
  then have "rnd x \<le> of_int (2 ^ 53) * ?u"
    by (simp only: rnd_alt)
  also have "\<dots> = 2 powi (expo x + 1)"
    using \<open>0 < x\<close> by (simp add: ulp_def power_int_diff power_int_add)
  finally show ?thesis .
qed

lemma rnd_ge_powi: "0 < x \<Longrightarrow> 2 powi expo x \<le> rnd x"
proof -
  assume "0 < x"
  have b: "2 powi expo x \<le> x" using expo_bounds(1) [OF \<open>0 < x\<close>] .
  have "expo (2 powi expo x) = expo x"
    by (rule expo_unique) (simp_all add: power_int_add)
  then have "ulp (2 powi expo x) = ulp x"
    using \<open>0 < x\<close> by (intro ulp_eqI) simp
  from rnd_same_expo [OF this b] show ?thesis by simp
qed

lemma rnd_pos: "0 < x \<Longrightarrow> 0 < rnd x"
  using rnd_ge_powi [of x] zero_less_power_int [of "2::rat" "expo x"] by linarith

lemma rnd_mono_pos: "0 < x \<Longrightarrow> x \<le> y \<Longrightarrow> rnd x \<le> rnd y"
proof (cases "expo x = expo y")
  case True
  assume "0 < x" and "x \<le> y"
  with True show ?thesis by (intro rnd_same_expo ulp_eqI) auto
next
  case False
  assume "0 < x" and "x \<le> y"
  with False have "expo x + 1 \<le> expo y"
    using expo_mono [of x y] by linarith
  then have "(2::rat) powi (expo x + 1) \<le> 2 powi expo y"
    by (simp only: powi_le_iff)
  moreover have "rnd x \<le> 2 powi (expo x + 1)"
    using \<open>0 < x\<close> by (rule rnd_le_powi)
  moreover have "2 powi expo y \<le> rnd y"
    using \<open>0 < x\<close> \<open>x \<le> y\<close> by (intro rnd_ge_powi) simp
  ultimately show ?thesis by linarith
qed

lemma rnd_mono: "x \<le> y \<Longrightarrow> rnd x \<le> rnd y"
proof -
  assume "x \<le> y"
  consider "0 < x" | "y < 0" | "x \<le> 0" "0 \<le> y" by linarith
  then show ?thesis
  proof cases
    case 1
    then show ?thesis using \<open>x \<le> y\<close> by (rule rnd_mono_pos)
  next
    case 2
    then have "rnd (- y) \<le> rnd (- x)"
      using \<open>x \<le> y\<close> by (intro rnd_mono_pos) auto
    then show ?thesis by (simp add: rnd_minus)
  next
    case 3
    have "rnd x \<le> 0"
      using 3 rnd_pos [of "- x"] by (cases "x = 0") (auto simp: rnd_minus)
    moreover have "0 \<le> rnd y"
      using 3 rnd_pos [of y] by (cases "y = 0") auto
    ultimately show ?thesis by linarith
  qed
qed

section \<open>The laws as an interface\<close>

text \<open>
  What a client of the arithmetic may rely on, whatever the format: rounding is monotone
  and exact on integers of at most 53 bits. Bounds by integers then survive every
  operation.
\<close>

locale rounding =
  fixes r :: "rat \<Rightarrow> rat"
  assumes r_mono: "x \<le> y \<Longrightarrow> r x \<le> r y"
    and r_of_int: "\<bar>n\<bar> \<le> 2 ^ 53 \<Longrightarrow> r (of_int n) = of_int n"
begin

lemma r_upper: "x \<le> of_int n \<Longrightarrow> \<bar>n\<bar> \<le> 2 ^ 53 \<Longrightarrow> r x \<le> of_int n"
  by (metis r_mono r_of_int)

lemma r_lower: "of_int n \<le> x \<Longrightarrow> \<bar>n\<bar> \<le> 2 ^ 53 \<Longrightarrow> of_int n \<le> r x"
  by (metis r_mono r_of_int)

lemma r_upper_numeral: "x \<le> numeral n \<Longrightarrow> \<bar>numeral n :: int\<bar> \<le> 2 ^ 53 \<Longrightarrow> r x \<le> numeral n"
  using r_upper [of x "numeral n"] by simp

lemma r_lower_numeral: "numeral n \<le> x \<Longrightarrow> \<bar>numeral n :: int\<bar> \<le> 2 ^ 53 \<Longrightarrow> numeral n \<le> r x"
  using r_lower [of "numeral n" x] by simp

lemma r_numeral: "\<bar>numeral n :: int\<bar> \<le> 2 ^ 53 \<Longrightarrow> r (numeral n) = numeral n"
  using r_of_int [of "numeral n"] by simp

lemma r_0: "r 0 = 0"
  using r_of_int [of 0] by simp

lemma r_1: "r 1 = 1"
  using r_of_int [of 1] by simp

lemma r_nonneg: "0 \<le> x \<Longrightarrow> 0 \<le> r x"
  using r_mono [of 0 x] by (simp add: r_0)

lemma r_nonpos: "x \<le> 0 \<Longrightarrow> r x \<le> 0"
  using r_mono [of x 0] by (simp add: r_0)

lemma r_le_1: "x \<le> 1 \<Longrightarrow> r x \<le> 1"
  using r_mono [of x 1] by (simp add: r_1)

lemma r_ge_1: "1 \<le> x \<Longrightarrow> 1 \<le> r x"
  using r_mono [of 1 x] by (simp add: r_1)

end

interpretation binary64: rounding rnd
  by unfold_locales (auto intro: rnd_mono rnd_of_int)

section \<open>Rounding for display\<close>

lemma math_round_of_int [simp]: "math_round (of_int k) = k"
  unfolding math_round_def by (rule floor_unique) simp_all

lemma math_round_mono: "x \<le> y \<Longrightarrow> math_round x \<le> math_round y"
  by (simp add: math_round_def floor_mono)

lemma math_round_near: "\<bar>of_int (math_round x) - x\<bar> \<le> 1 / 2"
  unfolding math_round_def by linarith

lemma math_round_upper: "x \<le> of_int k \<Longrightarrow> math_round x \<le> k"
  by (metis math_round_mono math_round_of_int)

lemma math_round_lower: "of_int k \<le> x \<Longrightarrow> k \<le> math_round x"
  by (metis math_round_mono math_round_of_int)

end
