(* ===== verification/Topology_Types.thy ===== *)
theory Topology_Types
  imports Js_Number
begin

text \<open>
  The JSON data the controller serves and the console reads, as the Go read model
  declares it (\<^verbatim>\<open>controller/internal/readmodel/store.go\<close>). A field the console guards
  against \<open>null\<close> or \<open>undefined\<close> is an option; identifiers and timestamps are the strings
  JSON carries. The names are the JSON names with a prefix per record.
\<close>

section \<open>Records of the topology response\<close>

record peer =
  p_peer_id :: nat
  p_ipv4 :: "jsstr option"
  p_hostname :: "jsstr option"
  p_next_hop_peer_id :: nat
  p_direct :: bool
  p_path_cost :: int
  p_latency_ms :: "jsnum option"
  p_loss_rate :: "jsnum option"
  p_rx_bytes :: "jsnum option"
  p_tx_bytes :: "jsnum option"
  p_tunnel_protocols :: "jsstr list option"
  p_easytier_version :: "jsstr option"
  p_last_observed_at :: "jsstr option"

record node_info =
  n_peer_id :: nat
  n_ipv4 :: "jsstr option"
  n_hostname :: "jsstr option"
  n_proxy_cidrs :: "jsstr list"
  n_listeners :: "jsstr list"
  n_easytier_version :: "jsstr option"
  n_last_observed_at :: "jsstr option"

record net_instance =
  i_instance_id :: jsstr
  i_active :: bool
  i_disappeared_at :: "jsstr option"
  i_last_observed_at :: "jsstr option"
  i_last_collection_id :: "jsstr option"
  i_node :: "node_info option"
  i_peers :: "peer list option"

record device =
  d_os_type :: "jsstr option"
  d_os_version :: "jsstr option"
  d_distribution :: "jsstr option"

record machine =
  m_machine_id :: jsstr
  m_remote_url :: "jsstr option"
  m_hostname :: "jsstr option"
  m_easytier_version :: "jsstr option"
  m_report_time :: "jsstr option"
  m_connected_at :: "jsstr option"
  m_last_heartbeat_at :: "jsstr option"
  m_device :: "device option"
  m_active :: bool
  m_disappeared_at :: "jsstr option"
  m_last_observed_at :: "jsstr option"
  m_last_collection_id :: "jsstr option"
  m_network_instances :: "net_instance list option"

record collection_summary =
  c_collection_id :: "jsstr option"
  c_status :: jsstr
  c_machine_count :: nat
  c_error_count :: nat
  c_started_at :: jsstr
  c_completed_at :: jsstr
  c_ingested_at :: jsstr

record collection_error =
  e_index :: nat
  e_scope :: jsstr
  e_machine_id :: "jsstr option"
  e_instance_id :: "jsstr option"
  e_code :: jsstr
  e_operation :: jsstr
  e_message :: jsstr

record page_info =
  pg_limit :: nat
  pg_next_cursor :: "jsstr option"

record topology_json =
  t_generated_at :: "jsstr option"
  t_latest_collection :: "collection_summary option"
  t_latest_errors :: "collection_error list option"
  t_machines :: "machine list option"
  t_page :: "page_info option"

text \<open>The instances of a machine and the peers of an instance, \<^verbatim>\<open>m.network_instances || []\<close>
  and \<^verbatim>\<open>i.peers || []\<close>.\<close>

abbreviation instances_of :: "machine \<Rightarrow> net_instance list" where
  "instances_of m \<equiv> or_empty (m_network_instances m)"

abbreviation peers_of :: "net_instance \<Rightarrow> peer list" where
  "peers_of i \<equiv> or_empty (i_peers i)"

section \<open>Identifiers\<close>

text \<open>
  The console joins identifiers with colons into selection keys. Identifiers are UUIDs in
  the database, so they never hold a colon; \<open>plain_ids\<close> is that property of a response,
  and \<open>unique_ids\<close> the uniqueness the primary keys of the tables give.
\<close>

definition plain_ids :: "machine list \<Rightarrow> bool" where
  "plain_ids ms \<longleftrightarrow>
     list_all (\<lambda>m. colon \<notin> set (m_machine_id m) \<and>
       list_all (\<lambda>i. colon \<notin> set (i_instance_id i)) (instances_of m)) ms"

definition all_instances :: "machine list \<Rightarrow> net_instance list" where
  "all_instances ms = concat (map instances_of ms)"

definition unique_ids :: "machine list \<Rightarrow> bool" where
  "unique_ids ms \<longleftrightarrow>
     distinct (map m_machine_id ms) \<and>
     distinct (map i_instance_id (all_instances ms)) \<and>
     list_all (\<lambda>i. distinct (map p_peer_id (peers_of i))) (all_instances ms)"

lemma plain_ids_Cons [simp]:
  "plain_ids (m # ms) \<longleftrightarrow>
     colon \<notin> set (m_machine_id m) \<and>
     (\<forall>i\<in>set (instances_of m). colon \<notin> set (i_instance_id i)) \<and> plain_ids ms"
  by (auto simp: plain_ids_def list_all_iff)

lemma plain_ids_Nil [simp]: "plain_ids []"
  by (simp add: plain_ids_def)

lemma plain_idsD:
  assumes "plain_ids ms" and "m \<in> set ms"
  shows "colon \<notin> set (m_machine_id m)"
    and "i \<in> set (instances_of m) \<Longrightarrow> colon \<notin> set (i_instance_id i)"
  using assms by (auto simp: plain_ids_def list_all_iff)

lemma plain_ids_filter: "plain_ids ms \<Longrightarrow> plain_ids (filter P ms)"
  by (auto simp: plain_ids_def list_all_iff)

lemma all_instances_filter: "set (all_instances (filter P ms)) \<subseteq> set (all_instances ms)"
  by (auto simp: all_instances_def)

section \<open>Sample data\<close>

text \<open>A small response, used where a theorem is applied at a concrete input.\<close>

definition sample_peer :: "nat \<Rightarrow> peer" where
  "sample_peer k =
     \<lparr>p_peer_id = k, p_ipv4 = None, p_hostname = None, p_next_hop_peer_id = k, p_direct = True,
      p_path_cost = 1, p_latency_ms = Some 12, p_loss_rate = None, p_rx_bytes = Some 2048,
      p_tx_bytes = None, p_tunnel_protocols = None, p_easytier_version = None,
      p_last_observed_at = None\<rparr>"

definition sample_instance :: "jsstr \<Rightarrow> nat list \<Rightarrow> net_instance" where
  "sample_instance iid ks =
     \<lparr>i_instance_id = iid, i_active = True, i_disappeared_at = None, i_last_observed_at = None,
      i_last_collection_id = None, i_node = None, i_peers = Some (map sample_peer ks)\<rparr>"

definition sample_machine :: "jsstr \<Rightarrow> net_instance list \<Rightarrow> machine" where
  "sample_machine mid is =
     \<lparr>m_machine_id = mid, m_remote_url = None, m_hostname = None, m_easytier_version = None,
      m_report_time = None, m_connected_at = None, m_last_heartbeat_at = None, m_device = None,
      m_active = True, m_disappeared_at = None, m_last_observed_at = None,
      m_last_collection_id = None, m_network_instances = Some is\<rparr>"

definition sample_machines :: "machine list" where
  "sample_machines =
     [sample_machine (js ''a1'') [sample_instance (js ''i1'') [7, 8]], sample_machine (js ''b2'') []]"

lemmas sample_defs = sample_machines_def sample_machine_def sample_instance_def sample_peer_def

lemma sample_ids: "plain_ids sample_machines" "unique_ids sample_machines"
  by (simp_all add: sample_defs unique_ids_def all_instances_def colon_def)

end
