(* ===== verification/Event_System.thy ===== *)
theory Event_System
  imports Prelude
begin

text \<open>
  Components driven by events. A component is a state, a function that executes one event,
  and a guard that says which events its environment can deliver in a state (a click needs
  an element to click on, a response needs a request). \<open>reachable\<close> collects the states of all
  finite interleavings; the locale \<open>safe_component\<close> is the interface through which a
  component's invariant is established once and then holds after every trace.
\<close>

inductive reachable :: "('e \<Rightarrow> 's \<Rightarrow> bool) \<Rightarrow> ('e \<Rightarrow> 's \<Rightarrow> 's) \<Rightarrow> 's \<Rightarrow> 's \<Rightarrow> bool"
  for enabled exec s0 where
  start: "reachable enabled exec s0 s0"
| step: "reachable enabled exec s0 s \<Longrightarrow> enabled e s \<Longrightarrow> reachable enabled exec s0 (exec e s)"

text \<open>The same states as runs of explicit event sequences.\<close>

fun run_events :: "('e \<Rightarrow> 's \<Rightarrow> 's) \<Rightarrow> 'e list \<Rightarrow> 's \<Rightarrow> 's" where
  "run_events exec [] s = s"
| "run_events exec (e # es) s = run_events exec es (exec e s)"

fun trace_ok :: "('e \<Rightarrow> 's \<Rightarrow> bool) \<Rightarrow> ('e \<Rightarrow> 's \<Rightarrow> 's) \<Rightarrow> 'e list \<Rightarrow> 's \<Rightarrow> bool" where
  "trace_ok enabled exec [] s \<longleftrightarrow> True"
| "trace_ok enabled exec (e # es) s \<longleftrightarrow> enabled e s \<and> trace_ok enabled exec es (exec e s)"

lemma run_events_append:
  "run_events exec (es @ fs) s = run_events exec fs (run_events exec es s)"
  by (induction es arbitrary: s) simp_all

lemma trace_ok_append:
  "trace_ok enabled exec (es @ fs) s \<longleftrightarrow>
     trace_ok enabled exec es s \<and> trace_ok enabled exec fs (run_events exec es s)"
  by (induction es arbitrary: s) simp_all

lemma reachable_run:
  "reachable enabled exec s0 s \<Longrightarrow> trace_ok enabled exec es s \<Longrightarrow>
     reachable enabled exec s0 (run_events exec es s)"
  by (induction es arbitrary: s) (auto intro: reachable.step)

lemma reachable_iff_trace:
  "reachable enabled exec s0 s \<longleftrightarrow> (\<exists>es. trace_ok enabled exec es s0 \<and> s = run_events exec es s0)"
proof
  assume "reachable enabled exec s0 s"
  then show "\<exists>es. trace_ok enabled exec es s0 \<and> s = run_events exec es s0"
  proof induction
    case start
    show ?case by (rule exI [of _ "[]"]) simp
  next
    case (step s e)
    then obtain es where "trace_ok enabled exec es s0" and "s = run_events exec es s0" by blast
    with step.hyps show ?case
      by (intro exI [of _ "es @ [e]"]) (simp add: run_events_append trace_ok_append)
  qed
qed (auto intro: reachable_run [OF reachable.start])

locale safe_component =
  fixes enabled :: "'e \<Rightarrow> 's \<Rightarrow> bool"
    and exec :: "'e \<Rightarrow> 's \<Rightarrow> 's"
    and s0 :: 's
    and inv :: "'s \<Rightarrow> bool"
  assumes inv_start: "inv s0"
    and inv_step: "inv s \<Longrightarrow> enabled e s \<Longrightarrow> inv (exec e s)"
begin

lemma inv_run: "inv s \<Longrightarrow> trace_ok enabled exec es s \<Longrightarrow> inv (run_events exec es s)"
  by (induction es arbitrary: s) (auto intro: inv_step)

lemma inv_reachable: "reachable enabled exec s0 s \<Longrightarrow> inv s"
  by (induction rule: reachable.induct) (auto intro: inv_start inv_step)

text \<open>A property of the states an invariant allows that no step can destroy, once reached.\<close>

lemma stable_run:
  assumes "\<And>s e. inv s \<Longrightarrow> P s \<Longrightarrow> enabled e s \<Longrightarrow> P (exec e s)"
    and "inv s" and "P s" and "trace_ok enabled exec es s"
  shows "P (run_events exec es s)"
  using assms(2-4)
proof (induction es arbitrary: s)
  case (Cons e es)
  then show ?case using assms(1) inv_step by simp
qed simp

end

text \<open>
  Amortised bounds. \<open>total\<close> adds up a quantity over a run. A potential that every step pays from
  or is paid into bounds what a run can gain by what it was credited with.
\<close>

fun total :: "('e \<Rightarrow> 's \<Rightarrow> 'a) \<Rightarrow> ('e \<Rightarrow> 's \<Rightarrow> 's) \<Rightarrow> 'e list \<Rightarrow> 's \<Rightarrow> 'a :: comm_monoid_add" where
  "total f exec [] s = 0"
| "total f exec (e # es) s = f e s + total f exec es (exec e s)"

locale amortized = safe_component enabled exec s0 inv
  for enabled :: "'e \<Rightarrow> 's \<Rightarrow> bool" and exec :: "'e \<Rightarrow> 's \<Rightarrow> 's" and s0 and inv +
  fixes gain :: "'e \<Rightarrow> 's \<Rightarrow> 'a :: linordered_ab_group_add"
    and credit :: "'e \<Rightarrow> 's \<Rightarrow> 'a"
    and potential :: "'s \<Rightarrow> 'a"
  assumes potential_nonneg: "inv s \<Longrightarrow> 0 \<le> potential s"
    and amortized_step: "inv s \<Longrightarrow> enabled e s \<Longrightarrow> gain e s + potential (exec e s) \<le> potential s + credit e s"
begin

lemma gain_with_potential:
  "inv s \<Longrightarrow> trace_ok enabled exec es s \<Longrightarrow>
     total gain exec es s + potential (run_events exec es s) \<le> potential s + total credit exec es s"
proof (induction es arbitrary: s)
  case (Cons e es)
  then have "gain e s + potential (exec e s) \<le> potential s + credit e s"
    and "total gain exec es (exec e s) + potential (run_events exec es (exec e s)) \<le>
      potential (exec e s) + total credit exec es (exec e s)"
    by (auto intro: amortized_step inv_step)
  then have "(gain e s + potential (exec e s)) + (total gain exec es (exec e s) + potential (run_events exec es (exec e s))) \<le>
      (potential s + credit e s) + (potential (exec e s) + total credit exec es (exec e s))"
    by (rule add_mono)
  then show ?case by (simp add: algebra_simps)
qed simp

lemma gain_bounded:
  assumes "trace_ok enabled exec es s0"
  shows "total gain exec es s0 \<le> potential s0 + total credit exec es s0"
proof -
  have "0 \<le> potential (run_events exec es s0)"
    using assms by (intro potential_nonneg inv_run inv_start)
  then have "total gain exec es s0 \<le> total gain exec es s0 + potential (run_events exec es s0)" by simp
  also have "\<dots> \<le> potential s0 + total credit exec es s0"
    using assms by (intro gain_with_potential inv_start)
  finally show ?thesis .
qed

end

end
