(* ===== verification/Use_Topology.thy ===== *)
theory Use_Topology
  imports Topology_Types Event_System
begin

text \<open>
  The data hooks: \<^verbatim>\<open>frontend/src/hooks/useTopology.js\<close> (polling, filtering and cursor pagination
  of \<^verbatim>\<open>GET /v1/topology\<close>) and \<^verbatim>\<open>useBuildInfo.js\<close>.

  The hook is asynchronous: \<open>fetchPage\<close> starts a request and continues when the response
  arrives, and several requests may be in flight at once. \<open>fetchPage_begin\<close> is the part before
  the \<^verbatim>\<open>await\<close>, \<open>fetchPage_complete\<close> the part after it, \<open>h_inflight\<close> the requests between the
  two; a response may arrive for any of them. A state update takes effect at once, since
  React applies it before it runs the next event or continuation.

  Shown here: the invariant of all interleavings, that loading pages one after the other
  yields every machine of a paged source exactly once (the locale \<open>paged_source\<close>), and
  what goes wrong when requests overlap.
\<close>

section \<open>State\<close>

datatype conn_status = Connecting | Online | Offline

record page_data =
  pd_machines :: "machine list"
  pd_latestCollection :: "collection_summary option"
  pd_latestErrors :: "collection_error list"
  pd_hasMore :: bool

type_synonym url_params = "(string \<times> jsstr) list"

record request =
  rq_append :: bool
  rq_params :: url_params

record hook =
  h_data :: "page_data option"
  h_status :: conn_status
  h_error :: "jsstr option"
  h_loading :: bool
  h_updatedAt :: "int option"
  h_interval :: nat
  h_activeFilter :: jsstr
  h_cursorRef :: "jsstr option"
  h_machinesRef :: "machine list"
  h_inflight :: "request list"
  h_timer :: "nat option"

definition DEFAULT_INTERVAL :: nat where "DEFAULT_INTERVAL = 15000"

definition init_hook :: hook where
  "init_hook =
     \<lparr>h_data = None, h_status = Connecting, h_error = None, h_loading = False, h_updatedAt = None,
      h_interval = DEFAULT_INTERVAL, h_activeFilter = js ''true'', h_cursorRef = None, h_machinesRef = [],
      h_inflight = [], h_timer = None\<rparr>"

section \<open>Requests\<close>

definition request_params :: "jsstr \<Rightarrow> bool \<Rightarrow> jsstr option \<Rightarrow> url_params" where
  "request_params activeFilter appending cursor =
     [(''limit'', js ''200'')] @
     (if activeFilter \<noteq> [] then [(''active'', activeFilter)] else []) @
     (if appending \<and> truthy_str cursor then [(''cursor'', the cursor)] else [])"

definition fetchPage_begin :: "bool \<Rightarrow> hook \<Rightarrow> hook" where
  "fetchPage_begin appending hk =
     hk\<lparr>h_loading := True,
        h_inflight := h_inflight hk @
          [\<lparr>rq_append = appending, rq_params = request_params (h_activeFilter hk) appending (h_cursorRef hk)\<rparr>]\<rparr>"

text \<open>
  What the awaited calls can yield: an exception with its message (\<^verbatim>\<open>fetch\<close> or \<^verbatim>\<open>res.json\<close>
  rejects, or the body is not an object), a response that is not \<^verbatim>\<open>ok\<close>, or a decoded body.
\<close>

datatype outcome = Failed jsstr | HttpStatus nat | Body topology_json

definition next_cursor :: "topology_json \<Rightarrow> jsstr option" where
  "next_cursor json = Option.bind (t_page json) pg_next_cursor"

definition fetchPage_failed :: "jsstr \<Rightarrow> hook \<Rightarrow> hook" where
  "fetchPage_failed message hk = hk\<lparr>h_status := Offline, h_error := Some message, h_loading := False\<rparr>"

definition fetchPage_complete :: "bool \<Rightarrow> outcome \<Rightarrow> int \<Rightarrow> hook \<Rightarrow> hook" where
  "fetchPage_complete appending res now hk =
     (case res of
        Failed message \<Rightarrow> fetchPage_failed message hk
      | HttpStatus code \<Rightarrow> fetchPage_failed (js ''HTTP '' @ nat_str code) hk
      | Body json \<Rightarrow>
          let machines = (if appending then h_machinesRef hk @ or_empty (t_machines json)
                          else or_empty (t_machines json))
          in hk\<lparr>h_machinesRef := machines, h_cursorRef := next_cursor json,
                h_data := Some \<lparr>pd_machines = machines, pd_latestCollection = t_latest_collection json,
                  pd_latestErrors = or_empty (t_latest_errors json), pd_hasMore = truthy_str (next_cursor json)\<rparr>,
                h_status := Online, h_updatedAt := Some now, h_error := None, h_loading := False\<rparr>)"

definition refresh :: "hook \<Rightarrow> hook" where
  "refresh hk = fetchPage_begin False hk"

definition loadMore :: "hook \<Rightarrow> hook" where
  "loadMore hk = fetchPage_begin True hk"

section \<open>Effects and setters\<close>

text \<open>The polling effect: clear the old timer, fetch, and start a timer unless the interval is 0.\<close>

definition polling_effect :: "hook \<Rightarrow> hook" where
  "polling_effect hk =
     (let hk1 = refresh (hk\<lparr>h_timer := None\<rparr>)
      in if h_interval hk1 = 0 then hk1 else hk1\<lparr>h_timer := Some (h_interval hk1)\<rparr>)"

definition reset_effect :: "hook \<Rightarrow> hook" where
  "reset_effect hk = hk\<lparr>h_cursorRef := None, h_machinesRef := []\<rparr>"

definition mounted_hook :: hook where
  "mounted_hook = reset_effect (polling_effect init_hook)"

text \<open>A setter with the current value changes nothing; otherwise the effects that depend on
  the value run, in the order of the source.\<close>

definition setActiveFilter :: "jsstr \<Rightarrow> hook \<Rightarrow> hook" where
  "setActiveFilter f hk =
     (if f = h_activeFilter hk then hk else reset_effect (polling_effect (hk\<lparr>h_activeFilter := f\<rparr>)))"

definition setIntervalMs :: "nat \<Rightarrow> hook \<Rightarrow> hook" where
  "setIntervalMs n hk =
     (if n = h_interval hk then hk else polling_effect (hk\<lparr>h_interval := n\<rparr>))"

definition respond :: "nat \<Rightarrow> outcome \<Rightarrow> int \<Rightarrow> hook \<Rightarrow> hook" where
  "respond k res now hk =
     fetchPage_complete (rq_append (h_inflight hk ! k)) res now
       (hk\<lparr>h_inflight := take k (h_inflight hk) @ drop (Suc k) (h_inflight hk)\<rparr>)"

lemmas fetch_defs = refresh_def loadMore_def fetchPage_begin_def respond_def fetchPage_complete_def fetchPage_failed_def

lemmas effect_defs = polling_effect_def reset_effect_def setActiveFilter_def setIntervalMs_def

lemmas mount_defs = mounted_hook_def init_hook_def DEFAULT_INTERVAL_def

section \<open>Events\<close>

text \<open>
  The filter and interval controls offer fixed options (\<^verbatim>\<open>Toolbar.jsx\<close>), the refresh button is
  disabled while loading, the button for more rows is shown while \<^verbatim>\<open>data.hasMore\<close>
  (\<^verbatim>\<open>MachineTable.jsx\<close>), and the timer fires only while it is set.
\<close>

datatype hook_event =
    SetFilter jsstr
  | SetInterval nat
  | TimerFire
  | RefreshClick
  | LoadMoreClick
  | Respond nat outcome int

fun hook_exec :: "hook_event \<Rightarrow> hook \<Rightarrow> hook" where
  "hook_exec (SetFilter f) hk = setActiveFilter f hk"
| "hook_exec (SetInterval n) hk = setIntervalMs n hk"
| "hook_exec TimerFire hk = refresh hk"
| "hook_exec RefreshClick hk = refresh hk"
| "hook_exec LoadMoreClick hk = loadMore hk"
| "hook_exec (Respond k res now) hk = respond k res now hk"

definition filter_options :: "jsstr list" where
  "filter_options = [js ''true'', [], js ''false'']"

definition interval_options :: "nat list" where
  "interval_options = [5000, 15000, 30000, 0]"

definition has_more :: "hook \<Rightarrow> bool" where
  "has_more hk = (case h_data hk of None \<Rightarrow> False | Some d \<Rightarrow> pd_hasMore d)"

fun hook_enabled :: "hook_event \<Rightarrow> hook \<Rightarrow> bool" where
  "hook_enabled (SetFilter f) hk \<longleftrightarrow> f \<in> set filter_options"
| "hook_enabled (SetInterval n) hk \<longleftrightarrow> n \<in> set interval_options"
| "hook_enabled TimerFire hk \<longleftrightarrow> h_timer hk \<noteq> None"
| "hook_enabled RefreshClick hk \<longleftrightarrow> \<not> h_loading hk"
| "hook_enabled LoadMoreClick hk \<longleftrightarrow> has_more hk"
| "hook_enabled (Respond k res now) hk \<longleftrightarrow> k < length (h_inflight hk)"

section \<open>Invariant\<close>

definition refs_synced :: "hook \<Rightarrow> bool" where
  "refs_synced hk \<longleftrightarrow>
     (\<exists>d. h_data hk = Some d \<and> h_machinesRef hk = pd_machines d \<and> pd_hasMore d = truthy_str (h_cursorRef hk))"

definition hook_core :: "hook \<Rightarrow> bool" where
  "hook_core hk \<longleftrightarrow>
     (h_status hk = Connecting \<longrightarrow> h_data hk = None \<and> h_error hk = None) \<and>
     (h_status hk = Online \<longrightarrow> h_data hk \<noteq> None \<and> h_error hk = None) \<and>
     (h_status hk = Offline \<longrightarrow> h_error hk \<noteq> None) \<and>
     (h_data hk = None \<longleftrightarrow> h_updatedAt hk = None) \<and>
     (refs_synced hk \<or> h_cursorRef hk = None \<and> h_machinesRef hk = []) \<and>
     h_activeFilter hk \<in> set filter_options \<and> h_interval hk \<in> set interval_options \<and>
     h_timer hk = (if h_interval hk = 0 then None else Some (h_interval hk)) \<and>
     (\<forall>rq\<in>set (h_inflight hk). map_of (rq_params rq) ''limit'' = Some (js ''200'') \<and>
        (map_of (rq_params rq) ''cursor'' \<noteq> None \<longrightarrow> rq_append rq))"

definition hook_inv :: "hook \<Rightarrow> bool" where
  "hook_inv hk \<longleftrightarrow>
     hook_core hk \<and> (h_status hk = Connecting \<longrightarrow> h_loading hk) \<and> (h_loading hk \<longrightarrow> h_inflight hk \<noteq> [])"

lemma request_params_facts:
  "map_of (request_params f appending c) ''limit'' = Some (js ''200'')"
  "map_of (request_params f appending c) ''active'' = (if f \<noteq> [] then Some f else None)"
  "map_of (request_params f appending c) ''cursor'' = (if appending \<and> truthy_str c then c else None)"
  by (auto simp: request_params_def truthy_str_def split: option.splits)

lemma hook_inv_core: "hook_inv hk \<Longrightarrow> hook_core hk"
  by (simp add: hook_inv_def)

lemma fetchPage_begin_core: "hook_core hk \<Longrightarrow> hook_core (fetchPage_begin appending hk)"
  unfolding hook_core_def
  by (elim conjE, intro conjI) (simp_all add: fetchPage_begin_def request_params_facts refs_synced_def)

lemma fetchPage_begin_inv: "hook_core hk \<Longrightarrow> hook_inv (fetchPage_begin appending hk)"
  by (simp add: hook_inv_def fetchPage_begin_core) (simp add: fetchPage_begin_def)

lemma polling_effect_inv:
  assumes "hook_core (hk\<lparr>h_timer := (if h_interval hk = 0 then None else Some (h_interval hk))\<rparr>)"
  shows "hook_inv (polling_effect hk)"
proof -
  have "polling_effect hk =
      fetchPage_begin False (hk\<lparr>h_timer := (if h_interval hk = 0 then None else Some (h_interval hk))\<rparr>)"
    by (simp add: polling_effect_def refresh_def fetchPage_begin_def Let_def)
  then show ?thesis using fetchPage_begin_inv [OF assms] by simp
qed

lemma hook_core_filter:
  "hook_core hk \<Longrightarrow> f \<in> set filter_options \<Longrightarrow>
     hook_core (hk\<lparr>h_activeFilter := f, h_timer := (if h_interval hk = 0 then None else Some (h_interval hk))\<rparr>)"
  unfolding hook_core_def refs_synced_def by (elim conjE, intro conjI) simp_all

lemma hook_core_interval:
  "hook_core hk \<Longrightarrow> n \<in> set interval_options \<Longrightarrow>
     hook_core (hk\<lparr>h_interval := n, h_timer := (if n = 0 then None else Some n)\<rparr>)"
  unfolding hook_core_def refs_synced_def by (elim conjE, intro conjI) simp_all

lemma reset_effect_inv: "hook_inv hk \<Longrightarrow> hook_inv (reset_effect hk)"
  unfolding hook_inv_def hook_core_def reset_effect_def by (elim conjE, intro conjI) simp_all

lemma fetchPage_failed_inv: "hook_core hk \<Longrightarrow> hook_inv (fetchPage_failed m hk)"
  unfolding hook_inv_def hook_core_def fetchPage_failed_def
  by (elim conjE, intro conjI) (simp_all add: refs_synced_def)

lemma fetchPage_complete_inv: "hook_core hk \<Longrightarrow> hook_inv (fetchPage_complete a res now hk)"
  by (cases res) (simp_all add: fetchPage_complete_def fetchPage_failed_inv,
    simp add: hook_inv_def hook_core_def Let_def refs_synced_def)

lemma hook_core_inflight:
  "hook_core hk \<Longrightarrow> set rs \<subseteq> set (h_inflight hk) \<Longrightarrow> hook_core (hk\<lparr>h_inflight := rs\<rparr>)"
  unfolding hook_core_def refs_synced_def by (elim conjE, intro conjI) (simp_all add: subset_iff)

lemma respond_inv:
  assumes "hook_inv hk"
  shows "hook_inv (respond k res now hk)"
proof -
  let ?rest = "take k (h_inflight hk) @ drop (Suc k) (h_inflight hk)"
  have "set ?rest \<subseteq> set (h_inflight hk)"
    by (auto dest: in_set_takeD in_set_dropD)
  with hook_inv_core [OF assms] have "hook_core (hk\<lparr>h_inflight := ?rest\<rparr>)"
    by (rule hook_core_inflight)
  then show ?thesis unfolding respond_def by (rule fetchPage_complete_inv)
qed

lemma mounted_hook_inv: "hook_inv mounted_hook"
  by (simp add: hook_inv_def hook_core_def mount_defs effect_defs fetch_defs request_params_facts
      filter_options_def interval_options_def)

lemma hook_exec_inv: "hook_inv hk \<Longrightarrow> hook_enabled e hk \<Longrightarrow> hook_inv (hook_exec e hk)"
proof (induction e hk rule: hook_exec.induct)
  case (1 f hk)
  then have "hook_inv (polling_effect (hk\<lparr>h_activeFilter := f\<rparr>))"
    using hook_core_filter [OF hook_inv_core, of hk f] by (intro polling_effect_inv) (simp_all split: if_splits)
  with 1 show ?case by (simp add: setActiveFilter_def reset_effect_inv)
next
  case (2 n hk)
  then have "hook_inv (polling_effect (hk\<lparr>h_interval := n\<rparr>))"
    using hook_core_interval [OF hook_inv_core, of hk n] by (intro polling_effect_inv) (simp_all split: if_splits)
  with 2 show ?case by (simp add: setIntervalMs_def)
qed (simp_all add: refresh_def loadMore_def fetchPage_begin_inv respond_inv hook_inv_core)

interpretation topology_hook: safe_component hook_enabled hook_exec mounted_hook hook_inv
  by unfold_locales (auto intro: mounted_hook_inv hook_exec_inv)

text \<open>
  C13. The hook's state is consistent after every interleaving of user actions, timer ticks and
  responses. It is connecting only before the first response, with a request under way; it
  is online only with data and no error and offline only with an error, and keeps the data
  of the last success with its time. A loading indicator always has a request behind it. The
  cursor and the accumulated machines are those of the shown data, or both are reset. The
  timer runs exactly when an interval is set. Every request asks for 200 rows, and only a
  request that appends carries a cursor.
\<close>

theorem hook_reachable_consistent:
  assumes "reachable hook_enabled hook_exec mounted_hook hk"
  shows "hook_inv hk"
  using assms by (rule topology_hook.inv_reachable)

section \<open>Sequential pagination\<close>

text \<open>One fetch answered at once by a server, and \<open>n\<close> presses of the button for more rows.\<close>

definition fetch_now :: "(url_params \<Rightarrow> topology_json) \<Rightarrow> int \<Rightarrow> bool \<Rightarrow> hook \<Rightarrow> hook" where
  "fetch_now serve now appending hk =
     (let hk1 = fetchPage_begin appending hk
      in respond (length (h_inflight hk)) (Body (serve (rq_params (last (h_inflight hk1))))) now hk1)"

fun load_pages :: "(url_params \<Rightarrow> topology_json) \<Rightarrow> int \<Rightarrow> nat \<Rightarrow> hook \<Rightarrow> hook" where
  "load_pages serve now 0 hk = hk"
| "load_pages serve now (Suc n) hk = load_pages serve now n (fetch_now serve now True hk)"

lemma request_params_refresh [simp]: "request_params f False c = request_params f True None"
  by (simp add: request_params_def)

lemma fetch_now_simps:
  fixes hk :: hook
  defines "json a \<equiv> (\<lambda>serve. serve (request_params (h_activeFilter hk) a (h_cursorRef hk)))"
  shows "h_machinesRef (fetch_now serve now a hk) =
      (if a then h_machinesRef hk else []) @ or_empty (t_machines (json a serve))"
    and "h_cursorRef (fetch_now serve now a hk) = next_cursor (json a serve)"
    and "refs_synced (fetch_now serve now a hk)"
    and "h_status (fetch_now serve now a hk) = Online"
    and "h_activeFilter (fetch_now serve now a hk) = h_activeFilter hk"
    and "h_inflight (fetch_now serve now a hk) = h_inflight hk"
  by (simp_all add: json_def fetch_now_def Let_def fetchPage_begin_def respond_def fetchPage_complete_def
      refs_synced_def)

text \<open>
  The interface to the server. \<open>serve\<close> answers the parameters of a request, and \<open>window f c\<close> is
  what the server holds for the filter \<open>f\<close> after the cursor \<open>c\<close>, unpaged. The laws are those of
  cursor pagination: a page followed by the window of its next cursor is the window that was
  asked for, and a page with a next cursor is not empty.
\<close>

locale paged_source =
  fixes serve :: "url_params \<Rightarrow> topology_json"
    and window :: "jsstr \<Rightarrow> jsstr option \<Rightarrow> machine list"
    and valid :: "jsstr option \<Rightarrow> bool"
  assumes valid_start: "valid None"
    and page_window: "f \<in> set filter_options \<Longrightarrow> valid c \<Longrightarrow> json = serve (request_params f True c) \<Longrightarrow>
      or_empty (t_machines json) @ (case next_cursor json of None \<Rightarrow> [] | Some k \<Rightarrow> window f (Some k)) = window f c"
    and page_next: "f \<in> set filter_options \<Longrightarrow> valid c \<Longrightarrow> next_cursor (serve (request_params f True c)) = Some k \<Longrightarrow>
      valid (Some k) \<and> k \<noteq> [] \<and> or_empty (t_machines (serve (request_params f True c))) \<noteq> []"
begin

text \<open>The machines not loaded yet, and the states between two loads.\<close>

definition remaining :: "hook \<Rightarrow> machine list" where
  "remaining hk =
     (case h_cursorRef hk of None \<Rightarrow> [] | Some k \<Rightarrow> window (h_activeFilter hk) (Some k))"

definition partial :: "hook \<Rightarrow> bool" where
  "partial hk \<longleftrightarrow>
     refs_synced hk \<and> h_status hk = Online \<and> h_activeFilter hk \<in> set filter_options \<and>
     valid (h_cursorRef hk) \<and> h_cursorRef hk \<noteq> Some [] \<and>
     h_machinesRef hk @ remaining hk = window (h_activeFilter hk) None"

lemma partial_more: "partial hk \<Longrightarrow> has_more hk \<longleftrightarrow> h_cursorRef hk \<noteq> None"
  by (auto simp: partial_def refs_synced_def has_more_def truthy_str_def split: option.splits)

lemma fetch_now_partial:
  assumes "h_activeFilter hk \<in> set filter_options" and "valid c"
    and "request_params (h_activeFilter hk) a (h_cursorRef hk) = request_params (h_activeFilter hk) True c"
    and "(if a then h_machinesRef hk else []) @ window (h_activeFilter hk) c = window (h_activeFilter hk) None"
  shows "partial (fetch_now serve now a hk) \<and>
    length (remaining (fetch_now serve now a hk)) \<le> length (window (h_activeFilter hk) c) \<and>
    (has_more (fetch_now serve now a hk) \<longrightarrow>
       length (remaining (fetch_now serve now a hk)) < length (window (h_activeFilter hk) c))"
proof -
  let ?f = "h_activeFilter hk" and ?hk = "fetch_now serve now a hk"
  let ?json = "serve (request_params ?f True c)"
  note s = fetch_now_simps [where hk = hk and a = a and serve = serve and now = now, unfolded assms(3)]
  have rem: "remaining ?hk = (case next_cursor ?json of None \<Rightarrow> [] | Some k \<Rightarrow> window ?f (Some k))"
    by (simp add: remaining_def s split: option.splits)
  have win: "or_empty (t_machines ?json) @ remaining ?hk = window ?f c"
    unfolding rem by (rule page_window [OF assms(1,2) refl])
  have "valid (next_cursor ?json)" "next_cursor ?json \<noteq> Some []"
    using page_next [OF assms(1,2)] valid_start by (cases "next_cursor ?json"; auto)+
  then have p: "partial ?hk"
    using assms(1,4) by (simp add: partial_def s win)
  have len: "length (window ?f c) = length (or_empty (t_machines ?json)) + length (remaining ?hk)"
    by (simp flip: win)
  have "or_empty (t_machines ?json) \<noteq> []" if "has_more ?hk"
    using that page_next [OF assms(1,2)] by (auto simp: partial_more [OF p] s)
  then show ?thesis using p len by auto
qed

lemma load_pages_complete:
  assumes "partial hk"
  shows "\<exists>n \<le> Suc (length (remaining hk)). \<exists>d.
    h_data (load_pages serve now n hk) = Some d \<and> pd_machines d = window (h_activeFilter hk) None \<and>
    \<not> pd_hasMore d \<and> h_status (load_pages serve now n hk) = Online \<and>
    (\<forall>k<n. has_more (load_pages serve now k hk))"
  using assms
proof (induction "length (remaining hk) + (if has_more hk then 1 else 0)" arbitrary: hk rule: less_induct)
  case less
  show ?case
  proof (cases "has_more hk")
    case False
    then have "h_cursorRef hk = None" using less.prems by (simp add: partial_more)
    with less.prems show ?thesis
      by (intro exI [of _ 0]) (auto simp: partial_def refs_synced_def remaining_def)
  next
    case True
    let ?hk = "fetch_now serve now True hk"
    have step: "partial ?hk \<and> length (remaining ?hk) \<le> length (remaining hk) \<and>
        (has_more ?hk \<longrightarrow> length (remaining ?hk) < length (remaining hk))"
      using fetch_now_partial [of hk "h_cursorRef hk" True now] less.prems True
      by (auto simp: partial_def partial_more remaining_def split: option.splits)
    then have "length (remaining ?hk) + (if has_more ?hk then 1 else 0) <
        length (remaining hk) + (if has_more hk then 1 else 0)" using True by auto
    from less.hyps [OF this] step obtain n d where n: "n \<le> Suc (length (remaining ?hk))"
      and d: "h_data (load_pages serve now n ?hk) = Some d" "pd_machines d = window (h_activeFilter ?hk) None"
        "\<not> pd_hasMore d" "h_status (load_pages serve now n ?hk) = Online"
        "\<forall>k<n. has_more (load_pages serve now k ?hk)" by blast
    have bound: "Suc n \<le> Suc (length (remaining hk))"
    proof (cases "has_more ?hk")
      case False
      then have "n = 0" using d(5) by (metis gr0I load_pages.simps(1))
      then show ?thesis by simp
    qed (use n step in simp)
    have "\<forall>k<Suc n. has_more (load_pages serve now k hk)"
      using d(5) True by (auto simp: less_Suc_eq_0_disj)
    with bound d show ?thesis
      by (intro exI [of _ "Suc n"]) (simp add: fetch_now_simps)
  qed
qed

lemma pagination_complete:
  assumes "h_activeFilter hk \<in> set filter_options"
  shows "\<exists>n \<le> length (window (h_activeFilter hk) None). \<exists>d.
    h_data (load_pages serve now n (fetch_now serve now False hk)) = Some d \<and>
    pd_machines d = window (h_activeFilter hk) None \<and> \<not> pd_hasMore d \<and>
    h_status (load_pages serve now n (fetch_now serve now False hk)) = Online \<and>
    (\<forall>k<n. has_more (load_pages serve now k (fetch_now serve now False hk)))"
proof -
  let ?hk = "fetch_now serve now False hk"
  have first: "partial ?hk \<and> length (remaining ?hk) \<le> length (window (h_activeFilter hk) None) \<and>
      (has_more ?hk \<longrightarrow> length (remaining ?hk) < length (window (h_activeFilter hk) None))"
    using fetch_now_partial [OF assms valid_start, of False now] by simp
  from load_pages_complete [OF conjunct1 [OF this], of now] obtain n d
    where n: "n \<le> Suc (length (remaining ?hk))" and d: "h_data (load_pages serve now n ?hk) = Some d"
      "pd_machines d = window (h_activeFilter ?hk) None" "\<not> pd_hasMore d"
      "h_status (load_pages serve now n ?hk) = Online" "\<forall>k<n. has_more (load_pages serve now k ?hk)"
    by blast
  have "n \<le> length (window (h_activeFilter hk) None)"
  proof (cases "n = 0")
    case False
    then have "has_more ?hk" using d(5) by (metis gr0I load_pages.simps(1))
    with n first show ?thesis by simp
  qed simp
  with d show ?thesis by (auto simp: fetch_now_simps)
qed

end

section \<open>Failures and filter changes\<close>

definition outcome_error :: "outcome \<Rightarrow> jsstr option" where
  "outcome_error res = (case res of Failed m \<Rightarrow> Some m | HttpStatus c \<Rightarrow> Some (js ''HTTP '' @ nat_str c) | Body j \<Rightarrow> None)"

lemma length_remove_nth:
  "k < length xs \<Longrightarrow> Suc (length (take k xs @ drop (Suc k) xs)) = length xs"
  by simp

text \<open>
  A failed request never costs data. When the response to any pending request is an
  exception or a non-success status, the hook goes offline with the error's message (the
  status code for an HTTP error) and stops loading; the shown data, its time, the pagination
  state and the timer stay as they were, and polling goes on. A response with a body puts it
  online and clears the error.
\<close>

theorem response_outcomes:
  assumes "reachable hook_enabled hook_exec mounted_hook hk" and "k < length (h_inflight hk)"
    and "hk' = respond k res now hk"
  shows "h_status hk' = (if outcome_error res = None then Online else Offline) \<and>
    h_error hk' = outcome_error res \<and> \<not> h_loading hk' \<and>
    Suc (length (h_inflight hk')) = length (h_inflight hk) \<and>
    h_timer hk' = (if h_interval hk = 0 then None else Some (h_interval hk)) \<and>
    (outcome_error res \<noteq> None \<longrightarrow>
       h_data hk' = h_data hk \<and> h_updatedAt hk' = h_updatedAt hk \<and>
       h_cursorRef hk' = h_cursorRef hk \<and> h_machinesRef hk' = h_machinesRef hk)"
proof -
  have t: "h_timer hk = (if h_interval hk = 0 then None else Some (h_interval hk))"
    using topology_hook.inv_reachable [OF assms(1)] by (simp add: hook_inv_def hook_core_def)
  show ?thesis
    using length_remove_nth [OF assms(2)] unfolding assms(3)
    by (cases res) (simp_all add: respond_def fetchPage_complete_def fetchPage_failed_def outcome_error_def t Let_def)
qed

text \<open>
  Changing the filter starts over. The hook resets the cursor and the accumulated machines,
  asks for the first page of the new filter, keeps the other pending requests and keeps
  polling; the answer to the new request, if it comes before other answers, replaces the
  machines on show.
\<close>

theorem filter_change_starts_over:
  assumes "reachable hook_enabled hook_exec mounted_hook hk" and "f \<in> set filter_options"
    and "f \<noteq> h_activeFilter hk" and "hk' = setActiveFilter f hk"
  shows "h_activeFilter hk' = f \<and> h_cursorRef hk' = None \<and> h_machinesRef hk' = [] \<and> h_loading hk' \<and>
    h_inflight hk' = h_inflight hk @ [\<lparr>rq_append = False, rq_params = request_params f False None\<rparr>] \<and>
    h_timer hk' = (if h_interval hk = 0 then None else Some (h_interval hk)) \<and>
    (\<exists>d. h_data (respond (length (h_inflight hk)) (Body json) now hk') = Some d \<and>
       pd_machines d = or_empty (t_machines json))"
  using assms(3)
  by (auto simp: assms(4) effect_defs fetch_defs Let_def)

section \<open>Overlapping requests\<close>

text \<open>
  C37. Pressing the button for more rows twice before the first answer arrives is possible (the
  button is not disabled while loading) and sends the same request twice; when both answers
  arrive the page is on show twice.
\<close>

theorem overlapping_loads_duplicate:
  assumes "reachable hook_enabled hook_exec mounted_hook hk" and "has_more hk" and "refs_synced hk"
    and "h_inflight hk = []"
  shows "trace_ok hook_enabled hook_exec [LoadMoreClick, LoadMoreClick, Respond 0 (Body p) t1, Respond 0 (Body p) t2] hk \<and>
    h_inflight (run_events hook_exec [LoadMoreClick, LoadMoreClick] hk) =
      replicate 2 \<lparr>rq_append = True, rq_params = request_params (h_activeFilter hk) True (h_cursorRef hk)\<rparr> \<and>
    (\<exists>d d'. h_data hk = Some d \<and>
      h_data (run_events hook_exec [LoadMoreClick, LoadMoreClick, Respond 0 (Body p) t1, Respond 0 (Body p) t2] hk) = Some d' \<and>
      pd_machines d' = pd_machines d @ or_empty (t_machines p) @ or_empty (t_machines p))"
  using assms(2-4)
  by (auto simp: fetch_defs Let_def has_more_def refs_synced_def numeral_2_eq_2)

text \<open>
  C38. Answers are taken in the order they arrive, whichever filter they were asked for. In any
  reachable state with a request pending that was made under the filter in force, the user can
  choose another filter, which sends a second request with another value of the filter, and the
  answer to the first can come last. Then the filter reads the new value, and the machines on show are
  those of the answer for the old one: alone, or appended to those of the new one if the first request
  was for more rows.
\<close>

theorem late_answer_overrides_filter:
  assumes "reachable hook_enabled hook_exec mounted_hook hk" and "k < length (h_inflight hk)"
    and "rq_params (h_inflight hk ! k) = request_params (h_activeFilter hk) app cur"
    and "f \<in> set filter_options" and "f \<noteq> h_activeFilter hk"
    and "n = length (h_inflight hk)" and "es = [SetFilter f, Respond n (Body new) t1, Respond k (Body old) t2]"
    and "hk1 = hook_exec (SetFilter f) hk" and "hk' = run_events hook_exec es hk"
  shows "trace_ok hook_enabled hook_exec es hk \<and>
    h_inflight hk1 ! k = h_inflight hk ! k \<and> length (h_inflight hk1) = Suc n \<and>
    map_of (rq_params (h_inflight hk1 ! k)) ''active'' \<noteq> map_of (rq_params (h_inflight hk1 ! n)) ''active'' \<and>
    h_activeFilter hk' = f \<and>
    map_option pd_machines (h_data hk') = Some
      (if rq_append (h_inflight hk ! k) then or_empty (t_machines new) @ or_empty (t_machines old)
       else or_empty (t_machines old))"
proof -
  have f: "h_activeFilter hk \<in> set filter_options"
    using topology_hook.inv_reachable [OF assms(1)] by (simp add: hook_inv_def hook_core_def)
  then have differ: "map_of (request_params (h_activeFilter hk) app cur) ''active'' \<noteq> map_of (request_params f False None) ''active''"
    using assms(4,5) by (auto simp: filter_options_def request_params_facts)
  show ?thesis
    using assms(2-5) differ
    by (auto simp: assms(6-9) effect_defs fetch_defs Let_def nth_append)
qed

section \<open>Build information\<close>

text \<open>
  \<^verbatim>\<open>useBuildInfo\<close>: one request when the component mounts; a response that is not \<^verbatim>\<open>ok\<close> counts as
  \<open>null\<close>, an exception is ignored, and after unmounting the response is dropped.
\<close>

record build_info =
  bi_version :: jsstr
  bi_commit :: "jsstr option"
  bi_built_at :: jsstr
  bi_go_version :: jsstr
  bi_platform :: jsstr

datatype build_outcome = BuildRejected | BuildNotOk | BuildBody build_info

record build_hook =
  bh_build :: "build_info option"
  bh_cancelled :: bool
  bh_pending :: bool

definition build_mount :: build_hook where
  "build_mount = \<lparr>bh_build = None, bh_cancelled = False, bh_pending = True\<rparr>"

definition build_unmount :: "build_hook \<Rightarrow> build_hook" where
  "build_unmount b = b\<lparr>bh_cancelled := True\<rparr>"

definition build_complete :: "build_outcome \<Rightarrow> build_hook \<Rightarrow> build_hook" where
  "build_complete res b =
     (let b1 = b\<lparr>bh_pending := False\<rparr> in
      case res of
        BuildRejected \<Rightarrow> b1
      | BuildNotOk \<Rightarrow> if bh_cancelled b1 then b1 else b1\<lparr>bh_build := None\<rparr>
      | BuildBody json \<Rightarrow> if bh_cancelled b1 then b1 else b1\<lparr>bh_build := Some json\<rparr>)"

datatype build_event = BuildUnmount | BuildRespond build_outcome

fun build_exec :: "build_event \<Rightarrow> build_hook \<Rightarrow> build_hook" where
  "build_exec BuildUnmount b = build_unmount b"
| "build_exec (BuildRespond res) b = build_complete res b"

fun build_enabled :: "build_event \<Rightarrow> build_hook \<Rightarrow> bool" where
  "build_enabled BuildUnmount b \<longleftrightarrow> \<not> bh_cancelled b"
| "build_enabled (BuildRespond res) b \<longleftrightarrow> bh_pending b"

definition build_inv :: "build_hook \<Rightarrow> bool" where
  "build_inv b \<longleftrightarrow> (bh_pending b \<longrightarrow> bh_build b = None)"

interpretation build_hook: safe_component build_enabled build_exec build_mount build_inv
proof unfold_locales
  show "build_inv build_mount" by (simp add: build_inv_def build_mount_def)
  show "build_inv (build_exec e b)" if "build_inv b" "build_enabled e b" for e b
    using that by (cases e)
      (auto simp: build_inv_def build_unmount_def build_complete_def Let_def split: build_outcome.splits)
qed

text \<open>
  Build information is read once: in every reachable state, once a value is stored no
  request is pending, and no later event changes it.
\<close>

theorem build_info_stable:
  assumes "reachable build_enabled build_exec build_mount b" and "bh_build b = Some v"
    and "trace_ok build_enabled build_exec es b"
  shows "\<not> bh_pending b \<and> bh_build (run_events build_exec es b) = Some v"
proof -
  have inv: "build_inv b" using assms(1) by (rule build_hook.inv_reachable)
  have "bh_build (run_events build_exec es b) = Some v"
  proof (rule build_hook.stable_run [where P = "\<lambda>b. bh_build b = Some v", OF _ inv assms(2,3)])
    fix s e
    assume "build_inv s" "bh_build s = Some v" "build_enabled e s"
    then show "bh_build (build_exec e s) = Some v"
      by (cases e) (simp_all add: build_inv_def build_unmount_def)
  qed
  with inv assms(2) show ?thesis by (auto simp: build_inv_def)
qed

theorem build_info_stable_witness:
  "bh_build (run_events build_exec [BuildUnmount] (build_complete (BuildBody \<lparr>bi_version = [], bi_commit = None, bi_built_at = [], bi_go_version = [], bi_platform = []\<rparr>) build_mount)) =
     Some \<lparr>bi_version = [], bi_commit = None, bi_built_at = [], bi_go_version = [], bi_platform = []\<rparr>"
proof -
  let ?v = "\<lparr>bi_version = [], bi_commit = None, bi_built_at = [], bi_go_version = [], bi_platform = []\<rparr>"
  let ?b = "build_complete (BuildBody ?v) build_mount"
  have "build_enabled (BuildRespond (BuildBody ?v)) build_mount" by (simp add: build_mount_def)
  from reachable.step [OF reachable.start [of build_enabled build_exec build_mount] this]
  have r: "reachable build_enabled build_exec build_mount ?b" by simp
  have b: "bh_build ?b = Some ?v" "trace_ok build_enabled build_exec [BuildUnmount] ?b"
    by (simp_all add: build_complete_def build_mount_def)
  from build_info_stable [OF r b] show ?thesis by blast
qed

section \<open>Sample states\<close>

definition sample_page :: "machine list \<Rightarrow> jsstr option \<Rightarrow> topology_json" where
  "sample_page ms c =
     \<lparr>t_generated_at = None, t_latest_collection = None, t_latest_errors = None, t_machines = Some ms,
      t_page = Some \<lparr>pg_limit = 200, pg_next_cursor = c\<rparr>\<rparr>"

definition sample_hook :: hook where
  "sample_hook = respond 0 (Body (sample_page sample_machines (Some (js ''b2'')))) 0 mounted_hook"

lemma sample_hook_facts:
  "reachable hook_enabled hook_exec mounted_hook mounted_hook" "length (h_inflight mounted_hook) = 1"
  "reachable hook_enabled hook_exec mounted_hook sample_hook"
  "has_more sample_hook" "refs_synced sample_hook" "h_inflight sample_hook = []"
  "h_activeFilter sample_hook = js ''true''"
proof -
  show "reachable hook_enabled hook_exec mounted_hook mounted_hook" by (rule reachable.start)
  show one: "length (h_inflight mounted_hook) = 1"
    by (simp add: mount_defs effect_defs fetch_defs)
  then have "hook_enabled (Respond 0 (Body (sample_page sample_machines (Some (js ''b2'')))) 0) mounted_hook"
    by simp
  from reachable.step [OF reachable.start [of hook_enabled hook_exec mounted_hook] this]
  show "reachable hook_enabled hook_exec mounted_hook sample_hook" by (simp add: sample_hook_def)
  show "has_more sample_hook" "refs_synced sample_hook" "h_inflight sample_hook = []"
    "h_activeFilter sample_hook = js ''true''"
    by (simp_all add: sample_hook_def mount_defs effect_defs fetch_defs Let_def has_more_def refs_synced_def
        sample_page_def next_cursor_def)
qed

theorem hook_reachable_consistent_witness:
  "hook_inv sample_hook \<and> has_more sample_hook"
  using hook_reachable_consistent [OF sample_hook_facts(3)] sample_hook_facts(4) by blast

theorem response_outcomes_witness:
  "h_status (respond 0 (HttpStatus 503) 5 mounted_hook) = Offline \<and>
   h_error (respond 0 (HttpStatus 503) 5 mounted_hook) = outcome_error (HttpStatus 503)"
proof -
  have "0 < length (h_inflight mounted_hook)" by (simp add: sample_hook_facts)
  from response_outcomes [OF sample_hook_facts(1) this refl, of "HttpStatus 503" 5] show ?thesis
    by (simp add: outcome_error_def)
qed

theorem filter_change_starts_over_witness:
  "h_activeFilter (setActiveFilter [] sample_hook) = [] \<and> h_machinesRef (setActiveFilter [] sample_hook) = []"
proof -
  have "[] \<in> set filter_options" "[] \<noteq> h_activeFilter sample_hook"
    by (simp_all add: filter_options_def sample_hook_facts)
  from filter_change_starts_over [OF sample_hook_facts(3) this refl] show ?thesis by blast
qed

theorem overlapping_loads_duplicate_witness:
  "\<exists>d d'. h_data sample_hook = Some d \<and>
     h_data (run_events hook_exec [LoadMoreClick, LoadMoreClick, Respond 0 (Body (sample_page sample_machines None)) 1,
       Respond 0 (Body (sample_page sample_machines None)) 2] sample_hook) = Some d' \<and>
     pd_machines d' = pd_machines d @ sample_machines @ sample_machines"
  using overlapping_loads_duplicate [OF sample_hook_facts(3-6), of "sample_page sample_machines None" 1 2]
  by (simp add: sample_page_def del: run_events.simps)

theorem late_answer_overrides_filter_witness:
  "map_option pd_machines (h_data (run_events hook_exec [SetFilter (js ''false''), Respond 1 (Body (sample_page [] None)) 1,
     Respond 0 (Body (sample_page sample_machines None)) 2] mounted_hook)) = Some sample_machines"
proof -
  have "0 < length (h_inflight mounted_hook)" and "length (h_inflight mounted_hook) = 1" by (simp_all add: sample_hook_facts)
  moreover have "rq_params (h_inflight mounted_hook ! 0) = request_params (h_activeFilter mounted_hook) False None"
    and "rq_append (h_inflight mounted_hook ! 0) = False"
    by (simp_all add: mount_defs effect_defs fetch_defs Let_def)
  moreover have "js ''false'' \<in> set filter_options" and "js ''false'' \<noteq> h_activeFilter mounted_hook"
    by (simp_all add: filter_options_def mount_defs effect_defs fetch_defs Let_def)
  ultimately show ?thesis
    using late_answer_overrides_filter [OF sample_hook_facts(1) _ _ _ _ _ refl refl refl, of 0 False None "js ''false''" 1
      "sample_page [] None" 1 "sample_page sample_machines None" 2]
    by (simp add: sample_page_def del: run_events.simps hook_exec.simps)
qed

end
