(* ===== verification/Utils.thy ===== *)
theory Utils
  imports Topology_Types
begin

text \<open>
  \<^verbatim>\<open>frontend/src/utils.js\<close>: the formatters of the console and the resolution of a
  selection key against the current machines.

  The facilities the browser supplies from its locale and Unicode data, or leaves open by
  the standard, are the fields of \<open>js_env\<close>: the clock, the parser of date strings, the
  \<open>Intl\<close> formatters for \<open>zh-CN\<close>, the shortest decimal form of a non-integral number and
  \<open>toLowerCase\<close>. Every function that uses one takes the environment as an argument.
\<close>

section \<open>The environment\<close>

datatype rel_unit = Second | Minute | Hour | Day

record js_env =
  now_ms :: int
  date_parse :: "jsstr \<Rightarrow> int option"
  rel_format :: "int \<Rightarrow> rel_unit \<Rightarrow> jsstr"
  date_format :: "int \<Rightarrow> jsstr"
  time_format :: "int \<Rightarrow> jsstr"
  num_to_string :: "jsnum \<Rightarrow> jsstr"
  to_lower :: "jsstr \<Rightarrow> jsstr"

text \<open>A \<open>Date\<close> object is its time value in milliseconds, \<open>None\<close> for an invalid date.\<close>

type_synonym jsdate = "int option"

definition new_date :: "js_env \<Rightarrow> jsstr \<Rightarrow> jsdate" where
  "new_date env s = date_parse env s"

text \<open>\<^verbatim>\<open>String(x)\<close> of a number: decimal digits for an integer, the environment otherwise.\<close>

definition num_str :: "js_env \<Rightarrow> jsnum \<Rightarrow> jsstr" where
  "num_str env x =
     (if of_int \<lfloor>x\<rfloor> = x \<and> \<bar>x\<bar> < 10 ^ 21 then int_str \<lfloor>x\<rfloor> else num_to_string env x)"

section \<open>Formatters\<close>

definition dash :: jsstr where
  "dash = [0x2014]"

definition unknown :: jsstr where
  "unknown = [0x672A, 0x77E5]"

definition shortID :: "jsstr option \<Rightarrow> jsstr" where
  "shortID v = (if truthy_str v then take 8 (the v) else dash)"

definition formatDate :: "js_env \<Rightarrow> jsdate option \<Rightarrow> jsstr" where
  "formatDate env date =
     (case date of
        None \<Rightarrow> unknown
      | Some None \<Rightarrow> unknown
      | Some (Some t) \<Rightarrow> date_format env t)"

definition relativeTime :: "js_env \<Rightarrow> jsdate option \<Rightarrow> jsstr" where
  "relativeTime env date =
     (case date of
        None \<Rightarrow> unknown
      | Some None \<Rightarrow> unknown
      | Some (Some t) \<Rightarrow>
          let seconds = math_round (fdiv (fsub (of_int t) (of_int (now_ms env))) 1000) in
          if \<bar>seconds\<bar> < 60 then rel_format env seconds Second else
          let minutes = math_round (fdiv (of_int seconds) 60) in
          if \<bar>minutes\<bar> < 60 then rel_format env minutes Minute else
          let hours = math_round (fdiv (of_int minutes) 60) in
          if \<bar>hours\<bar> < 24 then rel_format env hours Hour else
          rel_format env (math_round (fdiv (of_int hours) 24)) Day)"

definition byte_units :: "jsstr list" where
  "byte_units = [js ''B'', js ''KiB'', js ''MiB'', js ''GiB'', js ''TiB'']"

text \<open>\<^verbatim>\<open>while (n >= 1024 && i < units.length - 1) { n /= 1024; i++ }\<close>\<close>

function scale_bytes :: "jsnum \<Rightarrow> nat \<Rightarrow> jsnum \<times> nat" where
  "scale_bytes n i =
     (if n \<ge> 1024 \<and> i < length byte_units - 1 then scale_bytes (fdiv n 1024) (i + 1) else (n, i))"
  by pat_completeness auto
termination
  by (relation "measure (\<lambda>(n, i). length byte_units - 1 - i)") auto

declare scale_bytes.simps [simp del]

definition formatBytes :: "js_env \<Rightarrow> jsnum option \<Rightarrow> jsstr" where
  "formatBytes env v =
     (case v of
        None \<Rightarrow> dash
      | Some v \<Rightarrow>
          let (n, i) = scale_bytes v 0
          in to_fixed (num_to_string env) (if i \<noteq> 0 then 1 else 0) n @ js '' '' @ byte_units ! i)"

definition formatLatency :: "js_env \<Rightarrow> jsnum option \<Rightarrow> jsstr" where
  "formatLatency env ms =
     (case ms of None \<Rightarrow> dash | Some x \<Rightarrow> to_fixed (num_to_string env) 1 x @ js '' ms'')"

definition formatLoss :: "js_env \<Rightarrow> jsnum option \<Rightarrow> jsstr" where
  "formatLoss env rate =
     (case rate of None \<Rightarrow> dash | Some x \<Rightarrow> to_fixed (num_to_string env) 2 (fmul x 100) @ js ''%'')"

definition deviceLabel :: "device option \<Rightarrow> jsstr" where
  "deviceLabel d =
     (case d of
        None \<Rightarrow> unknown
      | Some d \<Rightarrow>
          or_str (Some (js_join (js '' '') (js_compact [d_distribution d, d_os_version d])))
            (or_str (d_os_type d) unknown))"

definition latency_hue :: "jsnum \<Rightarrow> int" where
  "latency_hue ms =
     (let t = min (fdiv ms 200) 1
      in if t < 1 / 2 then math_round (fsub 120 (fmul (fmul t 2) 60))
         else math_round (fsub 60 (fmul (fmul (fsub t (1 / 2)) 2) 60)))"

definition latencyColor :: "jsnum option \<Rightarrow> jsstr" where
  "latencyColor ms =
     (case ms of
        None \<Rightarrow> js ''#8c8c8c''
      | Some x \<Rightarrow>
          js ''hsl('' @ int_str (latency_hue x) @
          (if min (fdiv x 200) 1 < 1 / 2 then js '', 70%, 40%)'' else js '', 80%, 40%)''))"

section \<open>Selection keys\<close>

definition machine_key :: "machine \<Rightarrow> jsstr" where
  "machine_key m = js ''m:'' @ m_machine_id m"

definition peer_key :: "net_instance \<Rightarrow> peer \<Rightarrow> jsstr" where
  "peer_key i p = js ''p:'' @ i_instance_id i @ js '':'' @ nat_str (p_peer_id p)"

datatype selection =
    SelMachine jsstr machine
  | SelPeer jsstr peer net_instance machine

text \<open>The nested loops of the peer branch, with \<^verbatim>\<open>continue\<close> and the early return.\<close>

fun resolve_in_instances ::
  "jsstr option \<Rightarrow> jsstr option \<Rightarrow> net_instance list \<Rightarrow> (peer \<times> net_instance) option" where
  "resolve_in_instances iid pid [] = None"
| "resolve_in_instances iid pid (i # is) =
     (if Some (i_instance_id i) \<noteq> iid then resolve_in_instances iid pid is
      else case List.find (\<lambda>p. Some (nat_str (p_peer_id p)) = pid) (peers_of i) of
             Some p \<Rightarrow> Some (p, i)
           | None \<Rightarrow> resolve_in_instances iid pid is)"

fun resolve_in_machines ::
  "jsstr option \<Rightarrow> jsstr option \<Rightarrow> machine list \<Rightarrow> (peer \<times> net_instance \<times> machine) option" where
  "resolve_in_machines iid pid [] = None"
| "resolve_in_machines iid pid (m # ms) =
     (case resolve_in_instances iid pid (instances_of m) of
        Some (p, i) \<Rightarrow> Some (p, i, m)
      | None \<Rightarrow> resolve_in_machines iid pid ms)"

definition resolveSelection :: "jsstr option \<Rightarrow> machine list \<Rightarrow> selection option" where
  "resolveSelection key machines =
     (if \<not> truthy_str key then None
      else
        let parts = js_split colon (the key) in
        if js_nth parts 0 = Some (js ''m'') then
          (case List.find (\<lambda>m. Some (m_machine_id m) = js_nth parts 1) machines of
             Some m \<Rightarrow> Some (SelMachine (the key) m)
           | None \<Rightarrow> None)
        else if js_nth parts 0 = Some (js ''p'') then
          (case resolve_in_machines (js_nth parts 1) (js_nth parts 2) machines of
             Some (p, i, m) \<Rightarrow> Some (SelPeer (the key) p i m)
           | None \<Rightarrow> None)
        else None)"

section \<open>Relative times\<close>

text \<open>
  A quotient of integers below \<open>2\<^sup>5\<^sup>2\<close> rounds to the same integer in binary64 as it does
  exactly: \<open>round_div k d\<close> is the integer nearest to \<open>k / d\<close>, the larger one on a tie.
\<close>

definition round_div :: "int \<Rightarrow> int \<Rightarrow> int" where
  "round_div k d = (2 * k + d) div (2 * d)"

lemma round_div_bounds:
  assumes "0 < d"
  shows "2 * d * round_div k d \<le> 2 * k + d" and "2 * k + d < 2 * d * round_div k d + 2 * d"
proof -
  have "2 * k + d = 2 * d * round_div k d + (2 * k + d) mod (2 * d)"
    by (simp add: round_div_def)
  moreover have "0 \<le> (2 * k + d) mod (2 * d)" "(2 * k + d) mod (2 * d) < 2 * d"
    using assms by simp_all
  ultimately show "2 * d * round_div k d \<le> 2 * k + d" and "2 * k + d < 2 * d * round_div k d + 2 * d"
    by linarith+
qed

lemma round_div_abs_le: "0 < d \<Longrightarrow> \<bar>round_div k d\<bar> \<le> \<bar>k\<bar> + 1"
proof -
  assume "0 < d"
  note b = round_div_bounds [OF this, of k]
  have "round_div k d \<le> \<bar>k\<bar> + 1"
  proof (rule ccontr)
    assume "\<not> round_div k d \<le> \<bar>k\<bar> + 1"
    then have "2 * d * (\<bar>k\<bar> + 2) \<le> 2 * d * round_div k d"
      using \<open>0 < d\<close> by (intro mult_left_mono) auto
    with b(1) have "d * (2 * \<bar>k\<bar> + 4) \<le> 2 * k + d" by (simp add: algebra_simps)
    moreover have "d * (2 * \<bar>k\<bar>) \<ge> 2 * \<bar>k\<bar>"
      using \<open>0 < d\<close> by (simp add: mult_le_cancel_right1)
    ultimately show False using \<open>0 < d\<close> by (simp add: algebra_simps)
  qed
  moreover have "- (\<bar>k\<bar> + 1) \<le> round_div k d"
  proof (rule ccontr)
    assume "\<not> - (\<bar>k\<bar> + 1) \<le> round_div k d"
    then have "2 * d * round_div k d \<le> 2 * d * (- \<bar>k\<bar> - 2)"
      using \<open>0 < d\<close> by (intro mult_left_mono) auto
    with b(2) have "2 * k + d < - (d * (2 * \<bar>k\<bar>)) - 2 * d" by (simp add: algebra_simps)
    moreover have "d * (2 * \<bar>k\<bar>) \<ge> 2 * \<bar>k\<bar>"
      using \<open>0 < d\<close> by (simp add: mult_le_cancel_right1)
    ultimately show False using \<open>0 < d\<close> by (simp add: algebra_simps)
  qed
  ultimately show ?thesis by linarith
qed

lemma round_div_exact:
  assumes d: "0 < d" and k: "\<bar>k\<bar> < 2 ^ 51"
  shows "math_round (fdiv (of_int k) (of_int d)) = round_div k d"
proof -
  define n where "n = round_div k d"
  define y :: rat where "y = of_int k / of_int d"
  have dpos: "(0::rat) < of_int d" using d by simp
  have lo: "of_int n - 1 / 2 \<le> y"
  proof -
    have "(of_int (2 * d * n) :: rat) \<le> of_int (2 * k + d)"
      unfolding n_def of_int_le_iff by (rule round_div_bounds(1) [OF d])
    then show ?thesis unfolding y_def using dpos by (simp add: field_simps)
  qed
  have up: "y \<le> of_int n + 1 / 2 - 1 / (2 * of_int d)"
  proof -
    have "2 * k + d + 1 \<le> 2 * d * n + 2 * d"
      using round_div_bounds(2) [OF d, of k] unfolding n_def by simp
    then have "(of_int (2 * k + d + 1) :: rat) \<le> of_int (2 * d * n + 2 * d)"
      unfolding of_int_le_iff .
    then show ?thesis unfolding y_def using dpos by (simp add: field_simps)
  qed
  have "\<bar>2 * n - 1\<bar> \<le> 2 ^ 53"
    using round_div_abs_le [OF d, of k] k unfolding n_def by simp
  moreover have half: "(of_int n - 1 / 2 :: rat) = of_int (2 * n - 1) * 2 powi (-1)"
    by (simp add: field_simps)
  ultimately have "representable (of_int n - 1 / 2)"
    unfolding representable_def by blast
  then have "rnd (of_int n - 1 / 2) = of_int n - 1 / 2"
    by (rule rnd_representable)
  with rnd_mono [OF lo] have low: "of_int n - 1 / 2 \<le> rnd y" by simp
  have "\<bar>y\<bar> / 2 ^ 53 < 1 / (2 * of_int d)"
  proof -
    have "\<bar>y\<bar> = of_int \<bar>k\<bar> / of_int d" using dpos by (simp add: y_def abs_divide)
    moreover have "(of_int \<bar>k\<bar> :: rat) < of_int (2 ^ 51)"
      unfolding of_int_less_iff by (rule k)
    ultimately show ?thesis using dpos by (simp add: field_simps)
  qed
  moreover have "rnd y \<le> y + \<bar>y\<bar> / 2 ^ 53"
    using rnd_relative_error [of y] by linarith
  ultimately have "rnd y < of_int n + 1 / 2"
    using up by linarith
  with low have "\<lfloor>rnd y + 1 / 2\<rfloor> = n"
    by (intro floor_unique) auto
  then show ?thesis
    unfolding math_round_def fdiv_def y_def [symmetric] n_def [symmetric] .
qed

text \<open>
  The unit \<open>relativeTime\<close> picks and the count it shows, on exact integers; then that the
  code computes it, and how far the shown time is from the true one.
\<close>

definition rel_exact :: "int \<Rightarrow> int \<times> rel_unit" where
  "rel_exact ms =
     (let s = round_div ms 1000; m = round_div s 60; h = round_div m 60 in
      if \<bar>s\<bar> < 60 then (s, Second) else if \<bar>m\<bar> < 60 then (m, Minute)
      else if \<bar>h\<bar> < 24 then (h, Hour) else (round_div h 24, Day))"

lemma relativeTime_eq:
  assumes "\<bar>t - now_ms env\<bar> < 2 ^ 50"
  shows "relativeTime env (Some (Some t)) =
    (case rel_exact (t - now_ms env) of (n, u) \<Rightarrow> rel_format env n u)"
proof -
  define k where "k = t - now_ms env"
  have k: "\<bar>k\<bar> < 2 ^ 50" using assms by (simp add: k_def)
  have sub: "fsub (of_int t) (of_int (now_ms env)) = of_int k"
    unfolding fsub_def k_def of_int_diff [symmetric]
    by (rule rnd_of_int) (use k in \<open>simp add: k_def\<close>)
  define s where "s = round_div k 1000"
  define m where "m = round_div s 60"
  define h where "h = round_div m 60"
  have bs: "\<bar>s\<bar> < 2 ^ 50 + 1" using round_div_abs_le [of 1000 k] k by (simp add: s_def)
  have bm: "\<bar>m\<bar> < 2 ^ 50 + 2" using round_div_abs_le [of 60 s] bs by (simp add: m_def)
  have bh: "\<bar>h\<bar> < 2 ^ 50 + 3" using round_div_abs_le [of 60 m] bm by (simp add: h_def)
  have "math_round (fdiv (of_int k) 1000) = s"
    using round_div_exact [of 1000 k] k by (simp add: s_def)
  moreover have "math_round (fdiv (of_int s) 60) = m"
    using round_div_exact [of 60 s] bs by (simp add: m_def)
  moreover have "math_round (fdiv (of_int m) 60) = h"
    using round_div_exact [of 60 m] bm by (simp add: h_def)
  moreover have "math_round (fdiv (of_int h) 24) = round_div h 24"
    using round_div_exact [of 24 h] bh by simp
  ultimately show ?thesis
    unfolding relativeTime_def rel_exact_def Let_def option.case sub
    by (simp add: k_def [symmetric] s_def [symmetric] m_def [symmetric] h_def [symmetric])
qed

fun unit_ms :: "rel_unit \<Rightarrow> int" where
  "unit_ms Second = 1000"
| "unit_ms Minute = 60000"
| "unit_ms Hour = 3600000"
| "unit_ms Day = 86400000"

text \<open>Half a unit, plus the rounding inherited from the finer units.\<close>

fun unit_slack :: "rel_unit \<Rightarrow> int" where
  "unit_slack Second = 500"
| "unit_slack Minute = 30500"
| "unit_slack Hour = 1830500"
| "unit_slack Day = 45030500"

lemma round_div_error: "0 < d \<Longrightarrow> \<bar>2 * d * round_div k d - 2 * k\<bar> \<le> d"
  using round_div_bounds [of d k] by linarith

lemma rel_exact_error: "rel_exact k = (n, u) \<Longrightarrow> \<bar>n * unit_ms u - k\<bar> \<le> unit_slack u"
proof -
  assume r: "rel_exact k = (n, u)"
  define s m h where "s = round_div k 1000" and "m = round_div s 60" and "h = round_div m 60"
  have e: "\<bar>2000 * s - 2 * k\<bar> \<le> 1000" "\<bar>120 * m - 2 * s\<bar> \<le> 60" "\<bar>120 * h - 2 * m\<bar> \<le> 60"
    "\<bar>48 * round_div h 24 - 2 * h\<bar> \<le> 24"
    using round_div_error [of 1000 k] round_div_error [of 60 s] round_div_error [of 60 m]
      round_div_error [of 24 h] by (simp_all add: s_def m_def h_def)
  from r consider "u = Second" "n = s" | "u = Minute" "n = m" | "u = Hour" "n = h"
    | "u = Day" "n = round_div h 24"
    by (auto simp: rel_exact_def Let_def s_def m_def h_def split: if_splits)
  then show ?thesis
  proof cases
    case 1
    with e(1) show ?thesis by simp
  next
    case 2
    with e(1,2) show ?thesis by simp
  next
    case 3
    with e(1,2,3) show ?thesis by simp
  next
    case 4
    with e show ?thesis by simp
  qed
qed

definition rel_range :: "int \<Rightarrow> rel_unit \<Rightarrow> bool" where
  "rel_range n u =
     (case u of Second \<Rightarrow> \<bar>n\<bar> < 60 | Minute \<Rightarrow> 1 \<le> \<bar>n\<bar> \<and> \<bar>n\<bar> < 60
      | Hour \<Rightarrow> 1 \<le> \<bar>n\<bar> \<and> \<bar>n\<bar> < 24 | Day \<Rightarrow> 1 \<le> \<bar>n\<bar>)"

lemma rel_exact_range: "rel_exact k = (n, u) \<Longrightarrow> rel_range n u"
proof -
  assume r: "rel_exact k = (n, u)"
  define s m h where "s = round_div k 1000" and "m = round_div s 60" and "h = round_div m 60"
  have e: "\<bar>120 * m - 2 * s\<bar> \<le> 60" "\<bar>120 * h - 2 * m\<bar> \<le> 60"
    "\<bar>48 * round_div h 24 - 2 * h\<bar> \<le> 24"
    using round_div_error [of 60 s] round_div_error [of 60 m]
      round_div_error [of 24 h] by (simp_all add: m_def h_def)
  from r consider "u = Second" "n = s" "\<bar>s\<bar> < 60"
    | "u = Minute" "n = m" "60 \<le> \<bar>s\<bar>" "\<bar>m\<bar> < 60"
    | "u = Hour" "n = h" "60 \<le> \<bar>m\<bar>" "\<bar>h\<bar> < 24"
    | "u = Day" "n = round_div h 24" "24 \<le> \<bar>h\<bar>"
    by (auto simp: rel_exact_def Let_def s_def m_def h_def split: if_splits)
  then show ?thesis
  proof cases
    case 1
    then show ?thesis by (simp add: rel_range_def)
  next
    case 2
    with e(1) show ?thesis by (simp add: rel_range_def)
  next
    case 3
    with e(2) show ?thesis by (simp add: rel_range_def)
  next
    case 4
    with e(3) show ?thesis by (simp add: rel_range_def)
  qed
qed

text \<open>
  For a time within about 35000 years of now, \<^verbatim>\<open>relativeTime\<close> hands the formatter a
  count and a unit such that the count is in the unit's range (below 60 seconds or minutes,
  below 24 hours, at least 1 above seconds) and the time shown differs from the true
  difference by at most half a unit plus the rounding of the finer units. The quotients are
  the ones binary64 computes.
\<close>

theorem relativeTime_accurate:
  assumes "\<bar>t - now_ms env\<bar> < 2 ^ 50"
  shows "\<exists>n u. relativeTime env (Some (Some t)) = rel_format env n u \<and> rel_range n u \<and>
    \<bar>n * unit_ms u - (t - now_ms env)\<bar> \<le> unit_slack u"
proof -
  obtain n u where r: "rel_exact (t - now_ms env) = (n, u)" by fastforce
  show ?thesis
    using relativeTime_eq [OF assms] rel_exact_error [OF r] rel_exact_range [OF r] r by auto
qed

definition sample_env :: js_env where
  "sample_env =
     \<lparr>now_ms = 1000000, date_parse = (\<lambda>s. Some 0),
      rel_format = (\<lambda>n u. int_str n @ (case u of Second \<Rightarrow> js ''s'' | Minute \<Rightarrow> js ''m'' | Hour \<Rightarrow> js ''h'' | Day \<Rightarrow> js ''d'')),
      date_format = int_str, time_format = int_str, num_to_string = (\<lambda>x. js ''#''), to_lower = (\<lambda>s. s)\<rparr>"

theorem relativeTime_accurate_witness:
  "\<bar>(910000::int) - now_ms sample_env\<bar> < 2 ^ 50 \<and>
   (\<exists>n u. relativeTime sample_env (Some (Some 910000)) = rel_format sample_env n u \<and> rel_range n u \<and>
      \<bar>n * unit_ms u - (910000 - now_ms sample_env)\<bar> \<le> unit_slack u)"
proof -
  have h: "\<bar>(910000::int) - now_ms sample_env\<bar> < 2 ^ 50" by (simp add: sample_env_def)
  show ?thesis using h relativeTime_accurate [OF h] by blast
qed

section \<open>Byte counts\<close>

text \<open>
  Division by 1024 is exact in binary64, so the loop computes \<open>v / 1024\<^sup>i\<close> for the unit
  \<open>i\<close> it stops at.
\<close>

definition byte_unit :: "jsnum \<Rightarrow> nat" where
  "byte_unit v =
     (if v < 1024 then 0 else if v < 1024 ^ 2 then 1 else if v < 1024 ^ 3 then 2
      else if v < 1024 ^ 4 then 3 else 4)"

lemma fdiv_1024: "rnd v = v \<Longrightarrow> fdiv v 1024 = v / 1024 \<and> rnd (v / 1024) = v / 1024"
  using rnd_scale [of v "- 10"] by (simp add: fdiv_def power_int_minus field_simps)

lemma scale_bytes_exact: "rnd v = v \<Longrightarrow> scale_bytes v 0 = (v / 1024 ^ byte_unit v, byte_unit v)"
proof -
  assume r0: "rnd v = v"
  have d1: "fdiv v 1024 = v / 1024" and r1: "rnd (v / 1024) = v / 1024"
    using fdiv_1024 [OF r0] by auto
  have d2: "fdiv (v / 1024) 1024 = v / 1024 / 1024" and r2: "rnd (v / 1024 / 1024) = v / 1024 / 1024"
    using fdiv_1024 [OF r1] by auto
  have d3: "fdiv (v / 1024 / 1024) 1024 = v / 1024 / 1024 / 1024"
    and r3: "rnd (v / 1024 / 1024 / 1024) = v / 1024 / 1024 / 1024"
    using fdiv_1024 [OF r2] by auto
  have d4: "fdiv (v / 1024 / 1024 / 1024) 1024 = v / 1024 / 1024 / 1024 / 1024"
    using fdiv_1024 [OF r3] by auto
  have len: "length byte_units = 5" by (simp add: byte_units_def)
  have s4: "scale_bytes w 4 = (w, 4)" for w
    by (subst scale_bytes.simps) (simp add: len)
  have s3: "scale_bytes w 3 = (if 1024 \<le> w then (fdiv w 1024, 4) else (w, 3))" for w
    by (subst scale_bytes.simps) (simp add: len s4)
  have s2: "scale_bytes w 2 = (if 1024 \<le> w then scale_bytes (fdiv w 1024) 3 else (w, 2))" for w
    by (subst scale_bytes.simps) (simp add: len)
  have s1: "scale_bytes w 1 = (if 1024 \<le> w then scale_bytes (fdiv w 1024) 2 else (w, 1))" for w
    by (subst scale_bytes.simps) (simp add: len numeral_2_eq_2)
  have s0: "scale_bytes w 0 = (if 1024 \<le> w then scale_bytes (fdiv w 1024) 1 else (w, 0))" for w
    by (subst scale_bytes.simps) (simp add: len)
  show ?thesis
    unfolding s0 s1 s2 s3 d1 d2 d3 d4 byte_unit_def by (simp add: field_simps)
qed

text \<open>
  For a byte count that is a non-negative number of the language, \<^verbatim>\<open>formatBytes\<close>
  prints the exact quotient by the power of 1024 whose unit it names, with no decimals for
  bytes and one otherwise; the quotient is below 1024 in every unit but TiB, and at least 1
  in every unit but B.
\<close>

theorem formatBytes_exact:
  assumes "rnd v = v" and "0 \<le> v"
  shows "formatBytes env (Some v) =
      to_fixed (num_to_string env) (if byte_unit v = 0 then 0 else 1) (v / 1024 ^ byte_unit v)
        @ js '' '' @ byte_units ! byte_unit v
    \<and> (byte_unit v < 4 \<longrightarrow> v / 1024 ^ byte_unit v < 1024)
    \<and> (0 < byte_unit v \<longrightarrow> 1 \<le> v / 1024 ^ byte_unit v)"
proof (intro conjI)
  show "formatBytes env (Some v) =
      to_fixed (num_to_string env) (if byte_unit v = 0 then 0 else 1) (v / 1024 ^ byte_unit v)
        @ js '' '' @ byte_units ! byte_unit v"
    unfolding formatBytes_def option.case scale_bytes_exact [OF assms(1)] Let_def prod.case
    by (cases "byte_unit v = 0") simp_all
  show "byte_unit v < 4 \<longrightarrow> v / 1024 ^ byte_unit v < 1024"
    and "0 < byte_unit v \<longrightarrow> 1 \<le> v / 1024 ^ byte_unit v"
    by (auto simp: byte_unit_def)
qed

theorem formatBytes_exact_witness:
  "rnd 1536 = 1536 \<and> byte_unit 1536 = 1 \<and>
   formatBytes sample_env (Some 1536) = js ''1.5 KiB''"
proof -
  have r: "rnd 1536 = 1536" using rnd_of_int [of 1536] by simp
  have "formatBytes sample_env (Some 1536) =
      to_fixed (num_to_string sample_env) (if byte_unit 1536 = 0 then 0 else 1) (1536 / 1024 ^ byte_unit 1536)
        @ js '' '' @ byte_units ! byte_unit 1536"
    using formatBytes_exact [OF r, of sample_env] by simp
  moreover have "to_fixed (num_to_string sample_env) 1 (1536 / 1024) = js ''1.5''"
    by code_simp
  ultimately show ?thesis using r by (simp add: byte_unit_def byte_units_def)
qed

section \<open>Latency colours\<close>

text \<open>Both branches fall with the latency, and meet at hue 60, whatever the rounding does.\<close>

definition hue_low :: "jsnum \<Rightarrow> int" where
  "hue_low t = math_round (fsub 120 (fmul (fmul t 2) 60))"

definition hue_high :: "jsnum \<Rightarrow> int" where
  "hue_high t = math_round (fsub 60 (fmul (fmul (fsub t (1 / 2)) 2) 60))"

lemma latency_hue_split:
  "latency_hue ms =
     (let t = min (fdiv ms 200) 1 in if t < 1 / 2 then hue_low t else hue_high t)"
  unfolding latency_hue_def hue_low_def hue_high_def ..

lemma hue_low_antimono: "s \<le> t \<Longrightarrow> hue_low t \<le> hue_low s"
  unfolding hue_low_def fsub_def fmul_def
  by (intro math_round_mono rnd_mono diff_left_mono mult_right_mono) auto

lemma hue_high_antimono: "s \<le> t \<Longrightarrow> hue_high t \<le> hue_high s"
  unfolding hue_high_def fsub_def fmul_def
  by (intro math_round_mono rnd_mono diff_left_mono diff_right_mono mult_right_mono) auto

lemma hue_low_half: "hue_low (1 / 2) = 60"
  by code_simp

lemma hue_low_zero: "hue_low 0 = 120"
  by code_simp

lemma hue_high_half: "hue_high (1 / 2) = 60"
  by code_simp

lemma hue_high_one: "hue_high 1 = 0"
  by code_simp

lemma latency_hue_antimono: "a \<le> b \<Longrightarrow> latency_hue b \<le> latency_hue a"
proof -
  assume "a \<le> b"
  define s t where "s = min (fdiv a 200) 1" and "t = min (fdiv b 200) 1"
  have st: "s \<le> t"
    unfolding s_def t_def fdiv_def using \<open>a \<le> b\<close>
    by (intro min.mono rnd_mono) auto
  have mid: "hue_high y \<le> hue_low x" if "x \<le> 1 / 2" "1 / 2 \<le> y" for x y
    using hue_low_antimono [OF that(1)] hue_high_antimono [OF that(2)]
    by (simp add: hue_low_half hue_high_half)
  show ?thesis
    unfolding latency_hue_split Let_def s_def [symmetric] t_def [symmetric]
    using st hue_low_antimono [OF st] hue_high_antimono [OF st] mid [of s t] by auto
qed

lemma latency_hue_0: "latency_hue 0 = 120"
  by code_simp

lemma latency_hue_hot: "200 \<le> ms \<Longrightarrow> latency_hue ms = 0"
proof -
  assume "200 \<le> ms"
  then have "min (fdiv ms 200) 1 = 1"
    unfolding fdiv_def using binary64.r_ge_1 [of "ms / 200"] by simp
  then show ?thesis by (simp add: latency_hue_split hue_high_one)
qed

lemma latency_hue_nonneg: "0 \<le> latency_hue ms"
  using latency_hue_antimono [of ms "max ms 200"] latency_hue_hot [of "max ms 200"] by simp

text \<open>
  The hue of a latency colour falls as the latency grows, stays between 120 (green, at
  0 ms) and 0 (red), and is 0 from 200 ms on; the colour string carries that hue. This holds
  of the binary64 arithmetic the code runs, not only of exact arithmetic.
\<close>

theorem latencyColor_scale:
  assumes "0 \<le> a" and "a \<le> b"
  shows "0 \<le> latency_hue b \<and> latency_hue b \<le> latency_hue a \<and> latency_hue a \<le> 120
    \<and> (200 \<le> b \<longrightarrow> latency_hue b = 0)
    \<and> (\<exists>rest. latencyColor (Some b) = js ''hsl('' @ int_str (latency_hue b) @ rest)"
proof (intro conjI)
  show "0 \<le> latency_hue b" by (rule latency_hue_nonneg)
  show "latency_hue b \<le> latency_hue a" using assms(2) by (rule latency_hue_antimono)
  show "latency_hue a \<le> 120" using latency_hue_antimono [OF assms(1)] by (simp add: latency_hue_0)
  show "200 \<le> b \<longrightarrow> latency_hue b = 0" using latency_hue_hot by blast
  show "\<exists>rest. latencyColor (Some b) = js ''hsl('' @ int_str (latency_hue b) @ rest"
    unfolding latencyColor_def by simp
qed

theorem latencyColor_scale_witness:
  "(0::jsnum) \<le> 30 \<and> (30::jsnum) \<le> 250 \<and> latency_hue 250 = 0 \<and> latency_hue 250 \<le> latency_hue 30"
  using latencyColor_scale [of 30 250] by simp

text \<open>
  The comment above \<^verbatim>\<open>latencyColor\<close> puts yellow (hue 60) at 50 ms. The code
  reaches hue 60 at 100 ms; 50 ms gets hue 90, half way between green and yellow.
\<close>

theorem latencyColor_yellow_at_100:
  "latencyColor (Some 50) = js ''hsl(90, 70%, 40%)'' \<and>
   latencyColor (Some 100) = js ''hsl(60, 80%, 40%)''"
  by code_simp

section \<open>Resolving selection keys\<close>

text \<open>
  Every peer of a machine list with its instance and machine, in the order the nested loops
  visit them; the loops then are one search in that list.
\<close>

definition peer_triples :: "machine list \<Rightarrow> (peer \<times> net_instance \<times> machine) list" where
  "peer_triples ms =
     concat (map (\<lambda>m. concat (map (\<lambda>i. map (\<lambda>p. (p, i, m)) (peers_of i)) (instances_of m))) ms)"

lemma peer_triples_simps [simp]:
  "peer_triples [] = []"
  "peer_triples (m # ms) =
     concat (map (\<lambda>i. map (\<lambda>p. (p, i, m)) (peers_of i)) (instances_of m)) @ peer_triples ms"
  by (simp_all add: peer_triples_def)

lemma set_peer_triples:
  "(p, i, m) \<in> set (peer_triples ms) \<longleftrightarrow> m \<in> set ms \<and> i \<in> set (instances_of m) \<and> p \<in> set (peers_of i)"
  by (auto simp: peer_triples_def)

lemma resolve_in_instances_find:
  "map_option (\<lambda>(p, i). (p, i, m)) (resolve_in_instances iid pid is) =
     List.find (\<lambda>(p, i, m). Some (i_instance_id i) = iid \<and> Some (nat_str (p_peer_id p)) = pid)
       (concat (map (\<lambda>i. map (\<lambda>p. (p, i, m)) (peers_of i)) is))"
proof (induction "is")
  case Nil
  show ?case by simp
next
  case (Cons i "is")
  show ?case
  proof (cases "Some (i_instance_id i) = iid")
    case True
    then show ?thesis
      using Cons.IH by (auto simp: find_append find_map comp_def split: option.splits)
  next
    case False
    then have "List.find (\<lambda>(p, i, m). Some (i_instance_id i) = iid \<and> Some (nat_str (p_peer_id p)) = pid)
        (map (\<lambda>p. (p, i, m)) (peers_of i)) = None"
      by (auto simp: find_None_iff_all)
    with False Cons.IH show ?thesis by (simp add: find_append)
  qed
qed

lemma resolve_in_machines_find:
  "resolve_in_machines iid pid ms =
     List.find (\<lambda>(p, i, m). Some (i_instance_id i) = iid \<and> Some (nat_str (p_peer_id p)) = pid)
       (peer_triples ms)"
proof (induction ms)
  case Nil
  show ?case by simp
next
  case (Cons m ms)
  show ?case
    using resolve_in_instances_find [of m iid pid "instances_of m"] Cons.IH
    by (auto simp: find_append split: option.splits)
qed

lemma key_nonempty [simp]: "machine_key m \<noteq> []" "peer_key i p \<noteq> []"
  by (simp_all add: machine_key_def peer_key_def)

lemma key_tags [simp]: "js ''p'' \<noteq> js ''m''"
  by simp

lemma split_machine_key:
  "colon \<notin> set (m_machine_id m) \<Longrightarrow> js_split colon (machine_key m) = [js ''m'', m_machine_id m]"
  using js_split_append [of colon "js ''m''" "m_machine_id m"]
  by (simp add: machine_key_def js_string js_split_none colon_def)

lemma split_peer_key:
  "colon \<notin> set (i_instance_id i) \<Longrightarrow>
   js_split colon (peer_key i p) = [js ''p'', i_instance_id i, nat_str (p_peer_id p)]"
  using js_split_append [of colon "js ''p''" "i_instance_id i @ colon # nat_str (p_peer_id p)"]
    js_split_append [of colon "i_instance_id i" "nat_str (p_peer_id p)"]
    js_split_none [OF colon_notin_nat_str, of "p_peer_id p"]
  by (simp add: peer_key_def js_string colon_def)

lemma resolve_machine_key:
  "colon \<notin> set (m_machine_id m) \<Longrightarrow>
   resolveSelection (Some (machine_key m)) ms =
     map_option (SelMachine (machine_key m)) (List.find (\<lambda>m'. m_machine_id m' = m_machine_id m) ms)"
  by (simp add: resolveSelection_def split_machine_key Let_def split: option.splits)

lemma resolve_peer_key:
  "colon \<notin> set (i_instance_id i) \<Longrightarrow>
   resolveSelection (Some (peer_key i p)) ms =
     map_option (\<lambda>(p', i', m'). SelPeer (peer_key i p) p' i' m')
       (List.find (\<lambda>(p', i', m'). i_instance_id i' = i_instance_id i \<and> p_peer_id p' = p_peer_id p)
         (peer_triples ms))"
  by (simp add: resolveSelection_def split_peer_key Let_def resolve_in_machines_find
      split: option.splits)

text \<open>With the uniqueness of the primary keys, an instance and a peer number name one peer.\<close>

definition triple_ids :: "peer \<times> net_instance \<times> machine \<Rightarrow> jsstr \<times> nat" where
  "triple_ids = (\<lambda>(p, i, m). (i_instance_id i, p_peer_id p))"

lemma map_triple_ids:
  "map triple_ids (peer_triples ms) =
     concat (map (\<lambda>i. map (\<lambda>p. (i_instance_id i, p_peer_id p)) (peers_of i)) (all_instances ms))"
  by (induction ms) (simp_all add: all_instances_def triple_ids_def map_concat comp_def)

lemma distinct_instance_peers:
  assumes "distinct (map i_instance_id is)" and "list_all (\<lambda>i. distinct (map p_peer_id (peers_of i))) is"
  shows "distinct (concat (map (\<lambda>i. map (\<lambda>p. (i_instance_id i, p_peer_id p)) (peers_of i)) is))"
  using assms
proof (induction "is")
  case (Cons i "is")
  then have "distinct (map p_peer_id (peers_of i))" and notin: "i_instance_id i \<notin> i_instance_id ` set is"
    by auto
  then have "distinct (map (\<lambda>p. (i_instance_id i, p_peer_id p)) (peers_of i))"
    by (simp add: distinct_map inj_on_def)
  with Cons notin show ?case by auto
qed simp

lemma distinct_triple_ids: "unique_ids ms \<Longrightarrow> distinct (map triple_ids (peer_triples ms))"
  by (simp add: unique_ids_def map_triple_ids distinct_instance_peers)

lemma find_triple:
  assumes "unique_ids ms" and "(p, i, m) \<in> set (peer_triples ms)"
  shows "List.find (\<lambda>(p', i', m'). i_instance_id i' = i_instance_id i \<and> p_peer_id p' = p_peer_id p)
    (peer_triples ms) = Some (p, i, m)"
proof -
  have "List.find (\<lambda>y. triple_ids y = triple_ids (p, i, m)) (peer_triples ms) = Some (p, i, m)"
    using distinct_triple_ids [OF assms(1)] assms(2) by (rule find_distinct_key)
  moreover have "(\<lambda>y. triple_ids y = triple_ids (p, i, m)) =
      (\<lambda>(p', i', m'). i_instance_id i' = i_instance_id i \<and> p_peer_id p' = p_peer_id p)"
    by (auto simp: triple_ids_def)
  ultimately show ?thesis by simp
qed

lemma resolve_own_machine:
  assumes "plain_ids ms" and "unique_ids ms" and "m \<in> set ms"
  shows "resolveSelection (Some (machine_key m)) ms = Some (SelMachine (machine_key m) m)"
proof -
  have "List.find (\<lambda>m'. m_machine_id m' = m_machine_id m) ms = Some m"
    using assms(2,3) by (intro find_distinct_key) (auto simp: unique_ids_def)
  then show ?thesis
    using plain_idsD(1) [OF assms(1,3)] by (simp add: resolve_machine_key)
qed

lemma resolve_own_peer:
  assumes "plain_ids ms" and "unique_ids ms" and "m \<in> set ms" and "i \<in> set (instances_of m)" and "p \<in> set (peers_of i)"
  shows "resolveSelection (Some (peer_key i p)) ms = Some (SelPeer (peer_key i p) p i m)"
proof -
  have "(p, i, m) \<in> set (peer_triples ms)"
    using assms(3-5) by (simp add: set_peer_triples)
  then show ?thesis
    using find_triple [OF assms(2)] plain_idsD(2) [OF assms(1,3,4)]
    by (simp add: resolve_peer_key)
qed

text \<open>
  Selection keys round-trip: with unique identifiers that hold no colon, the key of a
  machine resolves to that machine, and the key of a peer resolves to that peer with its
  own instance and machine.
\<close>

theorem resolveSelection_roundtrip:
  assumes "plain_ids ms" and "unique_ids ms" and "m \<in> set ms"
  shows "resolveSelection (Some (machine_key m)) ms = Some (SelMachine (machine_key m) m)
    \<and> (\<forall>i\<in>set (instances_of m). \<forall>p\<in>set (peers_of i).
         resolveSelection (Some (peer_key i p)) ms = Some (SelPeer (peer_key i p) p i m))"
  using resolve_own_machine [OF assms] resolve_own_peer [OF assms] by blast

theorem resolveSelection_roundtrip_witness:
  "plain_ids sample_machines \<and> unique_ids sample_machines \<and>
   resolveSelection (Some (js ''m:b2'')) sample_machines =
     Some (SelMachine (js ''m:b2'') (sample_machine (js ''b2'') [])) \<and>
   resolveSelection (Some (js ''p:i1:8'')) sample_machines =
     Some (SelPeer (js ''p:i1:8'') (sample_peer 8) (sample_instance (js ''i1'') [7, 8])
       (sample_machine (js ''a1'') [sample_instance (js ''i1'') [7, 8]]))"
proof -
  let ?i = "sample_instance (js ''i1'') [7, 8]"
  let ?a = "sample_machine (js ''a1'') [?i]"
  let ?b = "sample_machine (js ''b2'') []"
  have mem: "?a \<in> set sample_machines" "?b \<in> set sample_machines"
    by (simp_all only: sample_machines_def list.set insert_iff simp_thms)
  have i: "?i \<in> set (instances_of ?a)" "sample_peer 8 \<in> set (peers_of ?i)"
    by (simp_all add: sample_defs)
  have keys: "machine_key ?b = js ''m:b2''" "peer_key ?i (sample_peer 8) = js ''p:i1:8''"
    by (simp_all add: machine_key_def peer_key_def sample_defs nat_str.simps [of 8] digit_def)
  show ?thesis
    using resolveSelection_roundtrip [OF sample_ids mem(2)]
      resolveSelection_roundtrip [OF sample_ids mem(1)] i
    unfolding keys [symmetric] by (simp only: sample_ids)
qed

text \<open>
  A selection is never a stale snapshot: whatever key is stored, what
  \<^verbatim>\<open>resolveSelection\<close> returns is an entity of the machine list it was given, with the key it
  was given.
\<close>

theorem resolveSelection_current:
  assumes "resolveSelection key ms = Some sel"
  shows "case sel of
      SelMachine k m \<Rightarrow> key = Some k \<and> m \<in> set ms
    | SelPeer k p i m \<Rightarrow> key = Some k \<and> m \<in> set ms \<and> i \<in> set (instances_of m) \<and> p \<in> set (peers_of i)"
  using assms
  by (auto simp: resolveSelection_def Let_def resolve_in_machines_find set_peer_triples truthy_str_def
      split: if_splits option.splits dest!: find_SomeD)

theorem resolveSelection_current_witness:
  "sample_machine (js ''b2'') [] \<in> set sample_machines"
proof -
  let ?sel = "SelMachine (js ''m:b2'') (sample_machine (js ''b2'') [])"
  have "resolveSelection (Some (js ''m:b2'')) sample_machines = Some ?sel"
    by (simp add: resolveSelection_def colon_def sample_defs)
  from resolveSelection_current [OF this] show ?thesis by simp
qed

end
