(* ===== verification/Graph_Build.thy ===== *)
theory Graph_Build
  imports Utils
begin

text \<open>
  \<^verbatim>\<open>buildGraph\<close> of \<^verbatim>\<open>frontend/src/components/TopologyGraph.jsx\<close>: the nodes and edges of
  the topology graph from the machine list.

  \<^verbatim>\<open>Math.random()\<close> is the environment: \<open>rs k\<close> is the value of the \<open>k\<close>-th call, and the
  builder's state counts the calls made. The loops with their \<open>seen\<close> set are folds over a
  state record. The equivalence lemma \<open>buildGraph_eq\<close> reduces them to a reference
  definition, the first occurrence of every key in visiting order, from which the structural
  facts follow: distinct keys, complete coverage, edges between existing nodes, and that the
  key of every node resolves to the very entity the node was drawn from.
\<close>

section \<open>Data\<close>

datatype node_type = MachineNode | PeerNode

record gnode =
  g_key :: jsstr
  g_type :: node_type
  g_active :: "bool option"
  g_label :: jsstr
  g_sub :: jsstr
  g_latency :: "jsnum option"
  g_x :: jsnum
  g_y :: jsnum
  g_vx :: jsnum
  g_vy :: jsnum
  g_fixed :: bool

record gedge =
  ge_key :: jsstr
  ge_source :: jsstr
  ge_target :: jsstr
  ge_direct :: bool
  ge_latency :: "jsnum option"

record build =
  b_nodes :: "gnode list"
  b_edges :: "gedge list"
  b_seen :: "jsstr list"
  b_calls :: nat

section \<open>The builder\<close>

definition machine_label :: "machine \<Rightarrow> jsstr" where
  "machine_label m = or_str (m_hostname m) (shortID (Some (m_machine_id m)))"

definition peer_label :: "peer \<Rightarrow> jsstr" where
  "peer_label p = or_str (p_hostname p) (js ''Peer '' @ nat_str (p_peer_id p))"

definition random_x :: "jsnum \<Rightarrow> jsnum" where
  "random_x r = fadd (fmul r 600) 100"

definition random_y :: "jsnum \<Rightarrow> jsnum" where
  "random_y r = fadd (fmul r 400) 100"

definition machine_node :: "(nat \<Rightarrow> jsnum) \<Rightarrow> nat \<Rightarrow> machine \<Rightarrow> gnode" where
  "machine_node rs k m =
     \<lparr>g_key = machine_key m, g_type = MachineNode, g_active = Some (m_active m),
      g_label = machine_label m, g_sub = shortID (Some (m_machine_id m)), g_latency = None,
      g_x = random_x (rs k), g_y = random_y (rs (k + 1)), g_vx = 0, g_vy = 0, g_fixed = False\<rparr>"

definition peer_node :: "(nat \<Rightarrow> jsnum) \<Rightarrow> nat \<Rightarrow> net_instance \<Rightarrow> peer \<Rightarrow> gnode" where
  "peer_node rs k i p =
     \<lparr>g_key = peer_key i p, g_type = PeerNode, g_active = None,
      g_label = peer_label p, g_sub = or_str (p_ipv4 p) (js ''#'' @ nat_str (p_peer_id p)),
      g_latency = p_latency_ms p,
      g_x = random_x (rs k), g_y = random_y (rs (k + 1)), g_vx = 0, g_vy = 0, g_fixed = False\<rparr>"

definition peer_edge :: "machine \<Rightarrow> net_instance \<Rightarrow> peer \<Rightarrow> gedge" where
  "peer_edge m i p =
     \<lparr>ge_key = js ''e:'' @ peer_key i p, ge_source = machine_key m, ge_target = peer_key i p,
      ge_direct = p_direct p, ge_latency = p_latency_ms p\<rparr>"

definition visit_peer :: "(nat \<Rightarrow> jsnum) \<Rightarrow> machine \<Rightarrow> net_instance \<Rightarrow> peer \<Rightarrow> build \<Rightarrow> build" where
  "visit_peer rs m i p st =
     (if peer_key i p \<in> set (b_seen st) then st
      else st\<lparr>b_seen := peer_key i p # b_seen st,
              b_nodes := b_nodes st @ [peer_node rs (b_calls st) i p],
              b_edges := b_edges st @ [peer_edge m i p],
              b_calls := b_calls st + 2\<rparr>)"

definition visit_machine :: "(nat \<Rightarrow> jsnum) \<Rightarrow> machine \<Rightarrow> build \<Rightarrow> build" where
  "visit_machine rs m st =
     (let st1 =
        (if machine_key m \<in> set (b_seen st) then st
         else st\<lparr>b_seen := machine_key m # b_seen st,
                 b_nodes := b_nodes st @ [machine_node rs (b_calls st) m],
                 b_calls := b_calls st + 2\<rparr>)
      in fold (\<lambda>i. fold (visit_peer rs m i) (peers_of i)) (instances_of m) st1)"

definition buildGraph :: "(nat \<Rightarrow> jsnum) \<Rightarrow> nat \<Rightarrow> machine list \<Rightarrow> build" where
  "buildGraph rs k machines =
     fold (visit_machine rs) machines \<lparr>b_nodes = [], b_edges = [], b_seen = [], b_calls = k\<rparr>"

section \<open>Reference definition: first occurrences in visiting order\<close>

datatype item = IMachine machine | IPeer machine net_instance peer

fun item_key :: "item \<Rightarrow> jsstr" where
  "item_key (IMachine m) = machine_key m"
| "item_key (IPeer m i p) = peer_key i p"

fun item_node :: "(nat \<Rightarrow> jsnum) \<Rightarrow> nat \<Rightarrow> item \<Rightarrow> gnode" where
  "item_node rs k (IMachine m) = machine_node rs k m"
| "item_node rs k (IPeer m i p) = peer_node rs k i p"

fun item_edges :: "item \<Rightarrow> gedge list" where
  "item_edges (IMachine m) = []"
| "item_edges (IPeer m i p) = [peer_edge m i p]"

definition machine_items :: "machine \<Rightarrow> item list" where
  "machine_items m =
     IMachine m # concat (map (\<lambda>i. map (IPeer m i) (peers_of i)) (instances_of m))"

definition items :: "machine list \<Rightarrow> item list" where
  "items ms = concat (map machine_items ms)"

fun firsts :: "('a \<Rightarrow> 'k) \<Rightarrow> 'k list \<Rightarrow> 'a list \<Rightarrow> 'a list" where
  "firsts key seen [] = []"
| "firsts key seen (x # xs) =
     (if key x \<in> set seen then firsts key seen xs else x # firsts key (key x # seen) xs)"

fun number_nodes :: "(nat \<Rightarrow> jsnum) \<Rightarrow> nat \<Rightarrow> item list \<Rightarrow> gnode list" where
  "number_nodes rs k [] = []"
| "number_nodes rs k (x # xs) = item_node rs k x # number_nodes rs (k + 2) xs"

subsection \<open>Facts on first occurrences\<close>

lemma firsts_notin_seen: "x \<in> set (firsts key seen xs) \<Longrightarrow> key x \<notin> set seen"
  by (induction key seen xs rule: firsts.induct) (auto split: if_splits)

lemma firsts_subset: "set (firsts key seen xs) \<subseteq> set xs"
  by (induction key seen xs rule: firsts.induct) auto

lemma firsts_keys: "key ` set (firsts key seen xs) = key ` set xs - set seen"
  by (induction key seen xs rule: firsts.induct) auto

lemma distinct_firsts: "distinct (map key (firsts key seen xs))"
proof (induction key seen xs rule: firsts.induct)
  case (2 key seen x xs)
  then show ?case
    using firsts_notin_seen [of _ key "key x # seen" xs] by force
qed simp

lemma firsts_find:
  "x \<in> set (firsts key seen xs) \<Longrightarrow> List.find (\<lambda>y. key y = key x) xs = Some x"
proof (induction key seen xs rule: firsts.induct)
  case (2 key seen y ys)
  show ?case
  proof (cases "key y \<in> set seen")
    case True
    with "2.prems" have mem: "x \<in> set (firsts key seen ys)" by simp
    with True have "key y \<noteq> key x" using firsts_notin_seen [OF mem] by auto
    with mem True "2.IH"(1) show ?thesis by simp
  next
    case False
    with "2.prems" consider "x = y" | "x \<in> set (firsts key (key y # seen) ys)" by auto
    then show ?thesis
    proof cases
      case 1
      then show ?thesis by simp
    next
      case 2
      then have "key y \<noteq> key x" using firsts_notin_seen [OF 2] by auto
      with 2 False "2.IH"(2) show ?thesis by simp
    qed
  qed
qed simp

subsection \<open>The builder computes the reference\<close>

definition visit_item :: "(nat \<Rightarrow> jsnum) \<Rightarrow> item \<Rightarrow> build \<Rightarrow> build" where
  "visit_item rs x st =
     (if item_key x \<in> set (b_seen st) then st
      else st\<lparr>b_seen := item_key x # b_seen st,
              b_nodes := b_nodes st @ [item_node rs (b_calls st) x],
              b_edges := b_edges st @ item_edges x,
              b_calls := b_calls st + 2\<rparr>)"

lemma visit_peer_item: "visit_peer rs m i = (\<lambda>p. visit_item rs (IPeer m i p))"
  by (intro ext) (simp add: visit_peer_def visit_item_def)

lemma fold_visit_instance:
  "fold (\<lambda>i. fold (visit_peer rs m i) (peers_of i)) is st =
     fold (visit_item rs) (concat (map (\<lambda>i. map (IPeer m i) (peers_of i)) is)) st"
  by (induction "is" arbitrary: st) (simp_all add: fold_map visit_peer_item comp_def)

lemma visit_machine_items: "visit_machine rs m st = fold (visit_item rs) (machine_items m) st"
  by (simp add: visit_machine_def machine_items_def fold_visit_instance visit_item_def Let_def)

lemma fold_visit_machine:
  "fold (visit_machine rs) ms st = fold (visit_item rs) (items ms) st"
  by (induction ms arbitrary: st) (simp_all add: items_def visit_machine_items)

lemma fold_visit_item:
  "fold (visit_item rs) xs st =
     (let fs = firsts item_key (b_seen st) xs
      in st\<lparr>b_seen := rev (map item_key fs) @ b_seen st,
            b_nodes := b_nodes st @ number_nodes rs (b_calls st) fs,
            b_edges := b_edges st @ concat (map item_edges fs),
            b_calls := b_calls st + 2 * length fs\<rparr>)"
proof (induction xs arbitrary: st)
  case (Cons x xs)
  show ?case
  proof (cases "item_key x \<in> set (b_seen st)")
    case True
    then show ?thesis using Cons.IH by (simp add: visit_item_def)
  next
    case False
    then show ?thesis using Cons.IH by (simp add: visit_item_def Let_def)
  qed
qed (simp add: Let_def)

lemma buildGraph_eq:
  "buildGraph rs k ms =
     (let fs = firsts item_key [] (items ms)
      in \<lparr>b_nodes = number_nodes rs k fs, b_edges = concat (map item_edges fs),
          b_seen = rev (map item_key fs), b_calls = k + 2 * length fs\<rparr>)"
  by (simp add: buildGraph_def fold_visit_machine fold_visit_item Let_def)

section \<open>Structure of the graph\<close>

lemma item_node_key [simp]: "g_key (item_node rs k x) = item_key x"
  by (cases x) (simp_all add: machine_node_def peer_node_def)

lemma number_nodes_keys [simp]: "map g_key (number_nodes rs k xs) = map item_key xs"
  by (induction xs arbitrary: k) simp_all

lemma number_nodes_memE:
  assumes "n \<in> set (number_nodes rs k xs)"
  obtains j x where "x \<in> set xs" and "n = item_node rs j x"
  using assms by (induction xs arbitrary: k) auto

lemma length_number_nodes [simp]: "length (number_nodes rs k xs) = length xs"
  by (induction xs arbitrary: k) simp_all

lemma peer_items_edge_target:
  "map ge_target (concat (map item_edges xs)) = map item_key (filter (\<lambda>x. item_edges x \<noteq> []) xs)"
proof (induction xs)
  case (Cons x xs)
  then show ?case by (cases x) (simp_all add: peer_edge_def)
qed simp

lemma number_nodes_peers:
  "map g_key (filter (\<lambda>n. g_type n = PeerNode) (number_nodes rs k xs)) =
     map item_key (filter (\<lambda>x. item_edges x \<noteq> []) xs)"
proof (induction xs arbitrary: k)
  case (Cons x xs)
  then show ?case by (cases x) (simp_all add: machine_node_def peer_node_def)
qed simp

lemma set_items:
  "IMachine m \<in> set (items ms) \<longleftrightarrow> m \<in> set ms"
  "IPeer m i p \<in> set (items ms) \<longleftrightarrow> m \<in> set ms \<and> i \<in> set (instances_of m) \<and> p \<in> set (peers_of i)"
  by (auto simp: items_def machine_items_def)

lemma edge_source_item:
  assumes "e \<in> set (concat (map item_edges (firsts item_key [] (items ms))))"
  shows "\<exists>m\<in>set ms. ge_source e = machine_key m"
proof -
  from assms obtain x where x: "x \<in> set (items ms)" and e: "e \<in> set (item_edges x)"
    using firsts_subset [of item_key "[]" "items ms"] by auto
  from e obtain m i p where "x = IPeer m i p" and "ge_source e = machine_key m"
    by (cases x) (auto simp: peer_edge_def)
  with x show ?thesis by (auto simp: set_items)
qed

lemma buildGraph_keys:
  "map g_key (b_nodes (buildGraph rs k ms)) = map item_key (firsts item_key [] (items ms))"
  by (simp add: buildGraph_eq Let_def)

lemma set_buildGraph_keys:
  "g_key ` set (b_nodes (buildGraph rs k ms)) = item_key ` set (items ms)"
proof -
  have "g_key ` set (b_nodes (buildGraph rs k ms)) = set (map g_key (b_nodes (buildGraph rs k ms)))"
    by simp
  also have "\<dots> = item_key ` set (firsts item_key [] (items ms))"
    by (simp only: buildGraph_keys list.set_map)
  also have "\<dots> = item_key ` set (items ms)"
    using firsts_keys [of item_key "[]" "items ms"] by simp
  finally show ?thesis .
qed

lemma buildGraph_distinct: "distinct (map g_key (b_nodes (buildGraph rs k ms)))"
  by (simp only: buildGraph_keys distinct_firsts)

lemma buildGraph_edge_targets:
  "map ge_target (b_edges (buildGraph rs k ms)) =
     map g_key (filter (\<lambda>n. g_type n = PeerNode) (b_nodes (buildGraph rs k ms)))"
  by (simp add: buildGraph_eq Let_def peer_items_edge_target number_nodes_peers del: map_concat)

lemma buildGraph_edges_joined:
  assumes "e \<in> set (b_edges (buildGraph rs k ms))"
  shows "ge_source e \<in> g_key ` set (b_nodes (buildGraph rs k ms))"
    and "ge_target e \<in> g_key ` set (b_nodes (buildGraph rs k ms))"
proof -
  have "\<exists>m\<in>set ms. ge_source e = machine_key m"
    using assms by (intro edge_source_item) (simp add: buildGraph_eq Let_def)
  then show "ge_source e \<in> g_key ` set (b_nodes (buildGraph rs k ms))"
    unfolding set_buildGraph_keys by (metis image_eqI item_key.simps(1) set_items(1))
  have "ge_target e \<in> set (map ge_target (b_edges (buildGraph rs k ms)))"
    using assms by simp
  then show "ge_target e \<in> g_key ` set (b_nodes (buildGraph rs k ms))"
    unfolding buildGraph_edge_targets by auto
qed

text \<open>
  C28. The graph of any machine list is well formed: node keys are distinct, every edge joins
  the keys of two existing nodes, and the edges point at the peer nodes one to one, in their
  order.
\<close>

theorem buildGraph_wellformed:
  "distinct (map g_key (b_nodes (buildGraph rs k ms))) \<and>
   (\<forall>e\<in>set (b_edges (buildGraph rs k ms)).
      ge_source e \<in> g_key ` set (b_nodes (buildGraph rs k ms)) \<and>
      ge_target e \<in> g_key ` set (b_nodes (buildGraph rs k ms))) \<and>
   map ge_target (b_edges (buildGraph rs k ms)) =
     map g_key (filter (\<lambda>n. g_type n = PeerNode) (b_nodes (buildGraph rs k ms)))"
  using buildGraph_distinct buildGraph_edge_targets buildGraph_edges_joined by blast

theorem buildGraph_wellformed_witness:
  "length (b_edges (buildGraph (\<lambda>_. 0) 0 sample_machines)) = 2 \<and>
   map ge_target (b_edges (buildGraph (\<lambda>_. 0) 0 sample_machines)) = [js ''p:i1:7'', js ''p:i1:8''] \<and>
   map g_key (filter (\<lambda>n. g_type n = PeerNode) (b_nodes (buildGraph (\<lambda>_. 0) 0 sample_machines))) =
     [js ''p:i1:7'', js ''p:i1:8'']"
proof -
  have "map ge_target (b_edges (buildGraph (\<lambda>_. 0) 0 sample_machines)) = [js ''p:i1:7'', js ''p:i1:8'']"
    by code_simp
  moreover from this have "length (b_edges (buildGraph (\<lambda>_. 0) 0 sample_machines)) = 2"
    by (metis One_nat_def Suc_1 length_map list.size(3,4) add.commute plus_1_eq_Suc)
  ultimately show ?thesis using buildGraph_wellformed [of "\<lambda>_. 0" 0 sample_machines] by simp
qed

text \<open>
  The graph is complete: its keys are exactly the keys of the machines and of the peers of
  their instances, so no entity is dropped and none is invented.
\<close>

theorem buildGraph_complete:
  "g_key ` set (b_nodes (buildGraph rs k ms)) =
     machine_key ` set ms \<union>
     {peer_key i p | i p. \<exists>m\<in>set ms. i \<in> set (instances_of m) \<and> p \<in> set (peers_of i)}"
proof -
  have "item_key ` set (items ms) =
      machine_key ` set ms \<union>
      {peer_key i p | i p. \<exists>m\<in>set ms. i \<in> set (instances_of m) \<and> p \<in> set (peers_of i)}"
    (is "?l = ?r")
  proof (intro equalityI subsetI)
    fix k
    assume "k \<in> ?l"
    then obtain x where x: "x \<in> set (items ms)" "k = item_key x" by auto
    show "k \<in> ?r" by (cases x) (use x in \<open>auto simp: set_items\<close>)
  next
    fix k
    assume "k \<in> ?r"
    then consider m where "m \<in> set ms" "k = machine_key m"
      | m i p where "m \<in> set ms" "i \<in> set (instances_of m)" "p \<in> set (peers_of i)" "k = peer_key i p"
      by auto
    then show "k \<in> ?l"
      by cases (metis image_eqI item_key.simps set_items)+
  qed
  then show ?thesis by (simp only: set_buildGraph_keys)
qed

section \<open>Nodes and selections\<close>

text \<open>
  What a click on a node selects is the entity the node was drawn from: the first machine or
  peer with that key, which is also the first one \<open>resolveSelection\<close> finds.
\<close>

definition shows_selection :: "gnode \<Rightarrow> selection \<Rightarrow> bool" where
  "shows_selection n sel =
     (case sel of
        SelMachine k m \<Rightarrow>
          g_type n = MachineNode \<and> k = g_key n \<and> g_label n = machine_label m \<and> g_active n = Some (m_active m)
      | SelPeer k p i m \<Rightarrow>
          g_type n = PeerNode \<and> k = g_key n \<and> g_label n = peer_label p \<and> g_latency n = p_latency_ms p)"

lemma machine_key_inject [simp]: "machine_key a = machine_key b \<longleftrightarrow> m_machine_id a = m_machine_id b"
  by (simp add: machine_key_def)

lemma machine_key_neq_peer_key [simp]: "machine_key m \<noteq> peer_key i p" "peer_key i p \<noteq> machine_key m"
  by (simp_all add: machine_key_def peer_key_def)

lemma peer_key_eq_iff:
  assumes "colon \<notin> set (i_instance_id a)" and "colon \<notin> set (i_instance_id b)"
  shows "peer_key a p = peer_key b q \<longleftrightarrow> i_instance_id a = i_instance_id b \<and> p_peer_id p = p_peer_id q"
  using split_peer_key [OF assms(1), of p] split_peer_key [OF assms(2), of q]
  by (metis list.inject nat_str_inject peer_key_def)

lemma find_machine_items:
  "List.find (\<lambda>y. item_key y = machine_key m) (items ms) =
     map_option IMachine (List.find (\<lambda>m'. m_machine_id m' = m_machine_id m) ms)"
proof (induction ms)
  case (Cons a ms)
  have none: "List.find (\<lambda>y. item_key y = machine_key m)
      (concat (map (\<lambda>i. map (IPeer a i) (peers_of i)) (instances_of a))) = None"
    by (auto simp: find_None_iff_all)
  with Cons show ?case
    by (simp add: items_def machine_items_def find_append)
qed (simp add: items_def)

lemma find_peer_items:
  assumes "plain_ids ms" and "colon \<notin> set (i_instance_id i)"
  shows "List.find (\<lambda>y. item_key y = peer_key i p) (items ms) =
     map_option (\<lambda>(p', i', m'). IPeer m' i' p')
       (List.find (\<lambda>(p', i', m'). i_instance_id i' = i_instance_id i \<and> p_peer_id p' = p_peer_id p)
         (peer_triples ms))"
  using assms(1)
proof (induction ms)
  case (Cons m ms)
  let ?Q = "\<lambda>(p', i', m'). i_instance_id i' = i_instance_id i \<and> p_peer_id p' = p_peer_id p"
  let ?ts = "concat (map (\<lambda>i. map (\<lambda>p. (p, i, m)) (peers_of i)) (instances_of m))"
  have items: "concat (map (\<lambda>i. map (IPeer m i) (peers_of i)) (instances_of m)) =
      map (\<lambda>(p', i', m'). IPeer m' i' p') ?ts"
    by (simp add: map_concat comp_def)
  have "List.find ((\<lambda>y. item_key y = peer_key i p) \<circ> (\<lambda>(p', i', m'). IPeer m' i' p')) ?ts =
      List.find ?Q ?ts"
    using Cons.prems assms(2) by (intro find_cong_set) (auto simp: peer_key_eq_iff)
  then have here: "List.find (\<lambda>y. item_key y = peer_key i p)
      (concat (map (\<lambda>i. map (IPeer m i) (peers_of i)) (instances_of m))) =
      map_option (\<lambda>(p', i', m'). IPeer m' i' p') (List.find ?Q ?ts)"
    unfolding items find_map by simp
  have "items (m # ms) =
      IMachine m # concat (map (\<lambda>i. map (IPeer m i) (peers_of i)) (instances_of m)) @ items ms"
    by (simp add: items_def machine_items_def)
  with Cons here show ?case
    by (simp add: find_append split: option.splits)
qed (simp add: items_def)

text \<open>
  Every node of the graph resolves: for identifiers without colons, the key of a node
  resolves against the same machine list to a selection of the node's own kind, whose label
  and state are the ones the node shows. No uniqueness of identifiers is needed: where an
  identifier repeats, the node and the selection both take the first occurrence.
\<close>

theorem buildGraph_nodes_resolve:
  assumes "plain_ids ms" and "n \<in> set (b_nodes (buildGraph rs k ms))"
  shows "\<exists>sel. resolveSelection (Some (g_key n)) ms = Some sel \<and> shows_selection n sel"
proof -
  let ?fs = "firsts item_key [] (items ms)"
  from assms(2) have "n \<in> set (number_nodes rs k ?fs)" by (simp add: buildGraph_eq Let_def)
  then obtain j x where x: "x \<in> set ?fs" and n: "n = item_node rs j x"
    by (rule number_nodes_memE)
  have found: "List.find (\<lambda>y. item_key y = item_key x) (items ms) = Some x"
    using x by (rule firsts_find)
  have mem: "x \<in> set (items ms)" using x firsts_subset [of item_key "[]" "items ms"] by blast
  show ?thesis
  proof (cases x)
    case (IMachine m)
    then have "m \<in> set ms" using mem by (simp add: set_items)
    then have "colon \<notin> set (m_machine_id m)" by (rule plain_idsD(1) [OF assms(1)])
    moreover have "List.find (\<lambda>m'. m_machine_id m' = m_machine_id m) ms = Some m"
      using found find_machine_items [of m ms] IMachine by simp
    ultimately have "resolveSelection (Some (machine_key m)) ms = Some (SelMachine (machine_key m) m)"
      by (simp add: resolve_machine_key)
    then show ?thesis
      by (simp add: n IMachine shows_selection_def machine_node_def)
  next
    case (IPeer m i p)
    then have "m \<in> set ms" and "i \<in> set (instances_of m)" using mem by (simp_all add: set_items)
    then have c: "colon \<notin> set (i_instance_id i)" by (rule plain_idsD(2) [OF assms(1)])
    have "List.find (\<lambda>(p', i', m'). i_instance_id i' = i_instance_id i \<and> p_peer_id p' = p_peer_id p)
        (peer_triples ms) = Some (p, i, m)"
      using found find_peer_items [OF assms(1) c, of p] IPeer by auto
    then have "resolveSelection (Some (peer_key i p)) ms = Some (SelPeer (peer_key i p) p i m)"
      by (simp add: resolve_peer_key [OF c])
    then show ?thesis
      by (simp add: n IPeer shows_selection_def peer_node_def)
  qed
qed

theorem buildGraph_nodes_resolve_witness:
  "\<exists>n sel. n \<in> set (b_nodes (buildGraph (\<lambda>_. 0) 0 sample_machines)) \<and>
     resolveSelection (Some (g_key n)) sample_machines = Some sel \<and> shows_selection n sel"
proof -
  have "b_nodes (buildGraph (\<lambda>_. 0) 0 sample_machines) \<noteq> []"
    by (simp add: buildGraph_eq Let_def items_def machine_items_def sample_machines_def)
  then obtain n where n: "n \<in> set (b_nodes (buildGraph (\<lambda>_. 0) 0 sample_machines))"
    by (meson list.set_sel(1))
  with buildGraph_nodes_resolve [OF sample_ids(1) n] show ?thesis by blast
qed

section \<open>Initial positions\<close>

text \<open>
  A fresh node starts at rest inside the rectangle \<open>[100, 700] \<times> [100, 500]\<close>, for random
  values in \<open>[0, 1)\<close> and with the rounding of the two operations that place it, and no node
  starts pinned.
\<close>

theorem buildGraph_initial_layout:
  assumes "\<And>j. 0 \<le> rs j \<and> rs j < 1" and "n \<in> set (b_nodes (buildGraph rs k ms))"
  shows "100 \<le> g_x n \<and> g_x n \<le> 700 \<and> 100 \<le> g_y n \<and> g_y n \<le> 500
    \<and> g_vx n = 0 \<and> g_vy n = 0 \<and> \<not> g_fixed n"
proof -
  have x: "100 \<le> random_x r \<and> random_x r \<le> 700" and y: "100 \<le> random_y r \<and> random_y r \<le> 500"
    if "0 \<le> r" "r < 1" for r
  proof -
    have "0 \<le> fmul r 600" "fmul r 600 \<le> 600" "0 \<le> fmul r 400" "fmul r 400 \<le> 400"
      unfolding fmul_def using that
      by (auto intro!: binary64.r_nonneg binary64.r_upper_numeral)
    then show "100 \<le> random_x r \<and> random_x r \<le> 700" "100 \<le> random_y r \<and> random_y r \<le> 500"
      unfolding random_x_def random_y_def fadd_def
      by (auto intro!: binary64.r_lower_numeral binary64.r_upper_numeral)
  qed
  from assms(2) have "n \<in> set (number_nodes rs k (firsts item_key [] (items ms)))"
    by (simp add: buildGraph_eq Let_def)
  then obtain j it where n: "n = item_node rs j it"
    by (rule number_nodes_memE)
  show ?thesis
    using x [of "rs j"] y [of "rs (j + 1)"] assms(1) unfolding n
    by (cases it) (simp_all add: machine_node_def peer_node_def)
qed

theorem buildGraph_initial_layout_witness:
  "\<exists>n. n \<in> set (b_nodes (buildGraph (\<lambda>_. 1 / 2) 0 sample_machines)) \<and> 100 \<le> g_x n \<and> g_x n \<le> 700"
proof -
  have "b_nodes (buildGraph (\<lambda>_. 1 / 2) 0 sample_machines) \<noteq> []"
    by (simp add: buildGraph_eq Let_def items_def machine_items_def sample_machines_def)
  then obtain n where n: "n \<in> set (b_nodes (buildGraph (\<lambda>_. 1 / 2) 0 sample_machines))"
    by (meson list.set_sel(1))
  have "0 \<le> (1 / 2 :: jsnum) \<and> (1 / 2 :: jsnum) < 1" by simp
  from buildGraph_initial_layout [OF this n] n show ?thesis by blast
qed

end
