(* ===== verification/Simulation.thy ===== *)
theory Simulation
  imports Graph_Build
begin

text \<open>
  \<^verbatim>\<open>createSimulation\<close> of \<^verbatim>\<open>frontend/src/components/TopologyGraph.jsx\<close>: the force-directed
  layout.

  The node objects are shared between the component's state, the simulation and a drag in
  progress, and all three mutate them, so they live in an explicit store: a heap is the list
  of the objects ever created, an address is an index into it, and an array of nodes is a
  list of addresses. \<open>a === b\<close> is equality of addresses. \<^verbatim>\<open>Math.sqrt\<close> is an approximation the
  standard leaves to the implementation; it is the argument \<open>msqrt\<close>.

  Shown here: what a tick may change (velocities and positions of unpinned nodes of the
  graph, nothing else), that it reports the largest velocity component, and that the cooling
  schedule brings every layout to rest after exactly 263 ticks.
\<close>

section \<open>Constants\<close>

definition REPEL :: jsnum where "REPEL = 3600"
definition SPRING_LEN :: jsnum where "SPRING_LEN = 140"
definition SPRING_K :: jsnum where "SPRING_K = rnd (4 / 100)"
definition DAMP :: jsnum where "DAMP = rnd (82 / 100)"
definition CENTER_K :: jsnum where "CENTER_K = rnd (7 / 1000)"
definition ALPHA_DECAY :: jsnum where "ALPHA_DECAY = rnd (2 / 100)"
definition ALPHA_MIN :: jsnum where "ALPHA_MIN = rnd (5 / 1000)"
definition SETTLE_EPSILON :: jsnum where "SETTLE_EPSILON = rnd (8 / 100)"

section \<open>State\<close>

type_synonym addr = nat
type_synonym heap = "gnode list"
type_synonym adjacency = "jsstr \<Rightarrow> jsstr list option"

record simulation =
  s_nodes :: "addr list"
  s_adjacency :: adjacency
  s_alpha :: jsnum

definition createSimulation :: simulation where
  "createSimulation = \<lparr>s_nodes = [], s_adjacency = (\<lambda>_. None), s_alpha = 1\<rparr>"

text \<open>\<^verbatim>\<open>new Map(nodes.map((n) => [n.key, n]))\<close>: the last entry of a key wins.\<close>

definition by_key :: "heap \<Rightarrow> addr list \<Rightarrow> jsstr \<Rightarrow> addr option" where
  "by_key h nodes k = List.find (\<lambda>a. g_key (h ! a) = k) (rev nodes)"

text \<open>\<^verbatim>\<open>adjacency.get(k)?.push(v)\<close>\<close>

definition push_neighbor :: "jsstr \<Rightarrow> jsstr \<Rightarrow> adjacency \<Rightarrow> adjacency" where
  "push_neighbor k v adj = (case adj k of None \<Rightarrow> adj | Some xs \<Rightarrow> adj(k \<mapsto> xs @ [v]))"

definition link_edge :: "gedge \<Rightarrow> adjacency \<Rightarrow> adjacency" where
  "link_edge e adj =
     push_neighbor (ge_target e) (ge_source e) (push_neighbor (ge_source e) (ge_target e) adj)"

definition setGraph :: "heap \<Rightarrow> addr list \<Rightarrow> gedge list \<Rightarrow> simulation \<Rightarrow> simulation" where
  "setGraph h nextNodes nextEdges sim =
     sim\<lparr>s_nodes := nextNodes,
         s_adjacency := fold link_edge nextEdges
           (\<lambda>k. if k \<in> set (map (\<lambda>a. g_key (h ! a)) nextNodes) then Some [] else None)\<rparr>"

definition reheat :: "simulation \<Rightarrow> simulation" where
  "reheat sim = sim\<lparr>s_alpha := 1\<rparr>"

section \<open>One tick\<close>

definition distance :: "(jsnum \<Rightarrow> jsnum) \<Rightarrow> jsnum \<Rightarrow> jsnum \<Rightarrow> jsnum" where
  "distance msqrt dx dy =
     (let d = msqrt (fadd (fmul dx dx) (fmul dy dy)) in if d = 0 then 1 else d)"

definition repulsion :: "(jsnum \<Rightarrow> jsnum) \<Rightarrow> heap \<Rightarrow> addr \<Rightarrow> addr \<Rightarrow> jsnum \<times> jsnum \<Rightarrow> jsnum \<times> jsnum" where
  "repulsion msqrt h a b = (\<lambda>(fx, fy).
     if a = b then (fx, fy)
     else
       let dx = fsub (g_x (h ! a)) (g_x (h ! b));
           dy = fsub (g_y (h ! a)) (g_y (h ! b));
           dist = distance msqrt dx dy;
           force = fdiv REPEL (fmul dist dist)
       in (fadd fx (fmul (fdiv dx dist) force), fadd fy (fmul (fdiv dy dist) force)))"

definition attraction ::
  "(jsnum \<Rightarrow> jsnum) \<Rightarrow> heap \<Rightarrow> addr list \<Rightarrow> addr \<Rightarrow> jsstr \<Rightarrow> jsnum \<times> jsnum \<Rightarrow> jsnum \<times> jsnum" where
  "attraction msqrt h nodes a neighborKey = (\<lambda>(fx, fy).
     case by_key h nodes neighborKey of
       None \<Rightarrow> (fx, fy)
     | Some other \<Rightarrow>
         let dx = fsub (g_x (h ! other)) (g_x (h ! a));
             dy = fsub (g_y (h ! other)) (g_y (h ! a));
             dist = distance msqrt dx dy;
             stretch = fsub dist SPRING_LEN
         in (fadd fx (fmul (fmul (fdiv dx dist) stretch) SPRING_K),
             fadd fy (fmul (fmul (fdiv dy dist) stretch) SPRING_K)))"

definition net_force ::
  "(jsnum \<Rightarrow> jsnum) \<Rightarrow> simulation \<Rightarrow> heap \<Rightarrow> jsnum \<Rightarrow> jsnum \<Rightarrow> addr \<Rightarrow> jsnum \<times> jsnum" where
  "net_force msqrt sim h cx cy a =
     (let f1 = fold (repulsion msqrt h a) (s_nodes sim) (0, 0);
          f2 = fold (attraction msqrt h (s_nodes sim) a)
                 (or_empty (s_adjacency sim (g_key (h ! a)))) f1
      in (fadd (fst f2) (fmul (fsub cx (g_x (h ! a))) CENTER_K),
          fadd (snd f2) (fmul (fsub cy (g_y (h ! a))) CENTER_K)))"

definition move_node ::
  "(jsnum \<Rightarrow> jsnum) \<Rightarrow> simulation \<Rightarrow> jsnum \<Rightarrow> jsnum \<Rightarrow> addr \<Rightarrow> heap \<times> jsnum \<Rightarrow> heap \<times> jsnum" where
  "move_node msqrt sim cx cy a = (\<lambda>(h, maxShift).
     if g_fixed (h ! a) then (h, maxShift)
     else
       let (fx, fy) = net_force msqrt sim h cx cy a;
           n = h ! a;
           vx = fmul (fadd (g_vx n) (fmul fx (s_alpha sim))) DAMP;
           vy = fmul (fadd (g_vy n) (fmul fy (s_alpha sim))) DAMP;
           n' = n\<lparr>g_vx := vx, g_vy := vy, g_x := fadd (g_x n) vx, g_y := fadd (g_y n) vy\<rparr>
       in (h[a := n'], max (max maxShift \<bar>vx\<bar>) \<bar>vy\<bar>))"

definition tick ::
  "(jsnum \<Rightarrow> jsnum) \<Rightarrow> jsnum \<Rightarrow> jsnum \<Rightarrow> simulation \<Rightarrow> heap \<Rightarrow> simulation \<times> heap \<times> jsnum" where
  "tick msqrt cx cy sim h =
     (if s_alpha sim < ALPHA_MIN then (sim, h, 0)
      else
        let (h', maxShift) = fold (move_node msqrt sim cx cy) (s_nodes sim) (h, 0)
        in (sim\<lparr>s_alpha := fmul (s_alpha sim) (fsub 1 ALPHA_DECAY)\<rparr>, h', maxShift))"

section \<open>What a tick changes\<close>

text \<open>
  \<open>moved a b\<close>: object \<open>b\<close> is object \<open>a\<close> up to position and velocity. A tick relates every
  object to itself this way, and leaves pinned objects and objects outside the graph alone.
\<close>

definition moved :: "gnode \<Rightarrow> gnode \<Rightarrow> bool" where
  "moved n n' \<longleftrightarrow> g_key n' = g_key n \<and> g_fixed n' = g_fixed n \<and> g_type n' = g_type n \<and>
     g_active n' = g_active n \<and> g_label n' = g_label n \<and> g_sub n' = g_sub n \<and> g_latency n' = g_latency n"

lemma moved_refl [simp]: "moved n n"
  by (simp add: moved_def)

lemma moved_trans: "moved a b \<Longrightarrow> moved b c \<Longrightarrow> moved a c"
  by (simp add: moved_def)

definition heap_step :: "addr set \<Rightarrow> heap \<Rightarrow> heap \<Rightarrow> bool" where
  "heap_step A h h' \<longleftrightarrow>
     length h' = length h \<and> (\<forall>a. moved (h ! a) (h' ! a)) \<and>
     (\<forall>a. a \<notin> A \<or> g_fixed (h ! a) \<longrightarrow> h' ! a = h ! a)"

lemma heap_step_refl [simp]: "heap_step A h h"
  by (simp add: heap_step_def)

lemma heap_step_trans: "heap_step A h h1 \<Longrightarrow> heap_step A h1 h2 \<Longrightarrow> heap_step A h h2"
  by (auto simp: heap_step_def moved_def)

lemma heap_step_mono: "heap_step A h h' \<Longrightarrow> A \<subseteq> B \<Longrightarrow> heap_step B h h'"
  unfolding heap_step_def by blast

lemma move_node_step:
  assumes "move_node msqrt sim cx cy a (h, m) = (h', m')"
  shows "heap_step {a} h h'"
proof (cases "g_fixed (h ! a)")
  case True
  with assms show ?thesis by (simp add: move_node_def)
next
  case False
  obtain n' where h': "h' = h[a := n']" and n': "moved (h ! a) n'"
    using assms False by (auto simp: move_node_def Let_def moved_def split: prod.splits)
  have "moved (h ! b) (h' ! b)" for b
    using n' by (cases "a < length h") (auto simp: h' nth_list_update list_update_beyond)
  with False show ?thesis by (auto simp: heap_step_def h')
qed

lemma fold_move_node_step:
  "fold (move_node msqrt sim cx cy) as (h, m) = (h', m') \<Longrightarrow> heap_step (set as) h h'"
proof (induction as arbitrary: h m)
  case (Cons a as)
  obtain h1 m1 where 1: "move_node msqrt sim cx cy a (h, m) = (h1, m1)" by fastforce
  with Cons.prems have "fold (move_node msqrt sim cx cy) as (h1, m1) = (h', m')" by simp
  then have "heap_step (set as) h1 h'" by (rule Cons.IH)
  moreover have "heap_step {a} h h1" using 1 by (rule move_node_step)
  ultimately show ?case
    by (auto intro: heap_step_trans elim!: heap_step_mono)
qed simp

lemma tick_heap_step: "tick msqrt cx cy sim h = (sim', h', m) \<Longrightarrow> heap_step (set (s_nodes sim)) h h'"
  by (auto simp: tick_def split: if_splits prod.splits intro: fold_move_node_step)

lemma tick_sim:
  "tick msqrt cx cy sim h = (sim', h', m) \<Longrightarrow>
     s_nodes sim' = s_nodes sim \<and> s_adjacency sim' = s_adjacency sim \<and>
     s_alpha sim' = (if s_alpha sim < ALPHA_MIN then s_alpha sim
                     else fmul (s_alpha sim) (fsub 1 ALPHA_DECAY))"
  by (auto simp: tick_def split: if_splits prod.splits)

lemma tick_cold: "s_alpha sim < ALPHA_MIN \<Longrightarrow> tick msqrt cx cy sim h = (sim, h, 0)"
  by (simp add: tick_def)

text \<open>The shift a tick reports bounds the velocity of every node it moved.\<close>

lemma fold_move_node_shift:
  assumes "fold (move_node msqrt sim cx cy) as (h, m) = (h', m')" and "distinct as"
    and "set as \<subseteq> {..<length h}"
  shows "m \<le> m' \<and> (\<forall>a\<in>set as. \<not> g_fixed (h ! a) \<longrightarrow> \<bar>g_vx (h' ! a)\<bar> \<le> m' \<and> \<bar>g_vy (h' ! a)\<bar> \<le> m')"
  using assms
proof (induction as arbitrary: h m)
  case (Cons a as)
  obtain h1 m1 where 1: "move_node msqrt sim cx cy a (h, m) = (h1, m1)" by fastforce
  note step = move_node_step [OF 1]
  from 1 Cons.prems have rest: "fold (move_node msqrt sim cx cy) as (h1, m1) = (h', m')" by simp
  have len: "length h1 = length h" using step by (simp add: heap_step_def)
  with Cons rest have IH: "m1 \<le> m' \<and> (\<forall>b\<in>set as. \<not> g_fixed (h1 ! b) \<longrightarrow>
      \<bar>g_vx (h' ! b)\<bar> \<le> m' \<and> \<bar>g_vy (h' ! b)\<bar> \<le> m')" by simp
  have m: "m \<le> m1" and v: "\<not> g_fixed (h ! a) \<Longrightarrow> \<bar>g_vx (h1 ! a)\<bar> \<le> m1 \<and> \<bar>g_vy (h1 ! a)\<bar> \<le> m1"
    using 1 Cons.prems(3) by (auto simp: move_node_def Let_def split: if_splits prod.splits)
  have keep: "h' ! a = h1 ! a"
    using fold_move_node_step [OF rest] Cons.prems(2) by (simp add: heap_step_def)
  have same: "g_fixed (h1 ! b) = g_fixed (h ! b)" for b
    using step by (simp add: heap_step_def moved_def)
  show ?case
    using IH m v keep same by (auto intro: order_trans)
qed simp

text \<open>
  C30. A tick touches only the layout. It allocates nothing, keeps every identity field of
  every node object, leaves pinned nodes and objects outside the graph exactly as they were,
  and the shift it returns bounds the velocity of every node it moved.
\<close>

theorem tick_frame:
  assumes "tick msqrt cx cy sim h = (sim', h', shift)" and "distinct (s_nodes sim)"
    and "set (s_nodes sim) \<subseteq> {..<length h}"
  shows "length h' = length h \<and> s_nodes sim' = s_nodes sim \<and> s_adjacency sim' = s_adjacency sim \<and>
    (\<forall>a. moved (h ! a) (h' ! a)) \<and>
    (\<forall>a. a \<notin> set (s_nodes sim) \<or> g_fixed (h ! a) \<longrightarrow> h' ! a = h ! a) \<and>
    0 \<le> shift \<and>
    (ALPHA_MIN \<le> s_alpha sim \<longrightarrow> (\<forall>a\<in>set (s_nodes sim). \<not> g_fixed (h ! a) \<longrightarrow>
       \<bar>g_vx (h' ! a)\<bar> \<le> shift \<and> \<bar>g_vy (h' ! a)\<bar> \<le> shift))"
proof -
  have "0 \<le> shift \<and>
    (ALPHA_MIN \<le> s_alpha sim \<longrightarrow> (\<forall>a\<in>set (s_nodes sim). \<not> g_fixed (h ! a) \<longrightarrow>
       \<bar>g_vx (h' ! a)\<bar> \<le> shift \<and> \<bar>g_vy (h' ! a)\<bar> \<le> shift))"
  proof (cases "s_alpha sim < ALPHA_MIN")
    case True
    with assms(1) show ?thesis by (simp add: tick_def)
  next
    case False
    with assms(1) have "fold (move_node msqrt sim cx cy) (s_nodes sim) (h, 0) = (h', shift)"
      by (simp add: tick_def split: prod.splits)
    from fold_move_node_shift [OF this assms(2,3)] show ?thesis by blast
  qed
  with tick_heap_step [OF assms(1)] tick_sim [OF assms(1)] show ?thesis
    by (simp add: heap_step_def)
qed

section \<open>Cooling\<close>

definition cool :: "jsnum \<Rightarrow> jsnum" where
  "cool a = fmul a (fsub 1 ALPHA_DECAY)"

lemma decay_factor: "fsub 1 ALPHA_DECAY \<le> 9800005 / 10000000" "9799995 / 10000000 \<le> fsub 1 ALPHA_DECAY"
  by (simp_all only: ALPHA_DECAY_def) code_simp+

lemma alpha_min_bounds: "ALPHA_MIN \<le> 50001 / 10000000" "49999 / 10000000 \<le> ALPHA_MIN"
  by code_simp+

lemma cool_bounds:
  assumes "0 \<le> a"
  shows "cool a \<le> a * (980001 / 1000000)" and "a * (979999 / 1000000) \<le> cool a"
proof -
  let ?d = "fsub 1 ALPHA_DECAY"
  have d: "?d \<le> 9800005 / 10000000" "9799995 / 10000000 \<le> ?d" by (rule decay_factor)+
  have ad: "a * ?d \<le> a * (9800005 / 10000000)" "a * (9799995 / 10000000) \<le> a * ?d"
    by (rule mult_left_mono [OF d(1) assms], rule mult_left_mono [OF d(2) assms])
  have "0 \<le> a * ?d" using assms d(2) by simp
  then have err: "\<bar>cool a - a * ?d\<bar> \<le> a * ?d / 2 ^ 53"
    using rnd_relative_error [of "a * ?d"] by (simp add: cool_def fmul_def)
  have "a * ?d / 2 ^ 53 \<le> a * (9800005 / 10000000) / 2 ^ 53"
    using ad(1) by (rule divide_right_mono) simp
  also have "\<dots> \<le> a * (5 / 10000000)"
    using assms by (simp add: field_simps)
  finally have e: "a * ?d / 2 ^ 53 \<le> a * (5 / 10000000)" .
  show "cool a \<le> a * (980001 / 1000000)"
    using ad(1) err e by linarith
  show "a * (979999 / 1000000) \<le> cool a"
    using ad(2) err e by linarith
qed

lemma cool_nonneg: "0 \<le> a \<Longrightarrow> 0 \<le> cool a"
  using cool_bounds(2) [of a] by linarith

lemma cool_le: "0 \<le> a \<Longrightarrow> cool a \<le> a"
  using cool_bounds(1) [of a] by linarith

lemma cool_pow_bounds:
  assumes "0 \<le> a"
  shows "0 \<le> (cool ^^ n) a \<and> (cool ^^ n) a \<le> a * (980001 / 1000000) ^ n \<and>
    a * (979999 / 1000000) ^ n \<le> (cool ^^ n) a"
proof (induction n)
  case (Suc n)
  then have nn: "0 \<le> (cool ^^ n) a" by blast
  note b = cool_bounds [OF nn] and IH = Suc.IH
  have up: "(cool ^^ n) a * (980001 / 1000000) \<le> (a * (980001 / 1000000) ^ n) * (980001 / 1000000)"
    using IH by (intro mult_right_mono) auto
  have low: "(a * (979999 / 1000000) ^ n) * (979999 / 1000000) \<le> (cool ^^ n) a * (979999 / 1000000)"
    using IH by (intro mult_right_mono) auto
  have pow: "a * q ^ Suc n = (a * q ^ n) * q" for q
    by (simp add: mult_ac)
  show ?case
    unfolding pow funpow.simps comp_def
    using cool_nonneg [OF nn] order_trans [OF b(1) up] order_trans [OF low b(2)] by blast
qed (simp add: assms)

text \<open>The two powers, by repeated squaring with rounded intermediate bounds.\<close>

lemma square_upper: "(q::rat) ^ n \<le> b \<Longrightarrow> 0 \<le> q \<Longrightarrow> b * b \<le> c \<Longrightarrow> q ^ (n + n) \<le> c"
  unfolding power_add by (meson mult_mono order_trans zero_le_power)

lemma square_lower: "b \<le> (q::rat) ^ n \<Longrightarrow> 0 \<le> b \<Longrightarrow> c \<le> b * b \<Longrightarrow> c \<le> q ^ (n + n)"
  unfolding power_add by (meson mult_mono order_trans)

lemma hot_power: "(980001 / 1000000 :: rat) ^ 263 < 49999 / 10000000"
proof -
  let ?q = "980001 / 1000000 :: rat"
  have q1: "?q ^ 1 \<le> 980001 / 1000000" by simp
  have q2: "?q ^ 2 \<le> 9604019601 / 10000000000"
    by (simp add: power2_eq_square)
  have q4: "?q ^ 4 \<le> 9223719250 / 10000000000"
    using square_upper [OF q2, of "9223719250 / 10000000000"] by simp
  have q8: "?q ^ 8 \<le> 8507699681 / 10000000000"
    using square_upper [OF q4, of "8507699681 / 10000000000"] by simp
  have q16: "?q ^ 16 \<le> 7238095387 / 10000000000"
    using square_upper [OF q8, of "7238095387 / 10000000000"] by simp
  have q32: "?q ^ 32 \<le> 5239002484 / 10000000000"
    using square_upper [OF q16, of "5239002484 / 10000000000"] by simp
  have q64: "?q ^ 64 \<le> 2744714703 / 10000000000"
    using square_upper [OF q32, of "2744714703 / 10000000000"] by simp
  have q128: "?q ^ 128 \<le> 753345881 / 10000000000"
    using square_upper [OF q64, of "753345881 / 10000000000"] by simp
  have q256: "?q ^ 256 \<le> 56753002 / 10000000000"
    using square_upper [OF q128, of "56753002 / 10000000000"] by simp
  have "?q ^ 256 * ?q ^ 4 \<le> (56753002 / 10000000000) * (9223719250 / 10000000000)"
    using q256 q4 by (intro mult_mono) simp_all
  moreover have "?q ^ 2 * ?q ^ 1 \<le> (9604019601 / 10000000000) * (980001 / 1000000)"
    using q2 q1 by (intro mult_mono) simp_all
  ultimately have "?q ^ 256 * ?q ^ 4 * (?q ^ 2 * ?q ^ 1) \<le>
      ((56753002 / 10000000000) * (9223719250 / 10000000000)) * ((9604019601 / 10000000000) * (980001 / 1000000))" (is "_ \<le> ?b")
    by (rule mult_mono) simp_all
  also have "?b < 49999 / 10000000" by simp
  finally show ?thesis
    unfolding power_add [symmetric] by simp
qed

lemma cold_power: "50001 / 10000000 \<le> (979999 / 1000000 :: rat) ^ 262"
proof -
  let ?q = "979999 / 1000000 :: rat"
  have q1: "979999 / 1000000 \<le> ?q ^ 1" by simp
  have q2: "9603980400 / 10000000000 \<le> ?q ^ 2"
    by (simp add: power2_eq_square)
  have q4: "9223643952 / 10000000000 \<le> ?q ^ 4"
    using square_lower [OF q2, of "9223643952 / 10000000000"] by simp
  have q8: "8507560775 / 10000000000 \<le> ?q ^ 8"
    using square_lower [OF q4, of "8507560775 / 10000000000"] by simp
  have q16: "7237859034 / 10000000000 \<le> ?q ^ 16"
    using square_lower [OF q8, of "7237859034 / 10000000000"] by simp
  have q32: "5238660339 / 10000000000 \<le> ?q ^ 32"
    using square_lower [OF q16, of "5238660339 / 10000000000"] by simp
  have q64: "2744356214 / 10000000000 \<le> ?q ^ 64"
    using square_lower [OF q32, of "2744356214 / 10000000000"] by simp
  have q128: "753149102 / 10000000000 \<le> ?q ^ 128"
    using square_lower [OF q64, of "753149102 / 10000000000"] by simp
  have q256: "56723356 / 10000000000 \<le> ?q ^ 256"
    using square_lower [OF q128, of "56723356 / 10000000000"] by simp
  have "(56723356 / 10000000000) * (9223643952 / 10000000000) \<le> ?q ^ 256 * ?q ^ 4"
    using q256 q4 by (intro mult_mono) simp_all
  then have b: "((56723356 / 10000000000) * (9223643952 / 10000000000)) * (9603980400 / 10000000000)
      \<le> ?q ^ 256 * ?q ^ 4 * ?q ^ 2"
    using q2 by (rule mult_mono) simp_all
  have "(50001 / 10000000 :: rat) \<le> ((56723356 / 10000000000) * (9223643952 / 10000000000)) * (9603980400 / 10000000000)"
    by simp
  from order_trans [OF this b] show ?thesis
    unfolding power_add [symmetric] by simp
qed

lemma cool_pow_cold: "0 \<le> a \<Longrightarrow> a \<le> 1 \<Longrightarrow> (cool ^^ 263) a < ALPHA_MIN"
proof -
  assume "0 \<le> a" and "a \<le> 1"
  have "(cool ^^ 263) a \<le> a * (980001 / 1000000) ^ 263"
    using cool_pow_bounds [OF \<open>0 \<le> a\<close>] by blast
  also have "\<dots> \<le> 1 * (980001 / 1000000) ^ 263"
    using \<open>a \<le> 1\<close> by (intro mult_right_mono) simp_all
  also have "\<dots> < ALPHA_MIN"
    using hot_power alpha_min_bounds(2) by linarith
  finally show ?thesis .
qed

lemma cool_pow_hot: "n \<le> 262 \<Longrightarrow> ALPHA_MIN \<le> (cool ^^ n) 1"
proof -
  assume "n \<le> 262"
  have "ALPHA_MIN \<le> (979999 / 1000000) ^ 262"
    using cold_power alpha_min_bounds(1) by linarith
  also have "\<dots> \<le> (979999 / 1000000) ^ n"
    using \<open>n \<le> 262\<close> by (intro power_decreasing) simp_all
  also have "\<dots> \<le> (cool ^^ n) 1"
    using cool_pow_bounds [of 1 n] by simp
  finally show ?thesis .
qed

text \<open>Running the simulation with no interference.\<close>

fun run_ticks ::
  "(jsnum \<Rightarrow> jsnum) \<Rightarrow> jsnum \<Rightarrow> jsnum \<Rightarrow> nat \<Rightarrow> simulation \<times> heap \<Rightarrow> simulation \<times> heap" where
  "run_ticks msqrt cx cy 0 st = st"
| "run_ticks msqrt cx cy (Suc n) st =
     run_ticks msqrt cx cy n (case tick msqrt cx cy (fst st) (snd st) of (sim, h, _) \<Rightarrow> (sim, h))"

definition cool_once :: "jsnum \<Rightarrow> jsnum" where
  "cool_once a = (if a < ALPHA_MIN then a else cool a)"

lemma tick_alpha:
  "s_alpha (fst (case tick msqrt cx cy sim h of (sim', h', _) \<Rightarrow> (sim', h'))) = cool_once (s_alpha sim)"
  by (auto simp: cool_once_def cool_def split: prod.splits dest: tick_sim)

lemma run_ticks_alpha:
  "s_alpha (fst (run_ticks msqrt cx cy n st)) = (cool_once ^^ n) (s_alpha (fst st))"
  by (induction n arbitrary: st) (simp_all add: tick_alpha funpow_swap1)

lemma cool_once_le: "0 \<le> a \<Longrightarrow> cool_once a \<le> a \<and> 0 \<le> cool_once a"
  by (simp add: cool_once_def cool_le cool_nonneg)

lemma cool_once_pow_le: "0 \<le> a \<Longrightarrow> (cool_once ^^ n) a < ALPHA_MIN \<or> (cool_once ^^ n) a = (cool ^^ n) a"
  by (induction n) (auto simp: cool_once_def)

lemma cool_once_cold: "0 \<le> a \<Longrightarrow> a \<le> 1 \<Longrightarrow> (cool_once ^^ 263) a < ALPHA_MIN"
  using cool_once_pow_le [of a 263] cool_pow_cold [of a] by auto

lemma cool_once_stays_cold: "a < ALPHA_MIN \<Longrightarrow> (cool_once ^^ n) a = a"
  by (induction n) (simp_all add: cool_once_def)

lemma cool_once_pow_hot: "n \<le> 263 \<Longrightarrow> (cool_once ^^ n) 1 = (cool ^^ n) 1"
proof (induction n)
  case (Suc n)
  then have "(cool_once ^^ n) 1 = (cool ^^ n) 1" by simp
  moreover have "\<not> (cool ^^ n) 1 < ALPHA_MIN"
    using cool_pow_hot [of n] Suc.prems by simp
  ultimately show ?case by (simp add: cool_once_def [of "(cool ^^ n) 1"])
qed simp

lemma run_ticks_cold:
  "s_alpha (fst st) < ALPHA_MIN \<Longrightarrow> run_ticks msqrt cx cy n st = st"
  by (induction n) (simp_all add: tick_cold)

lemma run_ticks_add:
  "run_ticks msqrt cx cy (m + n) st = run_ticks msqrt cx cy n (run_ticks msqrt cx cy m st)"
  by (induction m arbitrary: st) simp_all

text \<open>
  C29. The layout comes to rest: from the temperature 1 that \<^verbatim>\<open>reheat\<close> sets, the simulation
  is still running after 262 ticks and cold after 263, whatever the graph and the square root
  are; from then on a tick changes nothing and reports no movement. The count is that of the
  binary64 products the code computes.
\<close>

theorem simulation_settles:
  assumes "s_alpha sim = 1"
  shows "ALPHA_MIN \<le> s_alpha (fst (run_ticks msqrt cx cy 262 (sim, h)))
    \<and> s_alpha (fst (run_ticks msqrt cx cy 263 (sim, h))) < ALPHA_MIN
    \<and> run_ticks msqrt cx cy (263 + n) (sim, h) = run_ticks msqrt cx cy 263 (sim, h)
    \<and> (case run_ticks msqrt cx cy 263 (sim, h) of (sim', h') \<Rightarrow> tick msqrt cx cy sim' h' = (sim', h', 0))"
proof -
  have cold: "s_alpha (fst (run_ticks msqrt cx cy 263 (sim, h))) < ALPHA_MIN"
    using cool_once_cold [of 1] by (simp only: run_ticks_alpha fst_conv assms)
  moreover have "ALPHA_MIN \<le> s_alpha (fst (run_ticks msqrt cx cy 262 (sim, h)))"
    using cool_once_pow_hot [of 262] cool_pow_hot [of 262]
    by (simp only: run_ticks_alpha fst_conv assms)
  ultimately show ?thesis
    by (simp only: run_ticks_add run_ticks_cold simp_thms) (auto simp: tick_cold split: prod.splits)
qed

theorem simulation_settles_witness:
  "s_alpha createSimulation = 1 \<and>
   s_alpha (fst (run_ticks (\<lambda>x. x) 400 250 263 (createSimulation, []))) < ALPHA_MIN"
proof -
  have h: "s_alpha createSimulation = 1" by (simp add: createSimulation_def)
  show ?thesis using h simulation_settles [OF h] by blast
qed

definition sample_sim :: simulation where
  "sample_sim = setGraph (b_nodes (buildGraph (\<lambda>_. 0) 0 sample_machines)) [0, 1, 2] [] createSimulation"

theorem tick_frame_witness:
  "\<exists>sim' h' shift. tick (\<lambda>x. x) 400 250 sample_sim (b_nodes (buildGraph (\<lambda>_. 0) 0 sample_machines)) = (sim', h', shift)
    \<and> s_nodes sim' = [0, 1, 2] \<and> 0 \<le> shift"
proof -
  let ?h = "b_nodes (buildGraph (\<lambda>_. 0) 0 sample_machines)"
  obtain sim' h' shift where t: "tick (\<lambda>x. x) 400 250 sample_sim ?h = (sim', h', shift)"
    by (metis prod_cases3)
  have n: "s_nodes sample_sim = [0, 1, 2]" by (simp add: sample_sim_def setGraph_def)
  have "length ?h = 4" by code_simp
  then have "distinct (s_nodes sample_sim)" "set (s_nodes sample_sim) \<subseteq> {..<length ?h}"
    by (simp_all add: n)
  from tick_frame [OF t this] t n show ?thesis by auto
qed

end
