(* ===== verification/Dom.thy ===== *)
theory Dom
  imports Utils
begin

text \<open>
  Rendered output: the tree of elements a component returns or the SVG code builds, with
  attributes as strings and event handlers as values of a type of actions. An element that
  renders to nothing (\<open>null\<close>, \<open>false\<close>) is the empty list of trees, a fragment is a list.
  A class name from a CSS module (\<^verbatim>\<open>styles.panel\<close>) is its local name, since the name the bundler
  generates is not part of the sources.
\<close>

datatype 'a dom =
    Text jsstr
  | Elem string "(string \<times> jsstr) list" "(string \<times> 'a) list" "'a dom list"

fun dom_tag :: "'a dom \<Rightarrow> string" where
  "dom_tag (Text s) = []"
| "dom_tag (Elem t as hs ds) = t"

fun dom_attr :: "string \<Rightarrow> 'a dom \<Rightarrow> jsstr option" where
  "dom_attr a (Text s) = None"
| "dom_attr a (Elem t as hs ds) = map_of as a"

fun dom_handler :: "string \<Rightarrow> 'a dom \<Rightarrow> 'a option" where
  "dom_handler e (Text s) = None"
| "dom_handler e (Elem t as hs ds) = map_of hs e"

fun dom_children :: "'a dom \<Rightarrow> 'a dom list" where
  "dom_children (Text s) = []"
| "dom_children (Elem t as hs ds) = ds"

text \<open>All elements of a tree, in document order.\<close>

fun dom_elems :: "'a dom \<Rightarrow> 'a dom list" where
  "dom_elems (Text s) = []"
| "dom_elems (Elem t as hs ds) = Elem t as hs ds # concat (map dom_elems ds)"

definition elems_of :: "'a dom list \<Rightarrow> 'a dom list" where
  "elems_of ds = concat (map dom_elems ds)"

definition with_tag :: "string \<Rightarrow> 'a dom list \<Rightarrow> 'a dom list" where
  "with_tag t ds = filter (\<lambda>d. dom_tag d = t) (elems_of ds)"

lemma elems_of_simps [simp]:
  "elems_of [] = []" "elems_of (d # ds) = dom_elems d @ elems_of ds"
  "elems_of (xs @ ys) = elems_of xs @ elems_of ys"
  by (simp_all add: elems_of_def)

lemma elems_of_concat: "elems_of (concat dss) = concat (map elems_of dss)"
  by (induction dss) simp_all

lemma with_tag_simps [simp]:
  "with_tag t [] = []" "with_tag t (xs @ ys) = with_tag t xs @ with_tag t ys"
  by (simp_all add: with_tag_def)

lemma with_tag_Text [simp]: "with_tag t (Text s # ds) = with_tag t ds"
  by (simp add: with_tag_def)

lemma with_tag_Elem [simp]:
  "with_tag t (Elem u as hs cs # ds) =
     (if u = t then [Elem u as hs cs] else []) @ with_tag t cs @ with_tag t ds"
  by (simp add: with_tag_def elems_of_def)

lemma with_tag_concat_map: "with_tag t (concat (map f xs)) = concat (map (\<lambda>x. with_tag t (f x)) xs)"
  by (induction xs) simp_all

lemma with_tag_map: "with_tag t (map f xs) = concat (map (\<lambda>x. with_tag t [f x]) xs)"
  by (induction xs) (simp_all add: with_tag_def)

text \<open>The text a tree shows.\<close>

fun dom_text :: "'a dom \<Rightarrow> jsstr" where
  "dom_text (Text s) = s"
| "dom_text (Elem t as hs ds) = concat (map dom_text ds)"

end
