(* ===== verification/Topology_View.thy ===== *)
theory Topology_View
  imports Simulation Dom
begin

text \<open>
  The component \<^verbatim>\<open>TopologyGraph\<close> of \<^verbatim>\<open>frontend/src/components/TopologyGraph.jsx\<close>: its state
  (\<^verbatim>\<open>stateRef\<close>, the closure variables of the pan gesture, the nodes of the store), the two
  effects that follow the props, the animation frame with the SVG rendering, and the pointer,
  wheel and button handlers.

  The environment of the component is \<open>gfx\<close>: the browser facilities of \<open>js_env\<close>, the square
  root and the random values. \<open>v_scene\<close> is the content the last \<^verbatim>\<open>svg.replaceChildren\<close> installed
  and \<open>v_drawn\<close> the node objects whose groups it holds; the handlers of a group refer to the
  object they were created for.
\<close>

section \<open>State\<close>

record gfx =
  gx_env :: js_env
  gx_sqrt :: "jsnum \<Rightarrow> jsnum"
  gx_random :: "nat \<Rightarrow> jsnum"

datatype svg_action = NodeClick addr | NodeKeyDown addr | NodePointerDown addr

record drag =
  dr_node :: addr
  dr_startX :: jsnum
  dr_startY :: jsnum
  dr_ox :: jsnum
  dr_oy :: jsnum
  dr_moved :: bool

record view =
  v_heap :: heap
  v_calls :: nat
  v_nodes :: "addr list"
  v_edges :: "gedge list"
  v_sim :: simulation
  v_dragging :: "drag option"
  v_zoom :: jsnum
  v_panX :: jsnum
  v_panY :: jsnum
  v_selectedKey :: "jsstr option"
  v_dirty :: bool
  v_stopped :: bool
  v_panning :: bool
  v_panStart :: "jsnum \<times> jsnum"
  v_panOrigin :: "jsnum \<times> jsnum"
  v_viewBox :: jsstr
  v_scene :: "svg_action dom list"
  v_drawn :: "addr list"

definition init_view :: view where
  "init_view =
     \<lparr>v_heap = [], v_calls = 0, v_nodes = [], v_edges = [], v_sim = createSimulation,
      v_dragging = None, v_zoom = 1, v_panX = 0, v_panY = 0, v_selectedKey = None, v_dirty = True,
      v_stopped = False, v_panning = False, v_panStart = (0, 0), v_panOrigin = (0, 0),
      v_viewBox = [], v_scene = [], v_drawn = []\<rparr>"

section \<open>Effects\<close>

definition selected_effect :: "jsstr option \<Rightarrow> view \<Rightarrow> view" where
  "selected_effect key v = v\<lparr>v_selectedKey := key, v_dirty := True\<rparr>"

definition keep_position :: "heap \<Rightarrow> addr list \<Rightarrow> gnode \<Rightarrow> gnode" where
  "keep_position h nodes n =
     (case by_key h nodes (g_key n) of
        None \<Rightarrow> n
      | Some a \<Rightarrow>
          n\<lparr>g_x := g_x (h ! a), g_y := g_y (h ! a), g_vx := g_vx (h ! a), g_vy := g_vy (h ! a)\<rparr>)"

definition topology_changed :: "heap \<Rightarrow> addr list \<Rightarrow> gnode list \<Rightarrow> bool" where
  "topology_changed h nodes fresh \<longleftrightarrow>
     length fresh \<noteq> length (remdups (map (\<lambda>a. g_key (h ! a)) nodes)) \<or>
     list_ex (\<lambda>n. by_key h nodes (g_key n) = None) fresh"

definition machines_effect :: "gfx \<Rightarrow> machine list \<Rightarrow> view \<Rightarrow> view" where
  "machines_effect g machines v =
     (let bg = buildGraph (gx_random g) (v_calls v) machines;
          fresh = map (keep_position (v_heap v) (v_nodes v)) (b_nodes bg);
          h = v_heap v @ fresh;
          nodes = [length (v_heap v) ..< length h];
          sim = setGraph h nodes (b_edges bg) (v_sim v)
      in v\<lparr>v_heap := h, v_calls := b_calls bg, v_nodes := nodes, v_edges := b_edges bg,
           v_sim := (if topology_changed (v_heap v) (v_nodes v) fresh then reheat sim else sim),
           v_dirty := True\<rparr>)"

section \<open>Rendering\<close>

definition svgEl :: "string \<Rightarrow> (string \<times> jsstr) list \<Rightarrow> svg_action dom list \<Rightarrow> svg_action dom" where
  "svgEl name attrs children = Elem name attrs [] children"

definition edge_color :: "gedge \<Rightarrow> jsstr" where
  "edge_color e =
     (if ge_direct e then
        (if ge_latency e \<noteq> None then latencyColor (ge_latency e) else js ''#1677ff'')
      else js ''#faad14'')"

definition render_marker :: "string \<Rightarrow> string \<Rightarrow> svg_action dom" where
  "render_marker i color =
     svgEl ''marker''
       [(''id'', js i), (''markerWidth'', js ''7''), (''markerHeight'', js ''7''), (''refX'', js ''6''),
        (''refY'', js ''3.5''), (''orient'', js ''auto'')]
       [svgEl ''polygon''
          [(''points'', js ''0 0, 7 3.5, 0 7''), (''fill'', js color), (''opacity'', js ''0.7'')] []]"

definition render_edge :: "js_env \<Rightarrow> heap \<Rightarrow> addr list \<Rightarrow> gedge \<Rightarrow> svg_action dom list" where
  "render_edge env h nodes e =
     (case (by_key h nodes (ge_source e), by_key h nodes (ge_target e)) of
        (Some s, Some t) \<Rightarrow>
          let source = h ! s; target = h ! t; color = edge_color e;
              mx = fdiv (fadd (g_x source) (g_x target)) 2;
              my = fdiv (fadd (g_y source) (g_y target)) 2
          in
          [svgEl ''line''
             ([(''x1'', num_str env (g_x source)), (''y1'', num_str env (g_y source)),
               (''x2'', num_str env (g_x target)), (''y2'', num_str env (g_y target)),
               (''stroke'', color), (''stroke-width'', if ge_direct e then js ''1.8'' else js ''1.5''),
               (''stroke-opacity'', js ''0.55''),
               (''marker-end'', js ''url(#'' @ (if ge_direct e then js ''arr-d'' else js ''arr-r'') @ js '')'')] @
              (if \<not> ge_direct e then [(''stroke-dasharray'', js ''6 4'')] else [])) []] @
          (if ge_latency e \<noteq> None then
             [svgEl ''rect''
                [(''x'', num_str env (fsub mx 22)), (''y'', num_str env (fsub my 9)), (''width'', js ''44''),
                 (''height'', js ''14''), (''rx'', js ''3''), (''fill'', js ''white''), (''fill-opacity'', js ''0.9'')] [],
              svgEl ''text''
                [(''x'', num_str env mx), (''y'', num_str env (fadd my 1)), (''text-anchor'', js ''middle''),
                 (''font-size'', js ''9''), (''fill'', color), (''font-weight'', js ''600''),
                 (''pointer-events'', js ''none'')]
                [Text (formatLatency env (ge_latency e))]]
           else [])
      | _ \<Rightarrow> [])"

definition node_radius :: "gnode \<Rightarrow> jsnum" where
  "node_radius n = (if g_type n = MachineNode then 13 else 9)"

definition node_fill :: "gnode \<Rightarrow> jsstr" where
  "node_fill n =
     (if g_active n = Some False then js ''#bfbfbf''
      else if g_type n = MachineNode then js ''#1677ff''
      else if g_latency n \<noteq> None then latencyColor (g_latency n)
      else js ''#40a9ff'')"

definition clip_label :: "jsstr \<Rightarrow> jsstr" where
  "clip_label l = (if length l > 18 then take 17 l @ [0x2026] else l)"

definition render_node :: "js_env \<Rightarrow> heap \<Rightarrow> jsstr option \<Rightarrow> addr \<Rightarrow> svg_action dom" where
  "render_node env h selectedKey a =
     (let n = h ! a; radius = node_radius n;
          cx = (''cx'', num_str env (g_x n)); cy = (''cy'', num_str env (g_y n));
          tx = (''x'', num_str env (fadd (fadd (g_x n) radius) 6))
      in Elem ''g''
           [(''cursor'', js ''pointer''), (''tabindex'', js ''0''), (''role'', js ''button''),
            (''aria-label'', g_label n)]
           [(''click'', NodeClick a), (''keydown'', NodeKeyDown a), (''pointerdown'', NodePointerDown a)]
           ([svgEl ''circle'' [cx, cy, (''r'', num_str env (radius + 8)), (''fill'', js ''transparent'')] []] @
            (if selectedKey = Some (g_key n) then
               [svgEl ''circle''
                  [cx, cy, (''r'', num_str env (radius + 5)), (''fill'', js ''none''), (''stroke'', js ''#1677ff''),
                   (''stroke-width'', js ''2.5''), (''stroke-opacity'', js ''.5'')] []]
             else []) @
            [svgEl ''circle''
               [cx, cy, (''r'', num_str env radius), (''fill'', node_fill n), (''stroke'', js ''white''),
                (''stroke-width'', js ''2''), (''filter'', js ''drop-shadow(0 1px 3px rgba(0,0,0,.18))'')] [],
             svgEl ''text''
               [tx, (''y'', num_str env (fsub (g_y n) 2)), (''font-size'', js ''11''), (''font-weight'', js ''600''),
                (''fill'', js ''#1f2937''), (''pointer-events'', js ''none'')]
               [Text (clip_label (g_label n))],
             svgEl ''text''
               [tx, (''y'', num_str env (fadd (g_y n) 10)), (''font-size'', js ''9''), (''fill'', js ''#8c8c8c''),
                (''pointer-events'', js ''none'')]
               [Text (g_sub n)]]))"

definition render_scene :: "js_env \<Rightarrow> view \<Rightarrow> svg_action dom" where
  "render_scene env v =
     svgEl ''g''
       [(''transform'', js ''translate('' @ num_str env (v_panX v) @ js '','' @ num_str env (v_panY v) @
          js '') scale('' @ num_str env (v_zoom v) @ js '')'')]
       (concat (map (render_edge env (v_heap v) (v_nodes v)) (v_edges v)) @
        map (render_node env (v_heap v) (v_selectedKey v)) (v_nodes v))"

text \<open>\<^verbatim>\<open>svg.clientWidth || 800\<close> and \<^verbatim>\<open>svg.clientHeight || 500\<close>\<close>

definition or_default :: "nat \<Rightarrow> nat \<Rightarrow> nat" where
  "or_default n d = (if n = 0 then d else n)"

definition render :: "js_env \<Rightarrow> nat \<Rightarrow> nat \<Rightarrow> view \<Rightarrow> view" where
  "render env clientWidth clientHeight v =
     v\<lparr>v_viewBox := js ''0 0 '' @ nat_str (or_default clientWidth 800) @ js '' '' @
         nat_str (or_default clientHeight 500),
       v_scene :=
         [svgEl ''defs'' [] [render_marker ''arr-d'' ''#1677ff'', render_marker ''arr-r'' ''#faad14''],
          render_scene env v],
       v_drawn := v_nodes v\<rparr>"

definition frame :: "gfx \<Rightarrow> nat \<Rightarrow> nat \<Rightarrow> view \<Rightarrow> view" where
  "frame g clientWidth clientHeight v =
     (if v_stopped v then v
      else
        let width = of_nat (or_default clientWidth 800);
            height = of_nat (or_default clientHeight 500);
            (sim, h, shift) = tick (gx_sqrt g) (fdiv width 2) (fdiv height 2) (v_sim v) (v_heap v);
            v1 = v\<lparr>v_sim := sim, v_heap := h\<rparr>
        in if shift > SETTLE_EPSILON \<or> v_dirty v1
           then render (gx_env g) clientWidth clientHeight (v1\<lparr>v_dirty := False\<rparr>) else v1)"

definition unmount :: "view \<Rightarrow> view" where
  "unmount v = v\<lparr>v_stopped := True\<rparr>"

section \<open>Handlers\<close>

definition clamp_zoom :: "jsnum \<Rightarrow> jsnum" where
  "clamp_zoom z = max (rnd (1 / 5)) (min 4 z)"

definition onWheel :: "jsnum \<Rightarrow> view \<Rightarrow> view" where
  "onWheel deltaY v =
     v\<lparr>v_zoom := clamp_zoom (fmul (v_zoom v) (if deltaY < 0 then rnd (11 / 10) else rnd (91 / 100))),
       v_dirty := True\<rparr>"

definition onPointerDown :: "jsnum \<Rightarrow> jsnum \<Rightarrow> view \<Rightarrow> view" where
  "onPointerDown x y v =
     (if v_dragging v \<noteq> None then v
      else v\<lparr>v_panning := True, v_panStart := (x, y), v_panOrigin := (v_panX v, v_panY v)\<rparr>)"

definition onPointerMove :: "jsnum \<Rightarrow> jsnum \<Rightarrow> view \<Rightarrow> view" where
  "onPointerMove x y v =
     (case v_dragging v of
        Some d \<Rightarrow>
          v\<lparr>v_heap := (v_heap v)[dr_node d := (v_heap v ! dr_node d)
                \<lparr>g_x := fadd (dr_ox d) (fdiv (fsub x (dr_startX d)) (v_zoom v)),
                 g_y := fadd (dr_oy d) (fdiv (fsub y (dr_startY d)) (v_zoom v)),
                 g_vx := 0, g_vy := 0\<rparr>],
            v_dragging := Some (d\<lparr>dr_moved := True\<rparr>), v_dirty := True\<rparr>
      | None \<Rightarrow>
          if \<not> v_panning v then v
          else v\<lparr>v_panX := fadd (fst (v_panOrigin v)) (fsub x (fst (v_panStart v))),
                 v_panY := fadd (snd (v_panOrigin v)) (fsub y (snd (v_panStart v))), v_dirty := True\<rparr>)"

definition onPointerUp :: "view \<Rightarrow> view" where
  "onPointerUp v =
     (let v1 = v\<lparr>v_panning := False\<rparr> in
      case v_dragging v1 of
        None \<Rightarrow> v1
      | Some d \<Rightarrow>
          v1\<lparr>v_heap := (v_heap v1)[dr_node d := (v_heap v1 ! dr_node d)\<lparr>g_fixed := False\<rparr>],
             v_sim := (if dr_moved d then reheat (v_sim v1) else v_sim v1),
             v_dragging := None\<rparr>)"

definition node_pointerdown :: "addr \<Rightarrow> jsnum \<Rightarrow> jsnum \<Rightarrow> view \<Rightarrow> view" where
  "node_pointerdown a x y v =
     v\<lparr>v_heap := (v_heap v)[a := (v_heap v ! a)\<lparr>g_fixed := True\<rparr>],
       v_dragging := Some \<lparr>dr_node = a, dr_startX = x, dr_startY = y, dr_ox = g_x (v_heap v ! a),
         dr_oy = g_y (v_heap v ! a), dr_moved = False\<rparr>\<rparr>"

text \<open>The key a click, or Enter or Space on a focused group, hands to \<^verbatim>\<open>onSelect\<close>.\<close>

definition node_click :: "addr \<Rightarrow> view \<Rightarrow> jsstr" where
  "node_click a v = g_key (v_heap v ! a)"

definition node_keydown :: "jsstr \<Rightarrow> addr \<Rightarrow> view \<Rightarrow> jsstr option" where
  "node_keydown key a v =
     (if key = js ''Enter'' \<or> key = js '' '' then Some (g_key (v_heap v ! a)) else None)"

definition applyZoom :: "jsnum \<Rightarrow> view \<Rightarrow> view" where
  "applyZoom factor v = v\<lparr>v_zoom := clamp_zoom (fmul (v_zoom v) factor), v_dirty := True\<rparr>"

definition resetView :: "view \<Rightarrow> view" where
  "resetView v =
     v\<lparr>v_zoom := 1, v_panX := 0, v_panY := 0, v_sim := reheat (v_sim v), v_dirty := True\<rparr>"

text \<open>The element the component returns; the SVG's children are the scene.\<close>

datatype control = ZoomIn | ZoomOut | ResetView

fun run_control :: "control \<Rightarrow> view \<Rightarrow> view" where
  "run_control ZoomIn = applyZoom (rnd (12 / 10))"
| "run_control ZoomOut = applyZoom (rnd (83 / 100))"
| "run_control ResetView = resetView"

definition TopologyGraph :: "machine list \<Rightarrow> control dom" where
  "TopologyGraph machines =
     Elem ''div'' [(''className'', js ''wrap'')] []
       ((if machines = [] then
           [Elem ''div'' [(''className'', js ''empty'')] []
              [Elem ''strong'' [] [] [Text [0x6682, 0x65E0, 0x62D3, 0x6251, 0x6570, 0x636E]],
               Elem ''span'' [] []
                 [Text ([0x63A5, 0x5165] @ js '' EasyTier '' @
                    [0x5BA2, 0x6237, 0x7AEF, 0x6216, 0x8C03, 0x6574, 0x7B5B, 0x9009, 0x6761, 0x4EF6])]]]
         else []) @
        [Elem ''svg'' [(''className'', js ''svg''), (''role'', js ''img''),
            (''aria-label'', js ''NexusTier '' @ [0x62D3, 0x6251, 0x56FE])] [] [],
         Elem ''div'' [(''className'', js ''controls'')] []
           [Elem ''button'' [(''className'', js ''ctrlBtn''), (''title'', [0x653E, 0x5927]),
               (''aria-label'', [0x653E, 0x5927])]
              [(''onClick'', ZoomIn)] [Text [0xFF0B]],
            Elem ''button'' [(''className'', js ''ctrlBtn''), (''title'', [0x7F29, 0x5C0F]),
               (''aria-label'', [0x7F29, 0x5C0F])]
              [(''onClick'', ZoomOut)] [Text [0xFF0D]],
            Elem ''button'' [(''className'', js ''ctrlBtn''), (''title'', [0x8FD8, 0x539F, 0x89C6, 0x56FE]),
               (''aria-label'', [0x8FD8, 0x539F, 0x89C6, 0x56FE])]
              [(''onClick'', ResetView)] [Text [0x2299]]],
         Elem ''div'' [(''className'', js ''hint'')] []
           [Text ([0x6EDA, 0x8F6E, 0x7F29, 0x653E] @ js '' '' @ [0xB7] @ js '' '' @
              [0x62D6, 0x62FD, 0x5E73, 0x79FB] @ js '' '' @ [0xB7] @ js '' '' @
              [0x70B9, 0x51FB, 0x8282, 0x70B9, 0x67E5, 0x770B, 0x8BE6, 0x60C5])]])"

end
