(* ===== verification/Views.thy ===== *)
theory Views
  imports Use_Topology Topology_View
begin

text \<open>
  The presentational components of the console: \<^verbatim>\<open>Header.jsx\<close>, \<^verbatim>\<open>StatCard.jsx\<close>, \<^verbatim>\<open>Toolbar.jsx\<close>,
  \<^verbatim>\<open>MachineTable.jsx\<close> and \<^verbatim>\<open>DetailsPanel.jsx\<close>. Each is a function from its props to the tree it
  renders; a callback prop is the \<open>ui_action\<close> it stands for in \<^verbatim>\<open>App.jsx\<close>. A \<^verbatim>\<open>key\<close> of a list
  element is not part of the output and is left out.
\<close>

datatype ui_action =
    DoSearch
  | DoFilter
  | DoInterval
  | DoRefresh
  | DoSelect jsstr
  | DoLoadMore
  | DoGraph control

type_synonym ui = "ui_action dom"

abbreviation cls :: "string \<Rightarrow> (string \<times> jsstr) list" where
  "cls c \<equiv> [(''className'', js c)]"

section \<open>Header\<close>

fun STATUS :: "conn_status \<Rightarrow> jsstr \<times> string" where
  "STATUS Connecting = ([0x8FDE, 0x63A5, 0x4E2D], ''connecting'')"
| "STATUS Online = ([0x8FD0, 0x884C, 0x6B63, 0x5E38], ''online'')"
| "STATUS Offline = ([0x8FDE, 0x63A5, 0x5931, 0x8D25], ''offline'')"

definition shortCommit :: "build_info option \<Rightarrow> jsstr option" where
  "shortCommit build =
     (case build of
        None \<Rightarrow> None
      | Some b \<Rightarrow> if truthy_str (bi_commit b) \<and> bi_commit b \<noteq> Some (js ''unknown'')
                  then Some (take 7 (the (bi_commit b))) else None)"

definition Header :: "js_env \<Rightarrow> conn_status \<Rightarrow> int option \<Rightarrow> build_info option \<Rightarrow> ui" where
  "Header env status updatedAt build =
     (let s = STATUS status in
      Elem ''header'' (cls ''header'') []
        [Elem ''div'' (cls ''left'') []
           [Elem ''div'' (cls ''logo'') []
              [Elem ''span'' (cls ''logoMark'') [] [Text (js ''N'')],
               Elem ''span'' (cls ''logoName'') [] [Text (js ''NexusTier'')]],
            Elem ''nav'' (cls ''nav'') []
              [Elem ''span'' (cls ''navItem active'') [] [Text [0x62D3, 0x6251, 0x6982, 0x89C8]],
               Elem ''span'' (cls ''navItem'') [] [Text [0x8282, 0x70B9, 0x7BA1, 0x7406]],
               Elem ''span'' (cls ''navItem'') [] [Text [0x7F51, 0x7EDC, 0x72B6, 0x6001]]]],
         Elem ''div'' (cls ''right'') []
           ((case (shortCommit build, build) of
               (Some c, Some b) \<Rightarrow>
                 [Elem ''span'' (cls ''build'' @ [(''title'', ([0x7248, 0x672C] @ js '' '') @ bi_version b @ (js '' '' @ [0xB7] @ js '' '' @ [0x6784, 0x5EFA, 0x4E8E] @ js '' '') @ bi_built_at b)]) []
                    [Text c]]
             | _ \<Rightarrow> []) @
            (case updatedAt of
               None \<Rightarrow> []
             | Some t \<Rightarrow> [Elem ''span'' (cls ''time'') [] [Text [0x6700, 0x540E, 0x66F4, 0x65B0, 0xFF1A], Text (time_format env t)]]) @
            [Elem ''div'' (cls (''badge '' @ snd s)) [] [Elem ''i'' (cls ''dot'') [] [], Text (fst s)],
             Elem ''form'' [(''method'', js ''post''), (''action'', js ''/logout'')] []
               [Elem ''button'' ((''type'', js ''submit'') # cls ''logout'') [] [Text [0x9000, 0x51FA]]]])])"

section \<open>StatCard\<close>

definition StatCard :: "jsstr \<Rightarrow> jsstr option \<Rightarrow> jsstr option \<Rightarrow> string option \<Rightarrow> 'a dom" where
  "StatCard label value sub color =
     Elem ''div'' (cls (''card '' @ (case color of None \<Rightarrow> [] | Some c \<Rightarrow> c))) []
       ([Elem ''span'' (cls ''label'') [] [Text label],
         Elem ''strong'' (cls ''value'') [] [Text (case value of None \<Rightarrow> dash | Some v \<Rightarrow> v)]] @
        (if truthy_str sub then [Elem ''small'' (cls ''sub'') [] [Text (the sub)]] else []))"

section \<open>Toolbar\<close>

definition option_el :: "jsstr \<Rightarrow> jsstr \<Rightarrow> 'a dom" where
  "option_el value label = Elem ''option'' [(''value'', value)] [] [Text label]"

definition Toolbar :: "jsstr \<Rightarrow> nat \<Rightarrow> bool \<Rightarrow> jsstr \<Rightarrow> ui" where
  "Toolbar activeFilter interval loading search =
     Elem ''div'' (cls ''toolbar'') []
       [Elem ''label'' (cls ''field'') []
          [Elem ''span'' [] [] [Text [0x641C, 0x7D22]],
           Elem ''input''
             ([(''type'', js ''search''), (''value'', search), (''placeholder'', ([0x4E3B, 0x673A, 0x540D, 0x3001, 0x8282, 0x70B9] @ js '' ID'' @ [0x3001] @ js ''IP '' @ [0x5730, 0x5740, 0x2026]))] @ cls ''input'')
             [(''onChange'', DoSearch)] []],
        Elem ''label'' (cls ''field'') []
          [Elem ''span'' [] [] [Text [0x72B6, 0x6001]],
           Elem ''select'' ((''value'', activeFilter) # cls ''select'') [(''onChange'', DoFilter)]
             [option_el (js ''true'') [0x6D3B, 0x8DC3, 0x8282, 0x70B9], option_el [] [0x5168, 0x90E8, 0x8282, 0x70B9], option_el (js ''false'') [0x975E, 0x6D3B, 0x8DC3]]],
        Elem ''label'' (cls ''field'') []
          [Elem ''span'' [] [] [Text [0x5237, 0x65B0]],
           Elem ''select'' ((''value'', nat_str interval) # cls ''select'') [(''onChange'', DoInterval)]
             [option_el (nat_str 5000) (js ''5 '' @ [0x79D2]), option_el (nat_str 15000) (js ''15 '' @ [0x79D2]),
              option_el (nat_str 30000) (js ''30 '' @ [0x79D2]), option_el (nat_str 0) [0x624B, 0x52A8]]],
        Elem ''button'' (cls ''btn'' @ (if loading then [(''disabled'', [])] else [])) [(''onClick'', DoRefresh)]
          [Text (if loading then [0x5237, 0x65B0, 0x4E2D, 0x2026] else [0x7ACB, 0x5373, 0x5237, 0x65B0])]]"

section \<open>MachineTable\<close>

definition active_badge :: "bool \<Rightarrow> 'a dom" where
  "active_badge active =
     Elem ''span'' (cls (''badge '' @ (if active then ''active'' else ''inactive''))) []
       [Text (if active then [0x6D3B, 0x8DC3] else [0x975E, 0x6D3B, 0x8DC3])]"

definition machine_row :: "js_env \<Rightarrow> jsstr option \<Rightarrow> machine \<Rightarrow> ui" where
  "machine_row env selectedKey m =
     (let instances = instances_of m;
          peers = foldl (\<lambda>s i. s + length (peers_of i)) 0 instances;
          key = machine_key m
      in Elem ''tr'' (if selectedKey = Some key then cls ''selected'' else []) [(''onClick'', DoSelect key)]
           [Elem ''td'' [] []
              [Elem ''div'' (cls ''machineName'') []
                 [Elem ''strong'' [] [] [Text (or_str (m_hostname m) [0x672A, 0x547D, 0x540D])],
                  Elem ''small'' [] [] [Text (shortID (Some (m_machine_id m)))]]],
            Elem ''td'' [] [] [active_badge (m_active m)],
            Elem ''td'' [] [] [Text (nat_str (length instances))],
            Elem ''td'' [] [] [Text (nat_str peers)],
            Elem ''td'' [] []
              [Text (if truthy_str (m_last_observed_at m)
                     then relativeTime env (Some (new_date env (the (m_last_observed_at m)))) else dash)],
            Elem ''td'' [] [] [Text (or_str (m_easytier_version m) dash)]])"

definition MachineTable :: "js_env \<Rightarrow> machine list \<Rightarrow> jsstr option \<Rightarrow> bool \<Rightarrow> ui" where
  "MachineTable env machines selectedKey hasMore =
     Elem ''section'' (cls ''section'') []
       ([Elem ''div'' (cls ''heading'') []
           [Elem ''div'' [] []
              [Elem ''p'' (cls ''eyebrow'') [] [Text [0x6301, 0x4E45, 0x5316, 0x5F53, 0x524D, 0x72B6, 0x6001]],
               Elem ''h2'' (cls ''title'') [] [Text [0x8282, 0x70B9, 0x6E05, 0x5355]]],
            Elem ''span'' (cls ''count'') [] [Text (nat_str (length machines)), Text (js '' '' @ [0x6761, 0x8BB0, 0x5F55])]],
         Elem ''div'' (cls ''tableWrap'') []
           [Elem ''table'' (cls ''table'') []
              [Elem ''thead'' [] []
                 [Elem ''tr'' [] []
                    (map (\<lambda>h. Elem ''th'' [] [] [Text h])
                      [[0x8282, 0x70B9, 0x540D, 0x79F0], [0x72B6, 0x6001], [0x5B9E, 0x4F8B, 0x6570], (js ''Peer '' @ [0x6570]), [0x6700, 0x8FD1, 0x89C2, 0x6D4B], [0x7248, 0x672C]])],
               Elem ''tbody'' [] []
                 (map (machine_row env selectedKey) machines @
                  (if length machines = 0 then
                     [Elem ''tr'' [] []
                        [Elem ''td'' ((''colSpan'', js ''6'') # cls ''empty'') [] [Text [0x5F53, 0x524D, 0x7B5B, 0x9009, 0x6761, 0x4EF6, 0x4E0B, 0x65E0, 0x8282, 0x70B9, 0x6570, 0x636E]]]]
                   else []))]]] @
        (if hasMore then [Elem ''button'' (cls ''loadMore'') [(''onClick'', DoLoadMore)] [Text [0x52A0, 0x8F7D, 0x66F4, 0x591A]]] else []))"

section \<open>DetailsPanel\<close>

definition Row :: "jsstr \<Rightarrow> jsstr option \<Rightarrow> 'a dom list" where
  "Row label value =
     (if value = None \<or> value = Some [] then []
      else [Elem ''dt'' (cls ''dt'') [] [Text label], Elem ''dd'' (cls ''dd'') [] [Text (the value)]])"

definition Tags :: "jsstr list option \<Rightarrow> 'a dom list" where
  "Tags tags =
     (if length (or_empty tags) = 0 then []
      else [Elem ''div'' (cls ''tags'') [] (map (\<lambda>t. Elem ''span'' (cls ''tag'') [] [Text t]) (or_empty tags))])"

definition IssueList :: "collection_error list \<Rightarrow> 'a dom" where
  "IssueList errors =
     (if length errors = 0 then Elem ''p'' (cls ''healthy'') [] [Text [0x65E0, 0x91C7, 0x96C6, 0x9519, 0x8BEF]]
      else Elem ''div'' (cls ''issues'') []
        (map (\<lambda>e. Elem ''article'' (cls ''issue'') []
           [Elem ''strong'' [] [] [Text (e_code e)],
            Elem ''span'' [] [] [Text (e_operation e), Text (js '' '' @ [0xB7] @ js '' ''), Text (e_message e)]]) errors))"

definition panel :: "jsstr \<Rightarrow> jsstr \<Rightarrow> 'a dom list \<Rightarrow> 'a dom list \<Rightarrow> 'a dom" where
  "panel eyebrow title badge body =
     Elem ''aside'' (cls ''panel'') []
       [Elem ''div'' (cls ''header'') []
          ([Elem ''p'' (cls ''eyebrow'') [] [Text eyebrow], Elem ''h2'' (cls ''title'') [] [Text title]] @ badge),
        Elem ''div'' (cls ''body'') [] body]"

definition relative_or_null :: "js_env \<Rightarrow> jsstr option \<Rightarrow> jsstr option" where
  "relative_or_null env t =
     (if truthy_str t then Some (relativeTime env (Some (new_date env (the t)))) else None)"

definition collection_panel :: "js_env \<Rightarrow> collection_summary option \<Rightarrow> collection_error list \<Rightarrow> 'a dom" where
  "collection_panel env latestCollection latestErrors =
     panel [0x5F53, 0x524D, 0x91C7, 0x96C6] ([0x6700, 0x65B0] @ js '' Collection'') []
       (case latestCollection of
          None \<Rightarrow> [Elem ''p'' (cls ''placeholder'') [] [Text [0x7B49, 0x5F85, 0x63A7, 0x5236, 0x5668, 0x5B8C, 0x6210, 0x9996, 0x6B21, 0x91C7, 0x96C6, 0x2026]]]
        | Some c \<Rightarrow>
            [Elem ''dl'' (cls ''grid'') []
               (Row ([0x91C7, 0x96C6] @ js '' ID'') (Some (shortID (c_collection_id c))) @
                Row [0x72B6, 0x6001] (Some (if c_status c = js ''complete'' then [0x5B8C, 0x6574]
                   else if c_status c = js ''partial'' then [0x90E8, 0x5206, 0x6210, 0x529F] else c_status c)) @
                Row [0x8282, 0x70B9, 0x6570] (Some (nat_str (c_machine_count c))) @
                Row [0x9519, 0x8BEF, 0x6570] (Some (nat_str (c_error_count c))) @
                Row [0x5B8C, 0x6210, 0x65F6, 0x95F4] (Some (formatDate env (Some (new_date env (c_completed_at c))))) @
                Row [0x5165, 0x5E93, 0x65F6, 0x95F4] (Some (formatDate env (Some (new_date env (c_ingested_at c)))))),
             IssueList (take 6 latestErrors)])"

definition machine_panel :: "js_env \<Rightarrow> machine \<Rightarrow> 'a dom" where
  "machine_panel env m =
     panel [0x8282, 0x70B9, 0x8BE6, 0x60C5] (or_str (m_hostname m) [0x672A, 0x547D, 0x540D, 0x8282, 0x70B9]) [active_badge (m_active m)]
       ([Elem ''dl'' (cls ''grid'') []
           (Row (js ''Machine ID'') (Some (m_machine_id m)) @
            Row [0x8FDC, 0x7AEF, 0x5730, 0x5740] (m_remote_url m) @
            Row (js ''EasyTier'') (m_easytier_version m) @
            Row [0x64CD, 0x4F5C, 0x7CFB, 0x7EDF] (Some (deviceLabel (m_device m))) @
            Row [0x5B9E, 0x4F8B, 0x6570] (Some (nat_str (length (instances_of m)))) @
            Row [0x6700, 0x8FD1, 0x5FC3, 0x8DF3] (relative_or_null env (m_last_heartbeat_at m)) @
            Row [0x6700, 0x8FD1, 0x89C2, 0x6D4B] (relative_or_null env (m_last_observed_at m)))] @
        Tags (Some (map (\<lambda>i. shortID (Some (i_instance_id i))) (instances_of m))))"

definition peer_panel :: "js_env \<Rightarrow> peer \<Rightarrow> 'a dom" where
  "peer_panel env p =
     panel (js ''Peer '' @ [0x8BE6, 0x60C5]) (or_str (p_hostname p) ((js ''Peer '') @ nat_str (p_peer_id p)))
       [Elem ''span'' (cls (''badge '' @ (if p_direct p then ''direct'' else ''relayed''))) []
          [Text (if p_direct p then [0x76F4, 0x8FDE] else [0x4E2D, 0x7EE7])]]
       ([Elem ''dl'' (cls ''grid'') []
           (Row (js ''Peer ID'') (Some (nat_str (p_peer_id p))) @
            Row (js ''IPv4'') (p_ipv4 p) @
            Row [0x5EF6, 0x8FDF] (Some (formatLatency env (p_latency_ms p))) @
            Row [0x4E22, 0x5305, 0x7387] (Some (formatLoss env (p_loss_rate p))) @
            Row [0x63A5, 0x6536] (Some (formatBytes env (p_rx_bytes p))) @
            Row [0x53D1, 0x9001] (Some (formatBytes env (p_tx_bytes p))) @
            Row [0x8DEF, 0x5F84, 0x4EE3, 0x4EF7] (Some (int_str (p_path_cost p))) @
            Row [0x4E0B, 0x4E00, 0x8DF3] (Some (nat_str (p_next_hop_peer_id p))) @
            Row [0x6700, 0x8FD1, 0x89C2, 0x6D4B] (relative_or_null env (p_last_observed_at p)))] @
        Tags (p_tunnel_protocols p))"

definition DetailsPanel ::
  "js_env \<Rightarrow> selection option \<Rightarrow> collection_summary option \<Rightarrow> collection_error list \<Rightarrow> 'a dom" where
  "DetailsPanel env selected latestCollection latestErrors =
     (case selected of
        None \<Rightarrow> collection_panel env latestCollection latestErrors
      | Some (SelMachine k m) \<Rightarrow> machine_panel env m
      | Some (SelPeer k p i m) \<Rightarrow> peer_panel env p)"

section \<open>The machine table\<close>

lemma foldl_sum_length: "foldl (\<lambda>s i. s + length (f i)) n xs = n + length (concat (map f xs))"
  by (induction xs arbitrary: n) simp_all

definition shows_machine :: "jsstr option \<Rightarrow> ui \<Rightarrow> machine \<Rightarrow> bool" where
  "shows_machine selectedKey row m \<longleftrightarrow>
     dom_handler ''onClick'' row = Some (DoSelect (machine_key m)) \<and>
     dom_attr ''className'' row = (if selectedKey = Some (machine_key m) then Some (js ''selected'') else None) \<and>
     length (dom_children row) = 6 \<and>
     dom_text (dom_children row ! 2) = nat_str (length (instances_of m)) \<and>
     dom_text (dom_children row ! 3) = nat_str (length (concat (map peers_of (instances_of m))))"

lemma machine_row_shows: "shows_machine selectedKey (machine_row env selectedKey m) m"
  by (simp add: shows_machine_def machine_row_def Let_def foldl_sum_length numeral_2_eq_2 numeral_3_eq_3)

lemma machine_row_tags:
  "with_tag ''tr'' [machine_row env k m] = [machine_row env k m]"
  "with_tag ''button'' [machine_row env k m] = []"
  by (simp_all add: machine_row_def Let_def active_badge_def)

lemma with_tag_machine_rows:
  "with_tag ''tr'' (map (machine_row env k) ms) = map (machine_row env k) ms"
  "with_tag ''button'' (map (machine_row env k) ms) = []"
  by (simp_all add: with_tag_map machine_row_tags)

text \<open>
  The table lists the machines. Its rows after the header are one row per machine, in order;
  a click on a row selects that machine's key, the row is highlighted exactly when that key is
  selected, and it shows the numbers of the machine's instances and of all their peers. With
  no machine there is a single notice row instead. The button for more rows is there exactly
  when more rows exist.
\<close>

theorem machine_table_rows:
  "(machines \<noteq> [] \<longrightarrow>
      list_all2 (shows_machine selectedKey) (tl (with_tag ''tr'' [MachineTable env machines selectedKey hasMore])) machines) \<and>
   (machines = [] \<longrightarrow>
      (\<exists>row. tl (with_tag ''tr'' [MachineTable env machines selectedKey hasMore]) = [row] \<and> dom_handler ''onClick'' row = None)) \<and>
   map (dom_handler ''onClick'') (with_tag ''button'' [MachineTable env machines selectedKey hasMore]) =
     (if hasMore then [Some DoLoadMore] else [])"
proof -
  have "list_all2 (shows_machine selectedKey) (map (machine_row env selectedKey) machines) machines"
    by (simp add: list_all2_map1 list_all2_same machine_row_shows)
  then show ?thesis
    by (auto simp: MachineTable_def with_tag_machine_rows)
qed

theorem machine_table_rows_witness:
  "list_all2 (shows_machine (Some (js ''m:b2'')))
     (tl (with_tag ''tr'' [MachineTable sample_env sample_machines (Some (js ''m:b2'')) True])) sample_machines"
  using machine_table_rows [of sample_machines "Some (js ''m:b2'')" sample_env True]
  by (simp add: sample_machines_def del: js_Cons)

section \<open>The details panel\<close>

lemma with_tag_Row:
  "with_tag ''dd'' (Row l v) = (if truthy_str v then [Elem ''dd'' (cls ''dd'') [] [Text (the v)]] else [])"
  "with_tag ''article'' (Row l v) = []"
  by (cases v; simp add: Row_def)+

lemma with_tag_map_Nil: "(\<And>x. with_tag t [f x] = []) \<Longrightarrow> with_tag t (map f xs) = []"
  by (simp add: with_tag_map)

lemma with_tag_Tags: "t \<noteq> ''div'' \<Longrightarrow> t \<noteq> ''span'' \<Longrightarrow> with_tag t (Tags ts) = []"
  by (simp add: Tags_def with_tag_map_Nil)

lemma with_tag_IssueList:
  "with_tag ''dd'' [IssueList es] = []" "length (with_tag ''article'' [IssueList es]) = length es"
proof -
  show "with_tag ''dd'' [IssueList es] = []"
    by (simp add: IssueList_def with_tag_map_Nil)
  show "length (with_tag ''article'' [IssueList es]) = length es"
    by (induction es) (auto simp: IssueList_def with_tag_map)
qed

text \<open>
  The details panel never shows a field without a value: whatever is selected, every value
  cell has text, since a missing or empty value drops its row. Collection errors appear only
  when nothing is selected and a collection exists, and then the first six of them at most.
\<close>

theorem details_panel_values:
  "(\<forall>d\<in>set (with_tag ''dd'' [DetailsPanel env selected latest errors]). dom_text d \<noteq> []) \<and>
   length (with_tag ''article'' [DetailsPanel env selected latest errors]) =
     (if selected = None \<and> latest \<noteq> None then min 6 (length errors) else 0)"
proof (cases selected)
  case None
  then show ?thesis
    by (cases latest) (auto simp: DetailsPanel_def collection_panel_def panel_def with_tag_Row
        with_tag_IssueList truthy_str_def split: option.splits)
next
  case (Some sel)
  then show ?thesis
    by (cases sel) (auto simp: DetailsPanel_def machine_panel_def peer_panel_def panel_def with_tag_Row
        with_tag_Tags active_badge_def truthy_str_def split: option.splits)
qed

theorem details_panel_values_witness:
  "\<exists>d. d \<in> set (with_tag ''dd'' [DetailsPanel sample_env (Some (SelPeer [] (sample_peer 7) (sample_instance [] []) (sample_machine [] []))) None []]) \<and>
     dom_text d \<noteq> []"
proof -
  let ?p = "DetailsPanel sample_env (Some (SelPeer [] (sample_peer 7) (sample_instance [] []) (sample_machine [] []))) None []"
  have "Elem ''dd'' (cls ''dd'') [] [Text (nat_str 7)] \<in> set (with_tag ''dd'' [?p])"
    by (simp add: DetailsPanel_def peer_panel_def panel_def with_tag_Row sample_peer_def)
  with details_panel_values [of sample_env "Some (SelPeer [] (sample_peer 7) (sample_instance [] []) (sample_machine [] []))" None "[]"]
  show ?thesis by blast
qed

end
