(* ===== verification/Topology_Gestures.thy ===== *)
theory Topology_Gestures
  imports Topology_View Event_System
begin

text \<open>
  The topology view as a reactive component: its events, what the browser can deliver, the
  invariant that holds in every reachable state, and what follows for refreshes, the animation
  loop, clicks and drags.
\<close>

section \<open>Events\<close>

datatype view_event =
    SelectedChanged "jsstr option"
  | MachinesChanged "machine list"
  | Frame nat nat
  | Wheel jsnum
  | PointerDown jsnum jsnum
  | PointerMove jsnum jsnum
  | PointerUp
  | NodeDown addr jsnum jsnum
  | Control control
  | Unmount

text \<open>
  \<open>PointerUp\<close> is both \<^verbatim>\<open>pointerup\<close> and \<^verbatim>\<open>pointercancel\<close>. A pointer press on a node group runs the
  group's handler only, which stops the propagation; a group exists for every drawn object.
\<close>

fun view_exec :: "gfx \<Rightarrow> view_event \<Rightarrow> view \<Rightarrow> view" where
  "view_exec g (SelectedChanged k) v = selected_effect k v"
| "view_exec g (MachinesChanged ms) v = machines_effect g ms v"
| "view_exec g (Frame w h) v = frame g w h v"
| "view_exec g (Wheel d) v = onWheel d v"
| "view_exec g (PointerDown x y) v = onPointerDown x y v"
| "view_exec g (PointerMove x y) v = onPointerMove x y v"
| "view_exec g PointerUp v = onPointerUp v"
| "view_exec g (NodeDown a x y) v = node_pointerdown a x y v"
| "view_exec g (Control c) v = run_control c v"
| "view_exec g Unmount v = unmount v"

fun view_enabled :: "view_event \<Rightarrow> view \<Rightarrow> bool" where
  "view_enabled (NodeDown a x y) v \<longleftrightarrow> \<not> v_stopped v \<and> a \<in> set (v_drawn v)"
| "view_enabled _ v \<longleftrightarrow> \<not> v_stopped v"

section \<open>Invariant\<close>

abbreviation node_keys :: "heap \<Rightarrow> addr list \<Rightarrow> jsstr list" where
  "node_keys h nodes \<equiv> map (\<lambda>a. g_key (h ! a)) nodes"

definition graph_inv :: "heap \<Rightarrow> addr list \<Rightarrow> gedge list \<Rightarrow> simulation \<Rightarrow> bool" where
  "graph_inv h nodes edges sim \<longleftrightarrow>
     distinct nodes \<and> set nodes \<subseteq> {..<length h} \<and> distinct (node_keys h nodes) \<and>
     s_nodes sim = nodes \<and> dom (s_adjacency sim) = set (node_keys h nodes) \<and>
     (\<forall>e\<in>set edges. ge_source e \<in> set (node_keys h nodes) \<and> ge_target e \<in> set (node_keys h nodes))"

definition view_inv :: "view \<Rightarrow> bool" where
  "view_inv v \<longleftrightarrow>
     graph_inv (v_heap v) (v_nodes v) (v_edges v) (v_sim v) \<and>
     0 \<le> s_alpha (v_sim v) \<and> s_alpha (v_sim v) \<le> 1 \<and>
     rnd (1 / 5) \<le> v_zoom v \<and> v_zoom v \<le> 4 \<and>
     (\<forall>d. v_dragging v = Some d \<longrightarrow> dr_node d < length (v_heap v) \<and> g_fixed (v_heap v ! dr_node d)) \<and>
     set (v_drawn v) \<subseteq> {..<length (v_heap v)} \<and>
     (\<not> v_dirty v \<longrightarrow> v_drawn v = v_nodes v)"

text \<open>The graph part depends on the store through lengths and keys only.\<close>

definition same_keys :: "heap \<Rightarrow> heap \<Rightarrow> bool" where
  "same_keys h h' \<longleftrightarrow> length h' = length h \<and> (\<forall>a. g_key (h' ! a) = g_key (h ! a))"

lemma nth_update_same:
  "(a < length h \<Longrightarrow> f n = f (h ! a)) \<Longrightarrow> f (h[a := n] ! b) = f (h ! b)"
  by (cases "a < length h") (auto simp: nth_list_update list_update_beyond)

lemma same_keys_update: "g_key n = g_key (h ! a) \<Longrightarrow> same_keys h (h[a := n])"
  by (simp add: same_keys_def nth_update_same)

lemma same_keys_step: "heap_step A h h' \<Longrightarrow> same_keys h h'"
  by (simp add: same_keys_def heap_step_def moved_def)

lemma by_key_same: "same_keys h h' \<Longrightarrow> by_key h' = by_key h"
  by (intro ext) (simp add: by_key_def same_keys_def)

lemma graph_inv_same_keys:
  assumes "graph_inv h nodes edges sim" and "same_keys h h'"
    and "s_nodes sim' = s_nodes sim" and "s_adjacency sim' = s_adjacency sim"
  shows "graph_inv h' nodes edges sim'"
  using assms by (simp add: graph_inv_def same_keys_def)

lemma by_key_Some:
  assumes "distinct (node_keys h nodes)"
  shows "by_key h nodes k = Some a \<longleftrightarrow> a \<in> set nodes \<and> g_key (h ! a) = k"
proof
  assume "by_key h nodes k = Some a"
  then show "a \<in> set nodes \<and> g_key (h ! a) = k"
    unfolding by_key_def by (auto dest: find_SomeD)
next
  assume a: "a \<in> set nodes \<and> g_key (h ! a) = k"
  then have "by_key h nodes k \<noteq> None"
    by (auto simp: by_key_def find_None_iff_all)
  then obtain b where b: "by_key h nodes k = Some b" by blast
  then have "b \<in> set nodes" "g_key (h ! b) = k"
    unfolding by_key_def by (auto dest: find_SomeD)
  with a assms have "a = b" by (auto simp: distinct_map inj_on_def)
  with b show "by_key h nodes k = Some a" by simp
qed

lemma by_key_None: "by_key h nodes k = None \<longleftrightarrow> k \<notin> set (node_keys h nodes)"
  by (auto simp: by_key_def find_None_iff_all)

subsection \<open>The graph effect\<close>

lemma dom_push_neighbor [simp]: "dom (push_neighbor k v adj) = dom adj"
  by (auto simp: push_neighbor_def split: option.splits)

lemma dom_fold_link_edge [simp]: "dom (fold link_edge es adj) = dom adj"
  by (induction es arbitrary: adj) (simp_all add: link_edge_def)

lemma keep_position_key [simp]: "g_key (keep_position h nodes n) = g_key n"
  by (simp add: keep_position_def split: option.splits)

lemma dom_if_Some [simp]: "dom (\<lambda>k. if k \<in> A then Some c else None) = A"
  by (auto split: if_splits)

lemma map_nth_append_upt:
  "map (\<lambda>a. f ((h @ xs) ! a)) [length h ..< length h + length xs] = map f xs"
  by (rule nth_equalityI) (simp_all add: nth_append)

lemma machines_effect_inv:
  assumes "view_inv v"
  shows "view_inv (machines_effect g ms v)"
proof -
  let ?bg = "buildGraph (gx_random g) (v_calls v) ms"
  let ?fresh = "map (keep_position (v_heap v) (v_nodes v)) (b_nodes ?bg)"
  let ?nodes = "[length (v_heap v) ..< length (v_heap v) + length ?fresh]"
  have keys: "node_keys (v_heap v @ ?fresh) ?nodes = map g_key (b_nodes ?bg)"
    using map_nth_append_upt [of g_key "v_heap v" ?fresh] by (simp add: comp_def)
  have "graph_inv (v_heap v @ ?fresh) ?nodes (b_edges ?bg)
      (setGraph (v_heap v @ ?fresh) ?nodes (b_edges ?bg) (v_sim v))"
    unfolding graph_inv_def setGraph_def keys
    using buildGraph_distinct buildGraph_edges_joined by auto
  then have "graph_inv (v_heap v @ ?fresh) ?nodes (b_edges ?bg) (v_sim (machines_effect g ms v))"
    by (rule graph_inv_same_keys) (simp_all add: same_keys_def machines_effect_def Let_def reheat_def)
  with assms show ?thesis
    unfolding view_inv_def machines_effect_def Let_def
    by (auto simp: reheat_def setGraph_def nth_append)
qed

subsection \<open>Frames\<close>

text \<open>What one animation frame does, with the tick's results abstracted.\<close>

lemma frame_cases:
  assumes "\<not> v_stopped v"
  obtains sim h shift w y where "tick (gx_sqrt g) w y (v_sim v) (v_heap v) = (sim, h, shift)"
    and "frame g cw ch v =
      (if shift > SETTLE_EPSILON \<or> v_dirty v
       then render (gx_env g) cw ch (v\<lparr>v_sim := sim, v_heap := h, v_dirty := False\<rparr>)
       else v\<lparr>v_sim := sim, v_heap := h\<rparr>)"
proof -
  let ?w = "fdiv (of_nat (or_default cw 800)) 2" and ?y = "fdiv (of_nat (or_default ch 500)) 2"
  obtain sim h shift where t: "tick (gx_sqrt g) ?w ?y (v_sim v) (v_heap v) = (sim, h, shift)"
    by (metis prod_cases3)
  show thesis
    using assms by (intro that [OF t]) (simp add: frame_def t)
qed

lemma tick_alpha_range:
  assumes "tick msqrt cx cy sim h = (sim', h', m)" and "0 \<le> s_alpha sim" and "s_alpha sim \<le> 1"
  shows "0 \<le> s_alpha sim' \<and> s_alpha sim' \<le> 1"
  using tick_alpha [of msqrt cx cy sim h] cool_once_le [OF assms(2)] assms by auto

lemma frame_inv:
  assumes "view_inv v"
  shows "view_inv (frame g cw ch v)"
proof (cases "v_stopped v")
  case True
  with assms show ?thesis by (simp add: frame_def)
next
  case False
  then obtain sim h shift w y where t: "tick (gx_sqrt g) w y (v_sim v) (v_heap v) = (sim, h, shift)"
    and f: "frame g cw ch v =
      (if shift > SETTLE_EPSILON \<or> v_dirty v
       then render (gx_env g) cw ch (v\<lparr>v_sim := sim, v_heap := h, v_dirty := False\<rparr>)
       else v\<lparr>v_sim := sim, v_heap := h\<rparr>)"
    by (rule frame_cases)
  note step = tick_heap_step [OF t]
  have graph: "graph_inv h (v_nodes v) (v_edges v) sim"
    using assms tick_sim [OF t] same_keys_step [OF step]
    by - (rule graph_inv_same_keys [of "v_heap v" _ _ "v_sim v"], simp_all add: view_inv_def)
  have alpha: "0 \<le> s_alpha sim \<and> s_alpha sim \<le> 1"
    using assms tick_alpha_range [OF t] by (simp add: view_inv_def)
  have "length h = length (v_heap v)" "\<And>a. g_fixed (h ! a) = g_fixed (v_heap v ! a)"
    using step by (simp_all add: heap_step_def moved_def)
  then have "view_inv (v\<lparr>v_sim := sim, v_heap := h\<rparr>)"
    using assms graph alpha by (simp add: view_inv_def)
  then show ?thesis
    unfolding f by (auto simp: view_inv_def render_def graph_inv_def)
qed

subsection \<open>Handlers\<close>

lemma clamp_zoom_range: "rnd (1 / 5) \<le> clamp_zoom z \<and> clamp_zoom z \<le> 4"
proof -
  have "rnd (1 / 5) \<le> 4" by (rule binary64.r_upper_numeral) simp_all
  then show ?thesis by (simp add: clamp_zoom_def)
qed

lemma one_fifth_le_1: "rnd (1 / 5) \<le> 1"
  by (rule binary64.r_le_1) simp

lemma run_control_inv: "view_inv v \<Longrightarrow> view_inv (run_control c v)"
  using clamp_zoom_range one_fifth_le_1
  by (cases c) (auto simp: view_inv_def applyZoom_def resetView_def reheat_def graph_inv_def)

lemma update_object_inv:
  assumes "view_inv v" and "g_key n = g_key (v_heap v ! a)"
    and "\<And>d. v_dragging v = Some d \<Longrightarrow> dr_node d = a \<Longrightarrow> g_fixed n"
  shows "view_inv (v\<lparr>v_heap := (v_heap v)[a := n]\<rparr>)"
proof -
  have "graph_inv ((v_heap v)[a := n]) (v_nodes v) (v_edges v) (v_sim v)"
    using assms(1) same_keys_update [OF assms(2)]
    by - (rule graph_inv_same_keys [of "v_heap v" _ _ "v_sim v"], simp_all add: view_inv_def)
  moreover have "g_fixed ((v_heap v)[a := n] ! dr_node d)" if "v_dragging v = Some d" for d
    using that assms(1) assms(3) [of d] by (cases "dr_node d = a") (auto simp: view_inv_def)
  ultimately show ?thesis
    using assms(1) by (auto simp: view_inv_def)
qed

lemma node_pointerdown_inv:
  assumes "view_inv v" and "a \<in> set (v_drawn v)"
  shows "view_inv (node_pointerdown a x y v)"
proof -
  have a: "a < length (v_heap v)" using assms by (auto simp: view_inv_def)
  have "view_inv (v\<lparr>v_heap := (v_heap v)[a := (v_heap v ! a)\<lparr>g_fixed := True\<rparr>]\<rparr>)"
    using assms(1) by (rule update_object_inv) simp_all
  with a show ?thesis by (simp add: view_inv_def node_pointerdown_def)
qed

lemma onPointerMove_inv:
  assumes "view_inv v"
  shows "view_inv (onPointerMove x y v)"
proof (cases "v_dragging v")
  case None
  with assms show ?thesis by (simp add: onPointerMove_def view_inv_def)
next
  case (Some d)
  have pinned: "g_fixed (v_heap v ! dr_node d)" using assms Some by (simp add: view_inv_def)
  let ?n = "(v_heap v ! dr_node d)\<lparr>g_x := fadd (dr_ox d) (fdiv (fsub x (dr_startX d)) (v_zoom v)),
    g_y := fadd (dr_oy d) (fdiv (fsub y (dr_startY d)) (v_zoom v)), g_vx := 0, g_vy := 0\<rparr>"
  have "view_inv (v\<lparr>v_heap := (v_heap v)[dr_node d := ?n]\<rparr>)"
    using assms by (rule update_object_inv) (simp_all add: pinned)
  with Some pinned show ?thesis by (simp add: onPointerMove_def view_inv_def)
qed

lemma onPointerUp_inv:
  assumes "view_inv v"
  shows "view_inv (onPointerUp v)"
proof (cases "v_dragging v")
  case None
  with assms show ?thesis by (simp add: onPointerUp_def view_inv_def)
next
  case (Some d)
  have "view_inv (v\<lparr>v_dragging := None\<rparr>)" using assms by (simp add: view_inv_def)
  then have "view_inv ((v\<lparr>v_dragging := None\<rparr>)
      \<lparr>v_heap := (v_heap (v\<lparr>v_dragging := None\<rparr>))[dr_node d := (v_heap v ! dr_node d)\<lparr>g_fixed := False\<rparr>]\<rparr>)"
    by (rule update_object_inv) simp_all
  with Some show ?thesis
    by (simp add: onPointerUp_def Let_def view_inv_def reheat_def graph_inv_def)
qed

lemma init_view_inv: "view_inv init_view"
  using one_fifth_le_1
  by (simp add: view_inv_def init_view_def graph_inv_def createSimulation_def)

lemma view_exec_inv: "view_inv v \<Longrightarrow> view_enabled e v \<Longrightarrow> view_inv (view_exec g e v)"
proof (induction g e v rule: view_exec.induct)
  case (1 g k v)
  then show ?case by (simp add: view_inv_def selected_effect_def)
next
  case (4 g d v)
  then show ?case using clamp_zoom_range by (simp add: view_inv_def onWheel_def)
next
  case (5 g x y v)
  then show ?case by (simp add: view_inv_def onPointerDown_def)
qed (simp_all add: machines_effect_inv frame_inv onPointerMove_inv onPointerUp_inv
      node_pointerdown_inv run_control_inv, simp add: view_inv_def unmount_def)

interpretation topology_view: safe_component view_enabled "view_exec g" init_view view_inv for g
  by unfold_locales (auto intro: init_view_inv view_exec_inv)

text \<open>
  C25. Every state the view can reach is consistent, whatever the order of refreshes, frames,
  pointer, wheel and button events: the node objects are distinct and allocated, their keys
  are distinct, the simulation works on exactly these objects and knows exactly their keys,
  every edge joins two of them, the temperature is in \<open>[0, 1]\<close>, the zoom stays between the
  binary64 value of \<open>0.2\<close> and 4, a dragged object is allocated and pinned, every group on the
  screen belongs to an allocated object, and when nothing is pending the groups are those of
  the current nodes.
\<close>

theorem view_reachable_consistent:
  assumes "reachable view_enabled (view_exec g) init_view v"
  shows "view_inv v"
  using assms by (rule topology_view.inv_reachable)

section \<open>Refreshing\<close>

lemma machines_effect_simps:
  "v_nodes (machines_effect g ms v) =
     [length (v_heap v) ..< length (v_heap v) + length (b_nodes (buildGraph (gx_random g) (v_calls v) ms))]"
  "v_heap (machines_effect g ms v) = v_heap v @
     map (keep_position (v_heap v) (v_nodes v)) (b_nodes (buildGraph (gx_random g) (v_calls v) ms))"
  "v_dragging (machines_effect g ms v) = v_dragging v"
  by (simp_all add: machines_effect_def Let_def)

lemma machines_effect_node:
  assumes "b \<in> set (v_nodes (machines_effect g ms v))"
  obtains n where "n \<in> set (b_nodes (buildGraph (gx_random g) (v_calls v) ms))"
    and "v_heap (machines_effect g ms v) ! b = keep_position (v_heap v) (v_nodes v) n"
proof -
  let ?ns = "b_nodes (buildGraph (gx_random g) (v_calls v) ms)"
  obtain i where i: "b = length (v_heap v) + i" "i < length ?ns"
    using assms by (auto simp: machines_effect_simps le_iff_add)
  show thesis
    by (rule that [of "?ns ! i"]) (simp_all add: i machines_effect_simps nth_append)
qed

lemma machines_effect_keys:
  "node_keys (v_heap (machines_effect g ms v)) (v_nodes (machines_effect g ms v)) =
     map g_key (b_nodes (buildGraph (gx_random g) (v_calls v) ms))"
  using map_nth_append_upt [of g_key "v_heap v"
      "map (keep_position (v_heap v) (v_nodes v)) (b_nodes (buildGraph (gx_random g) (v_calls v) ms))"]
  by (simp add: machines_effect_simps comp_def)

lemma topology_changed_iff:
  assumes "distinct (node_keys h nodes)" and "distinct (map g_key fresh)"
  shows "topology_changed h nodes fresh \<longleftrightarrow> set (map g_key fresh) \<noteq> set (node_keys h nodes)"
proof -
  have new: "list_ex (\<lambda>n. by_key h nodes (g_key n) = None) fresh \<longleftrightarrow>
      \<not> set (map g_key fresh) \<subseteq> set (node_keys h nodes)"
    unfolding by_key_None by (auto simp: list_ex_iff)
  have "length fresh = card (set (map g_key fresh))" "length nodes = card (set (node_keys h nodes))"
    using distinct_card [OF assms(2)] distinct_card [OF assms(1)] by simp_all
  moreover have "remdups (node_keys h nodes) = node_keys h nodes"
    using assms(1) by (rule distinct_remdups_id)
  ultimately show ?thesis
    unfolding topology_changed_def new by (metis List.finite_set card_subset_eq length_map order_refl)
qed

lemma machines_effect_alpha:
  assumes "distinct (node_keys (v_heap v) (v_nodes v))"
  shows "s_alpha (v_sim (machines_effect g ms v)) =
    (if set (node_keys (v_heap (machines_effect g ms v)) (v_nodes (machines_effect g ms v))) =
        set (node_keys (v_heap v) (v_nodes v))
     then s_alpha (v_sim v) else 1)"
proof -
  let ?fresh = "map (keep_position (v_heap v) (v_nodes v)) (b_nodes (buildGraph (gx_random g) (v_calls v) ms))"
  have keys: "map g_key ?fresh = map g_key (b_nodes (buildGraph (gx_random g) (v_calls v) ms))"
    by (simp add: comp_def)
  have "topology_changed (v_heap v) (v_nodes v) ?fresh \<longleftrightarrow>
      set (map g_key ?fresh) \<noteq> set (node_keys (v_heap v) (v_nodes v))"
    using assms by (rule topology_changed_iff) (simp only: keys buildGraph_distinct)
  then show ?thesis
    unfolding machines_effect_keys keys by (simp add: machines_effect_def Let_def reheat_def setGraph_def)
qed

text \<open>
  C27. A metrics refresh does not rearrange the layout. In every reachable state and for every list
  of machines, the first load, a graph that shares no node with the old one and an empty graph
  included, the simulation is reheated exactly when the set of keys changed and otherwise keeps its
  temperature; and every node of the new graph whose key was already drawn keeps the position and
  velocity of the old object.
\<close>

theorem refresh_keeps_layout:
  assumes "reachable view_enabled (view_exec g) init_view v" and "v' = machines_effect g' ms v"
  shows "s_alpha (v_sim v') =
      (if set (node_keys (v_heap v') (v_nodes v')) = set (node_keys (v_heap v) (v_nodes v))
       then s_alpha (v_sim v) else 1) \<and>
    (\<forall>a b. a \<in> set (v_nodes v) \<and> b \<in> set (v_nodes v') \<and> g_key (v_heap v' ! b) = g_key (v_heap v ! a) \<longrightarrow>
      g_x (v_heap v' ! b) = g_x (v_heap v ! a) \<and> g_y (v_heap v' ! b) = g_y (v_heap v ! a) \<and>
      g_vx (v_heap v' ! b) = g_vx (v_heap v ! a) \<and> g_vy (v_heap v' ! b) = g_vy (v_heap v ! a))"
proof -
  have keys: "distinct (node_keys (v_heap v) (v_nodes v))"
    using topology_view.inv_reachable [OF assms(1)] by (simp add: view_inv_def graph_inv_def)
  have "g_x (v_heap v' ! b) = g_x (v_heap v ! a) \<and> g_y (v_heap v' ! b) = g_y (v_heap v ! a) \<and>
      g_vx (v_heap v' ! b) = g_vx (v_heap v ! a) \<and> g_vy (v_heap v' ! b) = g_vy (v_heap v ! a)"
    if same: "a \<in> set (v_nodes v)" "b \<in> set (v_nodes v')" "g_key (v_heap v' ! b) = g_key (v_heap v ! a)" for a b
  proof -
    obtain n where n: "v_heap v' ! b = keep_position (v_heap v) (v_nodes v) n"
      using same(2) unfolding assms(2) by (rule machines_effect_node)
    have "by_key (v_heap v) (v_nodes v) (g_key n) = Some a"
      using same(1,3) by (simp add: by_key_Some [OF keys] n)
    then have "v_heap v' ! b = n\<lparr>g_x := g_x (v_heap v ! a), g_y := g_y (v_heap v ! a),
        g_vx := g_vx (v_heap v ! a), g_vy := g_vy (v_heap v ! a)\<rparr>"
      unfolding n by (simp add: keep_position_def)
    then show ?thesis by simp
  qed
  with machines_effect_alpha [OF keys, of g' ms] show ?thesis unfolding assms(2) by blast
qed

section \<open>The animation loop comes to rest\<close>

lemma frame_facts:
  assumes "\<not> v_stopped v"
  shows "\<not> v_dirty (frame g w y v) \<and> \<not> v_stopped (frame g w y v) \<and>
    s_alpha (v_sim (frame g w y v)) = cool_once (s_alpha (v_sim v))"
proof -
  obtain sim h shift cx cy where t: "tick (gx_sqrt g) cx cy (v_sim v) (v_heap v) = (sim, h, shift)"
    and f: "frame g w y v =
      (if shift > SETTLE_EPSILON \<or> v_dirty v
       then render (gx_env g) w y (v\<lparr>v_sim := sim, v_heap := h, v_dirty := False\<rparr>)
       else v\<lparr>v_sim := sim, v_heap := h\<rparr>)"
    using assms by (rule frame_cases)
  have "s_alpha sim = cool_once (s_alpha (v_sim v))"
    using tick_alpha [of "gx_sqrt g" cx cy "v_sim v" "v_heap v"] by (simp add: t)
  with assms show ?thesis unfolding f by (simp add: render_def)
qed

lemma frame_at_rest:
  assumes "\<not> v_stopped v" and "\<not> v_dirty v" and "s_alpha (v_sim v) < ALPHA_MIN"
  shows "frame g w y v = v"
proof -
  have "0 \<le> SETTLE_EPSILON"
    unfolding SETTLE_EPSILON_def by (rule binary64.r_nonneg) simp
  with assms show ?thesis by (simp add: frame_def tick_cold)
qed

definition frames :: "(nat \<times> nat) list \<Rightarrow> view_event list" where
  "frames sizes = map (\<lambda>(w, h). Frame w h) sizes"

lemma frames_simps [simp]: "frames [] = []" "frames ((w, y) # zs) = Frame w y # frames zs"
  by (simp_all add: frames_def)

lemma run_frames:
  assumes "\<not> v_stopped v"
  shows "\<not> v_stopped (run_events (view_exec g) (frames zs) v) \<and>
    (zs \<noteq> [] \<longrightarrow> \<not> v_dirty (run_events (view_exec g) (frames zs) v)) \<and>
    s_alpha (v_sim (run_events (view_exec g) (frames zs) v)) = (cool_once ^^ length zs) (s_alpha (v_sim v))"
  using assms
proof (induction zs arbitrary: v)
  case (Cons z zs)
  obtain w y where z: "z = (w, y)" by fastforce
  note f = frame_facts [OF Cons.prems, of g w y]
  with Cons.IH [of "frame g w y v"] have "\<not> v_stopped (run_events (view_exec g) (frames zs) (frame g w y v))"
    and "zs \<noteq> [] \<longrightarrow> \<not> v_dirty (run_events (view_exec g) (frames zs) (frame g w y v))"
    and "s_alpha (v_sim (run_events (view_exec g) (frames zs) (frame g w y v))) =
      (cool_once ^^ length zs) (cool_once (s_alpha (v_sim v)))"
    by simp_all
  with f show ?case by (cases "zs = []") (simp_all add: z funpow_swap1)
qed simp

lemma frames_cold:
  assumes "view_inv v" and "\<not> v_stopped v" and "263 \<le> length zs"
  shows "s_alpha (v_sim (run_events (view_exec g) (frames zs) v)) < ALPHA_MIN"
proof -
  obtain n where n: "length zs = n + 263" using assms(3) by (metis add.commute le_Suc_ex)
  have "(cool_once ^^ 263) (s_alpha (v_sim v)) < ALPHA_MIN"
    using assms(1) by (intro cool_once_cold) (simp_all add: view_inv_def)
  then show ?thesis
    using run_frames [OF assms(2), of g zs]
    by (simp only: n funpow_add comp_def cool_once_stays_cold)
qed

text \<open>
  The animation stops doing work: left alone for 263 frames, a mounted view in any
  reachable state is at rest, and every later frame leaves the whole component state as it
  is, picture, view box and layout included, whatever size the element has by then.
\<close>

theorem view_comes_to_rest:
  assumes "reachable view_enabled (view_exec g) init_view v" and "\<not> v_stopped v" and "263 \<le> length zs"
  shows "frame g w y (run_events (view_exec g) (frames zs) v) = run_events (view_exec g) (frames zs) v"
proof (rule frame_at_rest)
  show "s_alpha (v_sim (run_events (view_exec g) (frames zs) v)) < ALPHA_MIN"
    using topology_view.inv_reachable [OF assms(1)] assms(2,3) by (rule frames_cold)
qed (use run_frames [OF assms(2), of g zs] assms(3) in auto)

section \<open>Gestures\<close>

text \<open>
  Between a press on a node and its release the browser delivers pointer moves, frames and
  selection updates. \<open>last_move\<close> is the pointer position of the last move of such a sequence.
\<close>

fun gesture_event :: "view_event \<Rightarrow> bool" where
  "gesture_event (Frame w h) = True"
| "gesture_event (PointerMove x y) = True"
| "gesture_event (SelectedChanged k) = True"
| "gesture_event _ = False"

fun last_move :: "view_event list \<Rightarrow> (jsnum \<times> jsnum) option" where
  "last_move [] = None"
| "last_move (PointerMove x y # es) = (case last_move es of None \<Rightarrow> Some (x, y) | Some p \<Rightarrow> Some p)"
| "last_move (_ # es) = last_move es"

definition drag_target :: "drag \<Rightarrow> jsnum \<Rightarrow> jsnum \<times> jsnum \<Rightarrow> jsnum \<times> jsnum" where
  "drag_target d zoom p =
     (fadd (dr_ox d) (fdiv (fsub (fst p) (dr_startX d)) zoom),
      fadd (dr_oy d) (fdiv (fsub (snd p) (dr_startY d)) zoom))"

abbreviation node_pos :: "view \<Rightarrow> addr \<Rightarrow> jsnum \<times> jsnum" where
  "node_pos v a \<equiv> (g_x (v_heap v ! a), g_y (v_heap v ! a))"

lemma frame_keeps:
  "v_dragging (frame g w y v) = v_dragging v" "v_zoom (frame g w y v) = v_zoom v"
  "v_nodes (frame g w y v) = v_nodes v" "v_panning (frame g w y v) = v_panning v"
  "v_panX (frame g w y v) = v_panX v" "v_panY (frame g w y v) = v_panY v"
  "v_stopped (frame g w y v) = v_stopped v"
  by (auto simp: frame_def render_def Let_def split: prod.splits)

lemma frame_heap_step:
  assumes "view_inv v"
  shows "heap_step (set (v_nodes v)) (v_heap v) (v_heap (frame g w y v))"
proof (cases "v_stopped v")
  case True
  then show ?thesis by (simp add: frame_def)
next
  case False
  then obtain sim h shift cx cy where t: "tick (gx_sqrt g) cx cy (v_sim v) (v_heap v) = (sim, h, shift)"
    and f: "frame g w y v =
      (if shift > SETTLE_EPSILON \<or> v_dirty v
       then render (gx_env g) w y (v\<lparr>v_sim := sim, v_heap := h, v_dirty := False\<rparr>)
       else v\<lparr>v_sim := sim, v_heap := h\<rparr>)"
    by (rule frame_cases)
  have "heap_step (set (v_nodes v)) (v_heap v) h"
    using tick_heap_step [OF t] assms by (simp add: view_inv_def graph_inv_def)
  then show ?thesis unfolding f by (simp add: render_def)
qed

lemma frame_pinned:
  "view_inv v \<Longrightarrow> g_fixed (v_heap v ! a) \<Longrightarrow> v_heap (frame g w y v) ! a = v_heap v ! a"
  using frame_heap_step [of v g w y] by (simp add: heap_step_def)

lemma frame_alpha_le: "view_inv v \<Longrightarrow> s_alpha (v_sim (frame g w y v)) \<le> s_alpha (v_sim v)"
  using frame_facts [of v g w y] cool_once_le [of "s_alpha (v_sim v)"]
  by (cases "v_stopped v") (simp_all add: frame_def view_inv_def)

text \<open>The state of a drag after any such sequence.\<close>

definition drag_state :: "drag \<Rightarrow> (jsnum \<times> jsnum) option \<Rightarrow> view \<Rightarrow> view \<Rightarrow> bool" where
  "drag_state d mv v v' \<longleftrightarrow>
     v_dragging v' = Some (d\<lparr>dr_moved := dr_moved d \<or> mv \<noteq> None\<rparr>) \<and>
     node_pos v' (dr_node d) =
       (case mv of None \<Rightarrow> node_pos v (dr_node d) | Some p \<Rightarrow> drag_target d (v_zoom v) p) \<and>
     v_zoom v' = v_zoom v \<and> v_nodes v' = v_nodes v \<and> s_alpha (v_sim v') \<le> s_alpha (v_sim v)"

lemma drag_state_refl: "v_dragging v = Some d \<Longrightarrow> drag_state d None v v"
  by (simp add: drag_state_def)

lemma drag_state_trans:
  "drag_state d mv v v' \<Longrightarrow> drag_state (d\<lparr>dr_moved := dr_moved d \<or> mv \<noteq> None\<rparr>) mv' v' v'' \<Longrightarrow>
     drag_state d (case mv' of None \<Rightarrow> mv | Some p \<Rightarrow> Some p) v v''"
  by (cases mv'; cases mv) (auto simp: drag_state_def drag_target_def)

lemma drag_one:
  assumes "view_inv v" and "v_dragging v = Some d" and "gesture_event e"
  shows "drag_state d (last_move [e]) v (view_exec g e v)"
proof (cases e)
  case (SelectedChanged k)
  with assms(2) show ?thesis by (simp add: drag_state_def selected_effect_def)
next
  case (Frame w y)
  have "g_fixed (v_heap v ! dr_node d)" using assms(1,2) by (simp add: view_inv_def)
  with assms Frame show ?thesis
    by (simp add: drag_state_def frame_keeps frame_pinned frame_alpha_le)
next
  case (PointerMove x y)
  have "dr_node d < length (v_heap v)" using assms(1,2) by (simp add: view_inv_def)
  with assms(2) PointerMove show ?thesis
    by (simp add: drag_state_def onPointerMove_def drag_target_def)
qed (use assms(3) in simp_all)

lemma gesture_stopped: "gesture_event e \<Longrightarrow> v_stopped (view_exec g e v) = v_stopped v"
  by (cases e) (simp_all add: selected_effect_def frame_keeps onPointerMove_def split: option.splits)

lemma gesture_enabled: "gesture_event e \<Longrightarrow> view_enabled e v \<longleftrightarrow> \<not> v_stopped v"
  by (cases e) simp_all

lemma last_move_Cons:
  "last_move (e # es) = (case last_move es of None \<Rightarrow> last_move [e] | Some p \<Rightarrow> Some p)"
  by (cases e) (simp_all split: option.splits)

lemma drag_run:
  assumes "view_inv v" and "v_dragging v = Some d" and "list_all gesture_event es" and "\<not> v_stopped v"
  shows "drag_state d (last_move es) v (run_events (view_exec g) es v) \<and>
    view_inv (run_events (view_exec g) es v)"
  using assms
proof (induction es arbitrary: v d)
  case Nil
  then show ?case by (simp add: drag_state_refl)
next
  case (Cons e es)
  let ?v = "view_exec g e v" and ?d = "d\<lparr>dr_moved := dr_moved d \<or> last_move [e] \<noteq> None\<rparr>"
  have e: "gesture_event e" and es: "list_all gesture_event es" using Cons.prems(3) by simp_all
  have one: "drag_state d (last_move [e]) v ?v" using Cons.prems(1,2) e by (rule drag_one)
  have "view_inv ?v" using Cons.prems e by (simp add: view_exec_inv gesture_enabled)
  moreover have "v_dragging ?v = Some ?d" using one by (simp add: drag_state_def)
  moreover have "\<not> v_stopped ?v" using Cons.prems(4) gesture_stopped [OF e] by simp
  ultimately have "drag_state ?d (last_move es) ?v (run_events (view_exec g) es ?v)"
    and inv: "view_inv (run_events (view_exec g) es ?v)"
    using Cons.IH [of ?v ?d] es by simp_all
  from drag_state_trans [OF one this(1)] inv show ?case
    unfolding last_move_Cons [of e es] by simp
qed

text \<open>
  C26. A gesture on a node does what the pointer says. In a reachable state, press
  a drawn node at \<open>(x, y)\<close>, let any interleaving of pointer moves, animation
  frames and selection updates happen, and release. The node is unpinned again and no drag
  remains. If the pointer never moved it is a click: the node is where it was and the
  simulation has not been reheated. Otherwise the node is at its old position plus the last
  pointer offset divided by the zoom, however many frames ran in between, and the simulation
  is reheated.
\<close>

theorem node_gesture:
  assumes "reachable view_enabled (view_exec g) init_view v" and "\<not> v_stopped v"
    and "a \<in> set (v_drawn v)" and "list_all gesture_event es"
    and "v' = run_events (view_exec g) (NodeDown a x y # es @ [PointerUp]) v"
  shows "v_dragging v' = None \<and> \<not> g_fixed (v_heap v' ! a) \<and>
    (case last_move es of
       None \<Rightarrow> node_pos v' a = node_pos v a \<and> s_alpha (v_sim v') \<le> s_alpha (v_sim v)
     | Some (px, py) \<Rightarrow>
         node_pos v' a = (fadd (g_x (v_heap v ! a)) (fdiv (fsub px x) (v_zoom v)),
                          fadd (g_y (v_heap v ! a)) (fdiv (fsub py y) (v_zoom v))) \<and>
         s_alpha (v_sim v') = 1)"
proof -
  let ?d = "\<lparr>dr_node = a, dr_startX = x, dr_startY = y, dr_ox = g_x (v_heap v ! a),
    dr_oy = g_y (v_heap v ! a), dr_moved = False\<rparr>"
  let ?v0 = "node_pointerdown a x y v" and ?v1 = "run_events (view_exec g) es (node_pointerdown a x y v)"
  have inv: "view_inv v" using assms(1) by (rule topology_view.inv_reachable)
  then have a: "a < length (v_heap v)" using assms(3) by (auto simp: view_inv_def)
  have inv0: "view_inv ?v0" using inv assms(3) by (rule node_pointerdown_inv)
  have d0: "v_dragging ?v0 = Some ?d" and s0: "\<not> v_stopped ?v0"
    using assms(2) by (simp_all add: node_pointerdown_def)
  have ds: "drag_state ?d (last_move es) ?v0 ?v1" and inv1: "view_inv ?v1"
    using drag_run [OF inv0 d0 assms(4) s0] by blast+
  have pos: "node_pos ?v0 a = node_pos v a" "v_zoom ?v0 = v_zoom v" "v_sim ?v0 = v_sim v"
    using a by (simp_all add: node_pointerdown_def)
  have "a < length (v_heap ?v1)" using ds inv1 by (simp add: drag_state_def view_inv_def)
  with ds pos show ?thesis
    by (cases "last_move es")
      (auto simp: assms(5) run_events_append onPointerUp_def Let_def drag_state_def drag_target_def reheat_def)
qed

section \<open>Where gestures and refreshes interfere\<close>

lemma buildGraph_unpinned: "n \<in> set (b_nodes (buildGraph rs k ms)) \<Longrightarrow> \<not> g_fixed n"
proof -
  assume "n \<in> set (b_nodes (buildGraph rs k ms))"
  then have "n \<in> set (number_nodes rs k (firsts item_key [] (items ms)))"
    by (simp add: buildGraph_eq Let_def)
  then obtain j x where "n = item_node rs j x" by (rule number_nodes_memE)
  then show ?thesis by (cases x) (simp_all add: machine_node_def peer_node_def)
qed

text \<open>
  C39. A refresh during a drag detaches the drag. The effect replaces every node object, and
  the drag in progress keeps the old one: it is no longer a node of the graph, the new object
  of the same key is not pinned, and further pointer moves change no node of the graph.
\<close>

theorem refresh_detaches_drag:
  assumes "reachable view_enabled (view_exec g) init_view v" and "v_dragging v = Some d"
    and "v' = machines_effect g ms v"
  shows "v_dragging v' = Some d \<and> dr_node d \<notin> set (v_nodes v') \<and>
    (\<forall>b\<in>set (v_nodes v'). \<not> g_fixed (v_heap v' ! b) \<and>
       v_heap (onPointerMove x y v') ! b = v_heap v' ! b)"
proof -
  have d: "dr_node d < length (v_heap v)"
    using topology_view.inv_reachable [OF assms(1)] assms(2) by (simp add: view_inv_def)
  have d': "v_dragging v' = Some d" using assms(2) by (simp add: assms(3) machines_effect_simps)
  have out: "dr_node d \<notin> set (v_nodes v')" using d by (simp add: assms(3) machines_effect_simps)
  have "\<not> g_fixed (v_heap v' ! b)" if b: "b \<in> set (v_nodes v')" for b
  proof -
    obtain n where "n \<in> set (b_nodes (buildGraph (gx_random g) (v_calls v) ms))"
      and "v_heap v' ! b = keep_position (v_heap v) (v_nodes v) n"
      using b unfolding assms(3) by (rule machines_effect_node)
    then show ?thesis
      using buildGraph_unpinned by (auto simp: keep_position_def split: option.splits)
  qed
  moreover have "v_heap (onPointerMove x y v') ! b = v_heap v' ! b" if "b \<in> set (v_nodes v')" for b
  proof -
    have "b \<noteq> dr_node d" using that out by blast
    then show ?thesis by (simp add: onPointerMove_def d')
  qed
  ultimately show ?thesis using d' out by blast
qed

fun background_event :: "view_event \<Rightarrow> bool" where
  "background_event (MachinesChanged ms) = False"
| "background_event (NodeDown a x y) = False"
| "background_event Unmount = False"
| "background_event _ = True"

lemma background_pinned:
  assumes "view_inv v \<and> v_dragging v = None \<and> v_heap v ! a = n \<and> g_fixed n \<and> \<not> v_stopped v"
    and "background_event e"
  shows "view_inv (view_exec g e v) \<and> v_dragging (view_exec g e v) = None \<and>
    v_heap (view_exec g e v) ! a = n \<and> g_fixed n \<and> \<not> v_stopped (view_exec g e v)"
proof -
  have "view_enabled e v" using assms by (cases e) simp_all
  then have inv: "view_inv (view_exec g e v)" using assms(1) by (intro view_exec_inv) simp_all
  show ?thesis
  proof (cases e)
    case (Frame w y)
    with assms(1) inv show ?thesis by (simp add: frame_keeps frame_pinned)
  next
    case (Control c)
    with assms(1) inv show ?thesis by (cases c) (simp_all add: applyZoom_def resetView_def)
  qed (use assms inv in \<open>simp_all add: selected_effect_def onWheel_def onPointerDown_def
      onPointerMove_def onPointerUp_def\<close>)
qed

lemma background_run_pinned:
  assumes "view_inv v \<and> v_dragging v = None \<and> v_heap v ! a = n \<and> g_fixed n \<and> \<not> v_stopped v"
    and "list_all background_event es"
  shows "v_dragging (run_events (view_exec g) es v) = None \<and> v_heap (run_events (view_exec g) es v) ! a = n"
  using assms
proof (induction es arbitrary: v)
  case (Cons e es)
  then show ?case using background_pinned [of v a n e g] by simp
qed simp

text \<open>
  A second pointer strands the first node. Pressing two different drawn nodes before any
  release leaves the first one pinned after the release, with no drag that could unpin it, and
  no sequence of frames, wheel, background pointer, selection or button events moves or frees
  it again; only a new press on it or a refresh does.
\<close>

theorem second_press_strands_node:
  assumes "reachable view_enabled (view_exec g) init_view v" and "\<not> v_stopped v"
    and "a \<in> set (v_drawn v)" and "b \<in> set (v_drawn v)" and "a \<noteq> b"
    and "list_all background_event es"
    and "v' = run_events (view_exec g) ([NodeDown a x1 y1, NodeDown b x2 y2, PointerUp] @ es) v"
  shows "v_dragging v' = None \<and> v_heap v' ! a = (v_heap v ! a)\<lparr>g_fixed := True\<rparr>"
proof -
  let ?es = "[NodeDown a x1 y1, NodeDown b x2 y2, PointerUp]"
  let ?v = "run_events (view_exec g) ?es v"
  have inv: "view_inv v" using assms(1) by (rule topology_view.inv_reachable)
  have "trace_ok view_enabled (view_exec g) ?es v"
    using assms(2-4) by (simp add: node_pointerdown_def)
  with inv have "view_inv ?v" by (rule topology_view.inv_run)
  moreover have "a < length (v_heap v)" using inv assms(3) by (auto simp: view_inv_def)
  ultimately have "view_inv ?v \<and> v_dragging ?v = None \<and>
      v_heap ?v ! a = (v_heap v ! a)\<lparr>g_fixed := True\<rparr> \<and> g_fixed ((v_heap v ! a)\<lparr>g_fixed := True\<rparr>) \<and> \<not> v_stopped ?v"
    using assms(2,5) by (simp add: node_pointerdown_def onPointerUp_def)
  from background_run_pinned [OF this assms(6), of g] show ?thesis
    by (simp only: assms(7) run_events_append)
qed

section \<open>The picture\<close>

lemma render_edge_line:
  assumes "distinct (node_keys h nodes)"
    and "ge_source e \<in> set (node_keys h nodes)" and "ge_target e \<in> set (node_keys h nodes)"
  shows "\<exists>l s t. with_tag ''line'' (render_edge env h nodes e) = [l] \<and> with_tag ''g'' (render_edge env h nodes e) = [] \<and>
    s \<in> set nodes \<and> t \<in> set nodes \<and> g_key (h ! s) = ge_source e \<and> g_key (h ! t) = ge_target e \<and>
    dom_attr ''x1'' l = Some (num_str env (g_x (h ! s))) \<and> dom_attr ''y1'' l = Some (num_str env (g_y (h ! s))) \<and>
    dom_attr ''x2'' l = Some (num_str env (g_x (h ! t))) \<and> dom_attr ''y2'' l = Some (num_str env (g_y (h ! t))) \<and>
    dom_attr ''stroke-dasharray'' l = (if ge_direct e then None else Some (js ''6 4''))"
proof -
  obtain s t where s: "s \<in> set nodes" "g_key (h ! s) = ge_source e"
    and t: "t \<in> set nodes" "g_key (h ! t) = ge_target e"
    using assms(2,3) by auto
  have "by_key h nodes (ge_source e) = Some s" "by_key h nodes (ge_target e) = Some t"
    using s t by (simp_all add: by_key_Some [OF assms(1)])
  then show ?thesis
    using s t by (auto simp: render_edge_def Let_def svgEl_def)
qed

lemma render_node_group:
  "with_tag ''g'' [render_node env h k a] = [render_node env h k a]"
  "with_tag ''line'' [render_node env h k a] = []"
  "dom_handler ''click'' (render_node env h k a) = Some (NodeClick a)"
  "dom_handler ''pointerdown'' (render_node env h k a) = Some (NodePointerDown a)"
  "dom_attr ''aria-label'' (render_node env h k a) = Some (g_label (h ! a))"
  "length (with_tag ''circle'' [render_node env h k a]) = (if k = Some (g_key (h ! a)) then 3 else 2)"
  by (simp_all add: render_node_def Let_def svgEl_def)

lemma list_all2_concat_single:
  "(\<And>x. x \<in> set xs \<Longrightarrow> \<exists>l. f x = [l] \<and> P l x) \<Longrightarrow> list_all2 P (concat (map f xs)) xs"
  by (induction xs) fastforce+

definition edge_line :: "js_env \<Rightarrow> view \<Rightarrow> svg_action dom \<Rightarrow> gedge \<Rightarrow> bool" where
  "edge_line env v l e \<longleftrightarrow>
     (\<exists>s\<in>set (v_nodes v). \<exists>t\<in>set (v_nodes v).
        g_key (v_heap v ! s) = ge_source e \<and> g_key (v_heap v ! t) = ge_target e \<and>
        dom_attr ''x1'' l = Some (num_str env (g_x (v_heap v ! s))) \<and>
        dom_attr ''y1'' l = Some (num_str env (g_y (v_heap v ! s))) \<and>
        dom_attr ''x2'' l = Some (num_str env (g_x (v_heap v ! t))) \<and>
        dom_attr ''y2'' l = Some (num_str env (g_y (v_heap v ! t))) \<and>
        dom_attr ''stroke-dasharray'' l = (if ge_direct e then None else Some (js ''6 4'')))"

definition node_group :: "view \<Rightarrow> svg_action dom \<Rightarrow> addr \<Rightarrow> bool" where
  "node_group v d a \<longleftrightarrow>
     dom_handler ''click'' d = Some (NodeClick a) \<and>
     dom_handler ''pointerdown'' d = Some (NodePointerDown a) \<and>
     dom_attr ''aria-label'' d = Some (g_label (v_heap v ! a)) \<and>
     length (with_tag ''circle'' [d]) = (if v_selectedKey v = Some (g_key (v_heap v ! a)) then 3 else 2)"

text \<open>
  The picture shows the graph. In every reachable state the scene has one line per edge,
  in order, from the position of the edge's source node to that of its target, dashed exactly
  when the connection is relayed, so no edge is skipped; and one group per node, in order,
  labelled with the node's name, whose handlers act on that node and which carries the extra
  selection ring exactly when its key is selected.
\<close>

theorem scene_shows_graph:
  assumes "reachable view_enabled (view_exec g) init_view v"
  shows "list_all2 (edge_line env v) (with_tag ''line'' (dom_children (render_scene env v))) (v_edges v) \<and>
    list_all2 (node_group v) (with_tag ''g'' (dom_children (render_scene env v))) (v_nodes v)"
proof -
  let ?h = "v_heap v" and ?ns = "v_nodes v" and ?es = "v_edges v"
  have inv: "distinct (node_keys ?h ?ns)"
    "\<And>e. e \<in> set ?es \<Longrightarrow> ge_source e \<in> set (node_keys ?h ?ns) \<and> ge_target e \<in> set (node_keys ?h ?ns)"
    using topology_view.inv_reachable [OF assms] by (simp_all add: view_inv_def graph_inv_def)
  note line = render_edge_line [OF inv(1)]
  have "list_all2 (edge_line env v) (concat (map (\<lambda>e. with_tag ''line'' (render_edge env ?h ?ns e)) ?es)) ?es"
  proof (rule list_all2_concat_single)
    fix e
    assume "e \<in> set ?es"
    then show "\<exists>l. with_tag ''line'' (render_edge env ?h ?ns e) = [l] \<and> edge_line env v l e"
      using line [of e env] inv(2) unfolding edge_line_def by blast
  qed
  moreover have "concat (map (\<lambda>e. with_tag ''g'' (render_edge env ?h ?ns e)) ?es) = []"
    using line [of _ env] inv(2) by fastforce
  moreover have "list_all2 (node_group v)
      (concat (map (\<lambda>a. with_tag ''g'' [render_node env ?h (v_selectedKey v) a]) ?ns)) ?ns"
    by (rule list_all2_concat_single) (simp add: node_group_def render_node_group)
  ultimately show ?thesis
    by (simp add: render_scene_def svgEl_def with_tag_concat_map with_tag_map render_node_group
        concat_map_Nil del: concat_eq_Nil_conv)
qed

section \<open>A mounted view\<close>

definition sample_gfx :: gfx where
  "sample_gfx = \<lparr>gx_env = sample_env, gx_sqrt = (\<lambda>x. x), gx_random = (\<lambda>_. 0)\<rparr>"

definition sample_view :: view where
  "sample_view = run_events (view_exec sample_gfx) [MachinesChanged sample_machines, Frame 800 500] init_view"

lemma frame_drawn: "\<not> v_stopped v \<Longrightarrow> v_dirty v \<Longrightarrow> v_drawn (frame g w y v) = v_nodes v"
  by (auto simp: frame_def render_def Let_def split: prod.splits)

lemma sample_view_facts:
  "reachable view_enabled (view_exec sample_gfx) init_view sample_view" "\<not> v_stopped sample_view"
  "v_nodes sample_view = [0, 1, 2, 3]" "v_drawn sample_view = [0, 1, 2, 3]"
proof -
  let ?v = "machines_effect sample_gfx sample_machines init_view"
  have "length (b_nodes (buildGraph (\<lambda>_. 0) 0 sample_machines)) = 4" by code_simp
  then have nodes: "v_nodes ?v = [0, 1, 2, 3]"
    by (simp add: machines_effect_simps init_view_def sample_gfx_def upt_conv_Cons)
  have v: "\<not> v_stopped init_view" "\<not> v_stopped ?v" "v_dirty ?v" by (simp_all add: machines_effect_def Let_def init_view_def)
  show "reachable view_enabled (view_exec sample_gfx) init_view sample_view"
    unfolding sample_view_def
    by (rule reachable_run [OF reachable.start]) (simp add: v)
  show "\<not> v_stopped sample_view" "v_nodes sample_view = [0, 1, 2, 3]" "v_drawn sample_view = [0, 1, 2, 3]"
    using v nodes by (simp_all add: sample_view_def frame_keeps frame_drawn)
qed

theorem view_reachable_consistent_witness:
  "reachable view_enabled (view_exec sample_gfx) init_view sample_view \<and> view_inv sample_view \<and>
   v_nodes sample_view = [0, 1, 2, 3]"
  using view_reachable_consistent [OF sample_view_facts(1)] sample_view_facts by blast

theorem view_comes_to_rest_witness:
  "frame sample_gfx 800 500 (run_events (view_exec sample_gfx) (frames (replicate 263 (800, 500))) sample_view) =
     run_events (view_exec sample_gfx) (frames (replicate 263 (800, 500))) sample_view"
  using view_comes_to_rest [OF sample_view_facts(1,2), of "replicate 263 (800, 500)"] by simp

theorem node_gesture_witness:
  "node_pos (run_events (view_exec sample_gfx) (NodeDown 1 10 10 # [PointerMove 40 10, Frame 800 500] @ [PointerUp]) sample_view) 1 =
     (fadd (g_x (v_heap sample_view ! 1)) (fdiv (fsub 40 10) (v_zoom sample_view)),
      fadd (g_y (v_heap sample_view ! 1)) (fdiv (fsub 10 10) (v_zoom sample_view)))"
  using node_gesture [OF sample_view_facts(1,2), of 1 "[PointerMove 40 10, Frame 800 500]" _ 10 10]
  by (simp only: sample_view_facts list.pred_inject gesture_event.simps last_move.simps) simp

theorem refresh_detaches_drag_witness:
  "\<exists>v d. reachable view_enabled (view_exec sample_gfx) init_view v \<and> v_dragging v = Some d \<and> dr_node d = 1 \<and>
     1 \<notin> set (v_nodes (machines_effect sample_gfx sample_machines v))"
proof -
  let ?v = "node_pointerdown 1 10 10 sample_view"
  have "view_enabled (NodeDown 1 10 10) sample_view" by (simp add: sample_view_facts)
  from reachable.step [OF sample_view_facts(1) this]
  have r: "reachable view_enabled (view_exec sample_gfx) init_view ?v" by simp
  obtain d where d: "v_dragging ?v = Some d" "dr_node d = 1" by (simp add: node_pointerdown_def)
  from refresh_detaches_drag [OF r d(1) refl, of sample_machines] r d show ?thesis by auto
qed

theorem second_press_strands_node_witness:
  "v_heap (run_events (view_exec sample_gfx)
      ([NodeDown 0 1 1, NodeDown 1 5 5, PointerUp] @ [Frame 800 500, PointerMove 9 9]) sample_view) ! 0 =
     (v_heap sample_view ! 0)\<lparr>g_fixed := True\<rparr>"
  using second_press_strands_node [OF sample_view_facts(1,2), of 0 1 "[Frame 800 500, PointerMove 9 9]" _ 1 1 5 5]
  by (simp only: sample_view_facts list.pred_inject background_event.simps) simp

theorem scene_shows_graph_witness:
  "list_all2 (node_group sample_view)
     (with_tag ''g'' (dom_children (render_scene sample_env sample_view))) [0, 1, 2, 3]"
  using scene_shows_graph [OF sample_view_facts(1), of sample_env] by (simp add: sample_view_facts)

theorem refresh_keeps_layout_witness:
  "\<exists>a\<in>set (v_nodes sample_view). \<exists>b\<in>set (v_nodes (machines_effect sample_gfx sample_machines sample_view)).
     g_key (v_heap (machines_effect sample_gfx sample_machines sample_view) ! b) = g_key (v_heap sample_view ! a) \<and>
     g_x (v_heap (machines_effect sample_gfx sample_machines sample_view) ! b) = g_x (v_heap sample_view ! a)"
proof -
  let ?v' = "machines_effect sample_gfx sample_machines sample_view"
  let ?a0 = "sample_machine (js ''a1'') [sample_instance (js ''i1'') [7, 8]]"
  have m: "?a0 \<in> set sample_machines" by (simp only: sample_machines_def list.set insert_iff simp_thms)
  have keys: "machine_key ?a0 \<in> set (node_keys (v_heap (machines_effect sample_gfx sample_machines v))
      (v_nodes (machines_effect sample_gfx sample_machines v)))" for v
    unfolding machines_effect_keys list.set_map set_buildGraph_keys
    using m by (metis image_eqI item_key.simps(1) set_items(1))
  have v0: "view_inv (machines_effect sample_gfx sample_machines init_view)"
    by (rule machines_effect_inv [OF init_view_inv])
  have old: "machine_key ?a0 \<in> set (node_keys (v_heap sample_view) (v_nodes sample_view))"
    using keys [of init_view] frame_heap_step [OF v0, of sample_gfx 800 500]
    by (simp add: sample_view_def frame_keeps heap_step_def moved_def)
  obtain a b where ab: "a \<in> set (v_nodes sample_view)" "b \<in> set (v_nodes ?v')"
    "g_key (v_heap ?v' ! b) = g_key (v_heap sample_view ! a)"
    using old keys [of sample_view] by auto
  from refresh_keeps_layout [OF sample_view_facts(1) refl, of sample_gfx sample_machines] ab show ?thesis by blast
qed

end
