(* ===== verification/Console.thy ===== *)
theory Console
  imports Views Topology_Gestures
begin

text \<open>
  \<^verbatim>\<open>frontend/src/App.jsx\<close>: the component that owns the selection and the search text, derives
  what is shown from the hook's data, and hands it to the table, the graph and the details
  panel. \<open>app\<close> is the state of the whole page; \<open>app_exec\<close> runs one event and the effects React
  runs after the render it causes.
\<close>

section \<open>State and derived values\<close>

record app =
  a_hook :: hook
  a_build :: build_hook
  a_view :: view
  a_selectedKey :: "jsstr option"
  a_search :: jsstr

definition machines_of :: "hook \<Rightarrow> machine list" where
  "machines_of hk = (case h_data hk of None \<Rightarrow> [] | Some d \<Rightarrow> pd_machines d)"

definition latestCollection_of :: "hook \<Rightarrow> collection_summary option" where
  "latestCollection_of hk = (case h_data hk of None \<Rightarrow> None | Some d \<Rightarrow> pd_latestCollection d)"

definition latestErrors_of :: "hook \<Rightarrow> collection_error list" where
  "latestErrors_of hk = (case h_data hk of None \<Rightarrow> [] | Some d \<Rightarrow> pd_latestErrors d)"

definition peer_texts :: "peer \<Rightarrow> jsstr option list" where
  "peer_texts p = [p_hostname p, p_ipv4 p, Some (nat_str (p_peer_id p))]"

definition instance_texts :: "net_instance \<Rightarrow> jsstr option list" where
  "instance_texts i =
     [Some (i_instance_id i), Option.bind (i_node i) n_hostname, Option.bind (i_node i) n_ipv4] @
     concat (map peer_texts (peers_of i))"

definition machine_texts :: "machine \<Rightarrow> jsstr option list" where
  "machine_texts m =
     [Some (m_machine_id m), m_hostname m, m_remote_url m] @ concat (map instance_texts (instances_of m))"

definition matches :: "js_env \<Rightarrow> jsstr \<Rightarrow> machine \<Rightarrow> bool" where
  "matches env q m = list_ex (\<lambda>t. js_includes q (to_lower env t)) (js_compact (machine_texts m))"

definition filtered :: "js_env \<Rightarrow> jsstr \<Rightarrow> machine list \<Rightarrow> machine list" where
  "filtered env search machines =
     (if js_trim search = [] then machines
      else filter (matches env (to_lower env (js_trim search))) machines)"

definition app_filtered :: "js_env \<Rightarrow> app \<Rightarrow> machine list" where
  "app_filtered env a = filtered env (a_search a) (machines_of (a_hook a))"

definition app_selected :: "app \<Rightarrow> selection option" where
  "app_selected a = resolveSelection (a_selectedKey a) (machines_of (a_hook a))"

definition collection_sub :: "collection_summary option \<Rightarrow> jsstr" where
  "collection_sub latest =
     (case latest of
        None \<Rightarrow> [0x7B49, 0x5F85, 0x91C7, 0x96C6]
      | Some c \<Rightarrow>
          (if c_status c = js ''complete'' then [0x5B8C, 0x6574]
           else if c_status c = js ''partial'' then [0x90E8, 0x5206] else c_status c) @
          (js '' '' @ [0xB7] @ js '' '') @ nat_str (c_error_count c) @ (js '' '' @ [0x9519, 0x8BEF]))"

definition freshness :: "js_env \<Rightarrow> collection_summary option \<Rightarrow> jsstr" where
  "freshness env latest =
     (case latest of
        None \<Rightarrow> [0x6682, 0x65E0, 0x6570, 0x636E]
      | Some c \<Rightarrow> relativeTime env (Some (new_date env (c_completed_at c))))"

definition stat_cards :: "js_env \<Rightarrow> app \<Rightarrow> ui list" where
  "stat_cards env a =
     (let ms = app_filtered env a;
          instances = concat (map instances_of ms);
          peers = concat (map peers_of instances);
          inactive = length (filter (\<lambda>m. \<not> m_active m) ms);
          direct = length (filter p_direct peers);
          latest = latestCollection_of (a_hook a)
      in [StatCard [0x8282, 0x70B9, 0x603B, 0x6570] (Some (nat_str (length ms))) (Some (nat_str inactive @ (js '' '' @ [0x975E, 0x6D3B, 0x8DC3]))) (Some ''blue''),
          StatCard [0x7F51, 0x7EDC, 0x5B9E, 0x4F8B] (Some (nat_str (length instances)))
            (Some (nat_str (length (filter (\<lambda>i. i_node i \<noteq> None) instances)) @ (js '' '' @ [0x542B, 0x8282, 0x70B9, 0x4FE1, 0x606F]))) (Some ''blue''),
          StatCard (js ''Peer '' @ [0x8DEF, 0x7531]) (Some (nat_str (length peers))) (Some (nat_str direct @ (js '' '' @ [0x76F4, 0x8FDE]))) (Some ''green''),
          StatCard [0x6570, 0x636E, 0x65B0, 0x9C9C, 0x5EA6] (Some (freshness env latest)) (Some (collection_sub latest)) (Some ''amber'')])"

definition graph_header :: "'a dom" where
  "graph_header =
     Elem ''div'' (cls ''graphHeader'') []
       [Elem ''div'' [] []
          [Elem ''p'' (cls ''eyebrow'') [] [Text [0x5B9E, 0x65F6, 0x63A7, 0x5236, 0x89C6, 0x56FE]],
           Elem ''h2'' (cls ''sectionTitle'') [] [Text [0x7F51, 0x7EDC, 0x62D3, 0x6251, 0x56FE]]],
        Elem ''div'' (cls ''legend'') []
          [Elem ''span'' [] [] [Elem ''i'' (cls ''dot mNode'') [] [], Text [0x8282, 0x70B9]],
           Elem ''span'' [] [] [Elem ''i'' (cls ''dot pNode'') [] [], Text (js ''Peer'')],
           Elem ''span'' [] [] [Elem ''i'' (cls ''lineD'') [] [], Text [0x76F4, 0x8FDE]],
           Elem ''span'' [] [] [Elem ''i'' (cls ''lineR'') [] [], Text [0x4E2D, 0x7EE7]]]]"

definition App :: "js_env \<Rightarrow> app \<Rightarrow> ui" where
  "App env a =
     (let hk = a_hook a; ms = app_filtered env a in
      Elem ''div'' (cls ''app'') []
        [Header env (h_status hk) (h_updatedAt hk) (bh_build (a_build a)),
         Elem ''main'' (cls ''main'') []
           [Elem ''div'' (cls ''statsRow'') [] (stat_cards env a),
            Toolbar (h_activeFilter hk) (h_interval hk) (h_loading hk) (a_search a),
            Elem ''div'' (cls ''workspace'') []
              [Elem ''div'' (cls ''graphCard'') [] [graph_header, map_dom DoGraph (TopologyGraph ms)],
               DetailsPanel env (app_selected a) (latestCollection_of hk) (latestErrors_of hk)],
            MachineTable env ms (a_selectedKey a) (has_more hk)]])"

section \<open>Events\<close>

text \<open>
  After a render, the effects of \<^verbatim>\<open>TopologyGraph\<close> run for the props that changed: the array of
  machines is a new one after a successful response and after a change of the search text,
  and it is a fresh empty array on every render while there is no data.
\<close>

definition select_key :: "jsstr option \<Rightarrow> app \<Rightarrow> app" where
  "select_key k a =
     (if k = a_selectedKey a then a
      else a\<lparr>a_selectedKey := k, a_view := selected_effect k (a_view a)\<rparr>)"

definition sync_machines :: "gfx \<Rightarrow> app \<Rightarrow> app" where
  "sync_machines g a = a\<lparr>a_view := machines_effect g (app_filtered (gx_env g) a) (a_view a)\<rparr>"

definition after_hook :: "gfx \<Rightarrow> bool \<Rightarrow> app \<Rightarrow> app" where
  "after_hook g new_data a = (if new_data \<or> h_data (a_hook a) = None then sync_machines g a else a)"

fun delivers_data :: "hook_event \<Rightarrow> bool" where
  "delivers_data (Respond k (Body json) now) = True"
| "delivers_data _ = False"

datatype app_event =
    HookEvent hook_event
  | FilterSelected jsstr
  | SearchTyped jsstr
  | SelectClicked jsstr
  | ViewEvent view_event
  | BuildEvent build_event

text \<open>The mounted page: both hooks have started, and the graph's effects have run once.\<close>

definition mounted_app :: "gfx \<Rightarrow> app" where
  "mounted_app g =
     sync_machines g
       \<lparr>a_hook = mounted_hook, a_build = build_mount, a_view = selected_effect None init_view,
        a_selectedKey = None, a_search = []\<rparr>"

fun app_exec :: "gfx \<Rightarrow> app_event \<Rightarrow> app \<Rightarrow> app" where
  "app_exec g (HookEvent e) a = after_hook g (delivers_data e) (a\<lparr>a_hook := hook_exec e (a_hook a)\<rparr>)"
| "app_exec g (FilterSelected f) a =
     select_key None (after_hook g False (a\<lparr>a_hook := setActiveFilter f (a_hook a)\<rparr>))"
| "app_exec g (SearchTyped s) a =
     (if s = a_search a then a
      else if js_trim s = [] \<and> js_trim (a_search a) = [] \<and> h_data (a_hook a) \<noteq> None then a\<lparr>a_search := s\<rparr>
      else sync_machines g (a\<lparr>a_search := s\<rparr>))"
| "app_exec g (SelectClicked k) a = select_key (Some k) a"
| "app_exec g (ViewEvent e) a = a\<lparr>a_view := view_exec g e (a_view a)\<rparr>"
| "app_exec g (BuildEvent e) a = a\<lparr>a_build := build_exec e (a_build a)\<rparr>"

text \<open>
  What can happen: the hook's own events other than a filter change (which goes through the
  toolbar's handler), a click on a table row or on a node on the screen, and the view's
  browser events; the props of the view change only through the page.
\<close>

definition clickable :: "js_env \<Rightarrow> app \<Rightarrow> jsstr list" where
  "clickable env a =
     map machine_key (app_filtered env a) @ map (\<lambda>n. node_click n (a_view a)) (v_drawn (a_view a))"

fun app_enabled :: "js_env \<Rightarrow> app_event \<Rightarrow> app \<Rightarrow> bool" where
  "app_enabled env (HookEvent (SetFilter f)) a \<longleftrightarrow> False"
| "app_enabled env (HookEvent e) a \<longleftrightarrow> hook_enabled e (a_hook a)"
| "app_enabled env (FilterSelected f) a \<longleftrightarrow> f \<in> set filter_options"
| "app_enabled env (SearchTyped s) a \<longleftrightarrow> True"
| "app_enabled env (SelectClicked k) a \<longleftrightarrow> k \<in> set (clickable env a)"
| "app_enabled env (ViewEvent (SelectedChanged k)) a \<longleftrightarrow> False"
| "app_enabled env (ViewEvent (MachinesChanged ms)) a \<longleftrightarrow> False"
| "app_enabled env (ViewEvent Unmount) a \<longleftrightarrow> False"
| "app_enabled env (ViewEvent e) a \<longleftrightarrow> view_enabled e (a_view a)"
| "app_enabled env (BuildEvent e) a \<longleftrightarrow> build_enabled e (a_build a)"

section \<open>The graph follows the data\<close>

definition node_face :: "gnode \<Rightarrow> jsstr \<times> node_type \<times> bool option \<times> jsstr \<times> jsstr \<times> jsnum option" where
  "node_face n = (g_key n, g_type n, g_active n, g_label n, g_sub n, g_latency n)"

definition item_face :: "item \<Rightarrow> jsstr \<times> node_type \<times> bool option \<times> jsstr \<times> jsstr \<times> jsnum option" where
  "item_face x = node_face (item_node (\<lambda>_. 0) 0 x)"

text \<open>\<open>graph_shows v ms\<close>: up to the layout, the view's graph is the graph of \<open>ms\<close>.\<close>

definition graph_shows :: "view \<Rightarrow> machine list \<Rightarrow> bool" where
  "graph_shows v ms \<longleftrightarrow>
     map (\<lambda>a. node_face (v_heap v ! a)) (v_nodes v) = map item_face (firsts item_key [] (items ms)) \<and>
     v_edges v = concat (map item_edges (firsts item_key [] (items ms)))"

lemma item_face_any: "node_face (item_node rs k x) = item_face x"
  by (cases x) (simp_all add: item_face_def node_face_def machine_node_def peer_node_def)

lemma map_number_nodes_face: "map node_face (number_nodes rs k xs) = map item_face xs"
  by (induction xs arbitrary: k) (simp_all add: item_face_any)

lemma keep_position_face [simp]: "node_face (keep_position h nodes n) = node_face n"
  by (simp add: keep_position_def node_face_def split: option.splits)

lemma machines_effect_shows: "graph_shows (machines_effect g ms v) ms"
proof -
  let ?ns = "b_nodes (buildGraph (gx_random g) (v_calls v) ms)"
  have "map (\<lambda>a. node_face (v_heap (machines_effect g ms v) ! a)) (v_nodes (machines_effect g ms v)) = map node_face ?ns"
    using map_nth_append_upt [of node_face "v_heap v" "map (keep_position (v_heap v) (v_nodes v)) ?ns"]
    by (simp add: machines_effect_simps comp_def)
  also have "\<dots> = map item_face (firsts item_key [] (items ms))"
    by (simp add: buildGraph_eq Let_def map_number_nodes_face)
  finally show ?thesis
    by (simp add: graph_shows_def machines_effect_def Let_def buildGraph_eq)
qed

lemma graph_shows_faces:
  assumes "graph_shows v ms" and "v_nodes v' = v_nodes v" and "v_edges v' = v_edges v"
    and "\<And>a. node_face (v_heap v' ! a) = node_face (v_heap v ! a)"
  shows "graph_shows v' ms"
  using assms by (simp add: graph_shows_def)

fun browser_event :: "view_event \<Rightarrow> bool" where
  "browser_event (SelectedChanged k) = False"
| "browser_event (MachinesChanged ms) = False"
| "browser_event Unmount = False"
| "browser_event _ = True"

lemma node_face_update:
  "node_face n = node_face (h ! a) \<Longrightarrow> node_face (h[a := n] ! b) = node_face (h ! b)"
  by (rule nth_update_same) simp

lemma frame_more_keeps:
  "v_edges (frame g w y v) = v_edges v" "v_selectedKey (frame g w y v) = v_selectedKey v"
  by (auto simp: frame_def render_def Let_def split: prod.splits)

lemma browser_event_keeps:
  assumes "view_inv v" and "browser_event e"
  shows "v_nodes (view_exec g e v) = v_nodes v \<and> v_edges (view_exec g e v) = v_edges v \<and>
    v_selectedKey (view_exec g e v) = v_selectedKey v \<and> v_stopped (view_exec g e v) = v_stopped v \<and>
    (\<forall>a. node_face (v_heap (view_exec g e v) ! a) = node_face (v_heap v ! a))"
proof (cases e)
  case (Frame w y)
  with frame_heap_step [OF assms(1), of g w y] show ?thesis
    by (simp add: frame_keeps frame_more_keeps heap_step_def moved_def node_face_def)
next
  case (Control c)
  then show ?thesis by (cases c) (simp_all add: applyZoom_def resetView_def)
next
  case (PointerMove x y)
  then show ?thesis
    by (auto simp: onPointerMove_def split: option.splits intro!: node_face_update) (simp_all add: node_face_def)
next
  case PointerUp
  then show ?thesis
    by (auto simp: onPointerUp_def Let_def split: option.splits intro!: node_face_update) (simp_all add: node_face_def)
next
  case (NodeDown a x y)
  then show ?thesis
    by (auto simp: node_pointerdown_def intro!: node_face_update) (simp_all add: node_face_def)
qed (use assms(2) in \<open>simp_all add: onWheel_def onPointerDown_def\<close>)

section \<open>Invariant\<close>

definition app_inv :: "js_env \<Rightarrow> app \<Rightarrow> bool" where
  "app_inv env a \<longleftrightarrow>
     hook_inv (a_hook a) \<and> build_inv (a_build a) \<and> view_inv (a_view a) \<and> \<not> v_stopped (a_view a) \<and>
     v_selectedKey (a_view a) = a_selectedKey a \<and> graph_shows (a_view a) (app_filtered env a)"

lemma selected_effect_inv: "view_inv v \<Longrightarrow> view_inv (selected_effect k v)"
  by (simp add: view_inv_def selected_effect_def)

lemma select_key_inv: "app_inv env a \<Longrightarrow> app_inv env (select_key k a)"
  unfolding app_inv_def select_key_def
  by (auto simp: selected_effect_inv app_filtered_def) (simp_all add: selected_effect_def graph_shows_def)

lemma machines_effect_keeps:
  "v_stopped (machines_effect g ms v) = v_stopped v" "v_selectedKey (machines_effect g ms v) = v_selectedKey v"
  by (simp_all add: machines_effect_def Let_def)

lemma sync_machines_inv:
  assumes "hook_inv (a_hook a)" and "build_inv (a_build a)" and "view_inv (a_view a)"
    and "\<not> v_stopped (a_view a)" and "v_selectedKey (a_view a) = a_selectedKey a"
  shows "app_inv (gx_env g) (sync_machines g a)"
proof -
  have "app_filtered (gx_env g) (sync_machines g a) = app_filtered (gx_env g) a"
    by (simp add: app_filtered_def sync_machines_def)
  with assms show ?thesis
    by (simp add: app_inv_def sync_machines_def machines_effect_inv machines_effect_keeps machines_effect_shows)
qed

lemma after_hook_inv:
  assumes "app_inv (gx_env g) a" and "hook_inv hk" and "nd \<or> h_data hk = None \<or> h_data hk = h_data (a_hook a)"
  shows "app_inv (gx_env g) (after_hook g nd (a\<lparr>a_hook := hk\<rparr>))"
proof (cases "nd \<or> h_data hk = None")
  case True
  then have "after_hook g nd (a\<lparr>a_hook := hk\<rparr>) = sync_machines g (a\<lparr>a_hook := hk\<rparr>)"
    by (simp add: after_hook_def)
  moreover have "app_inv (gx_env g) (sync_machines g (a\<lparr>a_hook := hk\<rparr>))"
    by (rule sync_machines_inv) (use assms(1,2) in \<open>simp_all add: app_inv_def\<close>)
  ultimately show ?thesis by simp
next
  case False
  then have "h_data hk = h_data (a_hook a)" and "after_hook g nd (a\<lparr>a_hook := hk\<rparr>) = a\<lparr>a_hook := hk\<rparr>"
    using assms(3) by (auto simp: after_hook_def)
  with assms(1,2) show ?thesis
    by (simp add: app_inv_def app_filtered_def machines_of_def)
qed

lemma fetchPage_begin_data [simp]: "h_data (fetchPage_begin b hk) = h_data hk"
  by (simp add: fetchPage_begin_def)

lemma polling_effect_data [simp]: "h_data (polling_effect hk) = h_data hk"
  by (simp add: polling_effect_def Let_def refresh_def)

lemma setActiveFilter_data: "h_data (setActiveFilter f hk) = h_data hk"
  by (simp add: setActiveFilter_def reset_effect_def)

lemma hook_exec_data: "delivers_data e \<or> h_data (hook_exec e hk) = h_data hk"
proof (cases e)
  case (Respond k res now)
  then show ?thesis by (cases res) (simp_all add: respond_def fetchPage_complete_def fetchPage_failed_def)
qed (simp_all add: setActiveFilter_data setIntervalMs_def refresh_def loadMore_def)

lemma app_exec_inv:
  assumes "app_inv (gx_env g) a" and "app_enabled (gx_env g) e a"
  shows "app_inv (gx_env g) (app_exec g e a)"
proof (cases e)
  case (HookEvent ev)
  then have "hook_enabled ev (a_hook a)" using assms(2) by (cases ev) simp_all
  then have "hook_inv (hook_exec ev (a_hook a))" using assms(1) by (simp add: app_inv_def hook_exec_inv)
  from after_hook_inv [OF assms(1) this, of "delivers_data ev"] hook_exec_data [of ev "a_hook a"] HookEvent
  show ?thesis by auto
next
  case (FilterSelected f)
  have "hook_inv (hook_exec (SetFilter f) (a_hook a))"
    using assms FilterSelected by (intro hook_exec_inv) (simp_all add: app_inv_def)
  with FilterSelected show ?thesis
    using after_hook_inv [OF assms(1)] by (simp add: select_key_inv setActiveFilter_data)
next
  case (SearchTyped s)
  have "app_inv (gx_env g) (sync_machines g (a\<lparr>a_search := s\<rparr>))"
    by (rule sync_machines_inv) (use assms(1) in \<open>simp_all add: app_inv_def\<close>)
  moreover have "app_inv (gx_env g) (a\<lparr>a_search := s\<rparr>)" if "js_trim s = []" and "js_trim (a_search a) = []"
    using assms(1) that by (simp add: app_inv_def app_filtered_def filtered_def)
  ultimately show ?thesis using SearchTyped assms(1) by simp
next
  case (SelectClicked k)
  with assms(1) show ?thesis by (simp add: select_key_inv)
next
  case (ViewEvent ev)
  have v: "view_inv (a_view a)" using assms(1) by (simp add: app_inv_def)
  have ev: "browser_event ev" "view_enabled ev (a_view a)" using assms(2) ViewEvent by (cases ev; simp)+
  note keep = browser_event_keeps [OF v ev(1), of g]
  have "graph_shows (view_exec g ev (a_view a)) (app_filtered (gx_env g) a)"
    by (rule graph_shows_faces [of "a_view a"]) (use assms(1) keep in \<open>simp_all add: app_inv_def\<close>)
  with ViewEvent assms(1) keep show ?thesis
    by (simp add: app_inv_def app_filtered_def view_exec_inv [OF v ev(2)])
next
  case (BuildEvent ev)
  with assms show ?thesis
    by (simp add: app_inv_def app_filtered_def build_hook.inv_step)
qed

lemma mounted_app_inv: "app_inv (gx_env g) (mounted_app g)"
  unfolding mounted_app_def
  by (rule sync_machines_inv) (simp_all add: mounted_hook_inv build_hook.inv_start selected_effect_inv init_view_inv,
      simp_all add: selected_effect_def init_view_def)

interpretation console: safe_component "app_enabled (gx_env g)" "app_exec g" "mounted_app g" "app_inv (gx_env g)" for g
  by unfold_locales (auto intro: mounted_app_inv app_exec_inv)

text \<open>
  C1. The page is consistent in every state it can reach, for every order of user actions,
  responses, timer ticks and frames: the hooks and the view satisfy their invariants, the
  graph highlights the key the page has selected, and, up to the layout, the graph on the
  canvas is exactly the graph of the machines the page shows, labels and edges included.
\<close>

theorem console_consistent:
  assumes "reachable (app_enabled (gx_env g)) (app_exec g) (mounted_app g) a"
  shows "app_inv (gx_env g) a"
  using assms by (rule console.inv_reachable)

section \<open>From a click to the details\<close>

lemma filtered_subset: "set (filtered env s ms) \<subseteq> set ms"
  by (auto simp: filtered_def)

lemma item_resolves:
  assumes "plain_ids ms" and "unique_ids ms" and "x \<in> set (items ms')" and "set ms' \<subseteq> set ms"
    and "node_face n = item_face x"
  shows "\<exists>sel. resolveSelection (Some (g_key n)) ms = Some sel \<and> shows_selection n sel"
proof (cases x)
  case (IMachine m)
  then have "m \<in> set ms" using assms(3,4) by (auto simp: set_items)
  moreover have "g_key n = machine_key m" "g_type n = MachineNode" "g_label n = machine_label m"
    "g_active n = Some (m_active m)"
    using assms(5) IMachine by (simp_all add: node_face_def item_face_def machine_node_def)
  ultimately show ?thesis
    using resolve_own_machine [OF assms(1,2)] by (auto simp: shows_selection_def)
next
  case (IPeer m i p)
  then have "m \<in> set ms" "i \<in> set (instances_of m)" "p \<in> set (peers_of i)"
    using assms(3,4) by (auto simp: set_items)
  moreover have "g_key n = peer_key i p" "g_type n = PeerNode" "g_label n = peer_label p"
    "g_latency n = p_latency_ms p"
    using assms(5) IPeer by (simp_all add: node_face_def item_face_def peer_node_def)
  ultimately show ?thesis
    using resolve_own_peer [OF assms(1,2)] by (auto simp: shows_selection_def)
qed

lemma graph_shows_node:
  assumes "graph_shows v ms" and "n \<in> set (v_nodes v)"
  obtains x where "x \<in> set (items ms)" and "node_face (v_heap v ! n) = item_face x"
proof -
  have "node_face (v_heap v ! n) \<in> set (map (\<lambda>a. node_face (v_heap v ! a)) (v_nodes v))"
    using assms(2) by simp
  then have "node_face (v_heap v ! n) \<in> item_face ` set (firsts item_key [] (items ms))"
    using assms(1) unfolding graph_shows_def by (metis list.set_map)
  then show thesis
    using firsts_subset [of item_key "[]" "items ms"] that by auto
qed

text \<open>
  C2. Clicking a node opens its details. In every reachable state of the page whose data has
  unique, colon-free identifiers, a click on a node of the graph selects an entity of the
  current data, also when a search hides part of it; the details panel gets the machine or
  peer whose label and state the node shows, and the graph highlights exactly that key.
\<close>

theorem console_click_resolves:
  assumes "reachable (app_enabled (gx_env g)) (app_exec g) (mounted_app g) a"
    and "plain_ids (machines_of (a_hook a))" and "unique_ids (machines_of (a_hook a))"
    and "n \<in> set (v_nodes (a_view a))"
    and "a' = app_exec g (SelectClicked (node_click n (a_view a))) a"
  shows "\<exists>sel. app_selected a' = Some sel \<and> shows_selection (v_heap (a_view a) ! n) sel \<and>
    v_selectedKey (a_view a') = Some (g_key (v_heap (a_view a) ! n))"
proof -
  have inv: "app_inv (gx_env g) a" using assms(1) by (rule console.inv_reachable)
  then obtain x where x: "x \<in> set (items (app_filtered (gx_env g) a))"
      and face: "node_face (v_heap (a_view a) ! n) = item_face x"
    using assms(4) by (auto simp: app_inv_def elim: graph_shows_node)
  have sub: "set (app_filtered (gx_env g) a) \<subseteq> set (machines_of (a_hook a))"
    unfolding app_filtered_def by (rule filtered_subset)
  obtain sel where "resolveSelection (Some (g_key (v_heap (a_view a) ! n))) (machines_of (a_hook a)) = Some sel"
      and "shows_selection (v_heap (a_view a) ! n) sel"
    using item_resolves [OF assms(2,3) x sub face] by blast
  moreover have "a_hook a' = a_hook a" "a_selectedKey a' = Some (g_key (v_heap (a_view a) ! n))"
    by (simp_all add: assms(5) select_key_def node_click_def)
  moreover have "v_selectedKey (a_view a') = a_selectedKey a'"
    using select_key_inv [OF inv] by (simp add: assms(5) app_inv_def)
  ultimately show ?thesis by (auto simp: app_selected_def)
qed

section \<open>Search and counters\<close>

text \<open>
  The search finds exactly what it says: the machines on show are the loaded ones, in order,
  for which the lower-cased trimmed search text occurs in a lower-cased, non-empty field of
  the machine, of one of its instances or of one of their peers; a blank search shows all.
\<close>

theorem search_exact:
  "\<exists>P. filtered env s ms = filter P ms \<and>
     (\<forall>m. P m \<longleftrightarrow> js_trim s = [] \<or>
        (\<exists>t u v. Some t \<in> set (machine_texts m) \<and> t \<noteq> [] \<and>
           to_lower env t = u @ to_lower env (js_trim s) @ v))"
proof (cases "js_trim s = []")
  case True
  then show ?thesis by (intro exI [of _ "\<lambda>_. True"]) (simp add: filtered_def)
next
  case False
  have "matches env q m \<longleftrightarrow>
      (\<exists>t u v. Some t \<in> set (machine_texts m) \<and> t \<noteq> [] \<and> to_lower env t = u @ q @ v)" for q m
    by (auto simp: matches_def list_ex_iff set_js_compact js_includes_iff)
  with False show ?thesis
    by (intro exI [of _ "matches env (to_lower env (js_trim s))"]) (simp add: filtered_def)
qed

fun item_id :: "item \<Rightarrow> jsstr + jsstr \<times> nat" where
  "item_id (IMachine m) = Inl (m_machine_id m)"
| "item_id (IPeer m i p) = Inr (i_instance_id i, p_peer_id p)"

lemma items_Cons:
  "items (m # ms) = IMachine m # concat (map (\<lambda>i. map (IPeer m i) (peers_of i)) (instances_of m)) @ items ms"
  by (simp add: items_def machine_items_def)

lemma items_Nil: "items [] = []"
  by (simp add: items_def)

lemma item_ids_split:
  "filter isl (map item_id (items ms)) = map (Inl \<circ> m_machine_id) ms"
  "filter (Not \<circ> isl) (map item_id (items ms)) = map (Inr \<circ> triple_ids) (peer_triples ms)"
proof (induction ms)
  case (Cons m ms)
  let ?ps = "concat (map (\<lambda>i. map (IPeer m i) (peers_of i)) (instances_of m))"
  have "map item_id ?ps = map (Inr \<circ> triple_ids) (concat (map (\<lambda>i. map (\<lambda>p. (p, i, m)) (peers_of i)) (instances_of m)))"
    by (simp add: map_concat comp_def triple_ids_def)
  then have "filter isl (map item_id ?ps) = []"
    and "filter (Not \<circ> isl) (map item_id ?ps) =
      map (Inr \<circ> triple_ids) (concat (map (\<lambda>i. map (\<lambda>p. (p, i, m)) (peers_of i)) (instances_of m)))"
    by (simp_all add: filter_empty_conv filter_id_conv)
  with Cons.IH show "filter isl (map item_id (items (m # ms))) = map (Inl \<circ> m_machine_id) (m # ms)"
    and "filter (Not \<circ> isl) (map item_id (items (m # ms))) = map (Inr \<circ> triple_ids) (peer_triples (m # ms))"
    by (simp_all only: items_Cons list.map map_append filter_append filter.simps item_id.simps sum.disc comp_def
        simp_thms if_True if_False append_Nil peer_triples_simps)
qed (simp_all add: items_Nil)

lemma distinct_filter_split: "distinct (filter P xs) \<Longrightarrow> distinct (filter (Not \<circ> P) xs) \<Longrightarrow> distinct xs"
proof (induction xs)
  case (Cons x xs)
  then show ?case by (cases "P x") simp_all
qed simp

fun item_plain :: "item \<Rightarrow> bool" where
  "item_plain (IMachine m) \<longleftrightarrow> True"
| "item_plain (IPeer m i p) \<longleftrightarrow> colon \<notin> set (i_instance_id i)"

lemma item_key_id: "item_plain x \<Longrightarrow> item_plain y \<Longrightarrow> item_key x = item_key y \<Longrightarrow> item_id x = item_id y"
  by (cases x; cases y) (simp_all add: peer_key_eq_iff)

lemma distinct_item_keys:
  assumes "plain_ids ms" and "unique_ids ms"
  shows "distinct (map item_key (items ms))"
proof -
  have "distinct (map item_id (items ms))"
  proof (rule distinct_filter_split)
    show "distinct (filter isl (map item_id (items ms)))"
      using assms(2) unfolding item_ids_split by (simp add: unique_ids_def distinct_map inj_on_def)
    show "distinct (filter (Not \<circ> isl) (map item_id (items ms)))"
      using distinct_triple_ids [OF assms(2)] unfolding item_ids_split by (simp add: distinct_map inj_on_def)
  qed
  moreover have "item_plain x" if "x \<in> set (items ms)" for x
  proof (cases x)
    case (IPeer m i p)
    with that show ?thesis using plain_idsD(2) [OF assms(1), of m i] by (simp add: set_items)
  qed simp
  ultimately show ?thesis
    unfolding distinct_map inj_on_def using item_key_id by blast
qed

lemma firsts_distinct: "distinct (map key xs) \<Longrightarrow> key ` set xs \<inter> set seen = {} \<Longrightarrow> firsts key seen xs = xs"
  by (induction xs arbitrary: seen) auto

lemma unique_ids_filter:
  assumes "unique_ids ms"
  shows "unique_ids (filter P ms)"
proof -
  have "distinct (map i_instance_id (all_instances (filter P ms)))"
    if "distinct (map i_instance_id (all_instances ms))"
    using that by (induction ms) (auto simp: all_instances_def)
  with assms show ?thesis
    using all_instances_filter [of P ms] by (auto simp: unique_ids_def list_all_iff distinct_map_filter)
qed

lemma length_peer_edges:
  "length (concat (map item_edges (concat (map (\<lambda>i. map (IPeer m i) (peers_of i)) is)))) =
     length (concat (map peers_of is))"
  by (induction "is") (simp_all add: comp_def)

lemma items_counts:
  "length (filter (\<lambda>x. fst (snd (item_face x)) = MachineNode) (items ms)) = length ms"
  "length (concat (map item_edges (items ms))) = length (concat (map peers_of (concat (map instances_of ms))))"
proof (induction ms)
  case (Cons m ms)
  let ?ps = "concat (map (\<lambda>i. map (IPeer m i) (peers_of i)) (instances_of m))"
  have "filter (\<lambda>x. fst (snd (item_face x)) = MachineNode) ?ps = []"
    by (auto simp: filter_empty_conv item_face_def node_face_def peer_node_def)
  moreover have "length (concat (map item_edges ?ps)) = length (concat (map peers_of (instances_of m)))"
    by (rule length_peer_edges)
  ultimately show "length (filter (\<lambda>x. fst (snd (item_face x)) = MachineNode) (items (m # ms))) = length (m # ms)"
    and "length (concat (map item_edges (items (m # ms)))) = length (concat (map peers_of (concat (map instances_of (m # ms)))))"
    using Cons.IH by (simp_all add: items_Cons item_face_def node_face_def machine_node_def)
qed (simp_all add: items_Nil)

text \<open>
  C40. The counters agree with the picture. In every reachable state of the page whose data has
  unique, colon-free identifiers, the first card counts the machine nodes of the graph and
  the third the lines, also while a search is active.
\<close>

theorem counters_match_graph:
  assumes "reachable (app_enabled (gx_env g)) (app_exec g) (mounted_app g) a"
    and "plain_ids (machines_of (a_hook a))" and "unique_ids (machines_of (a_hook a))"
  shows "dom_text (dom_children (stat_cards (gx_env g) a ! 0) ! 1) =
      nat_str (length (filter (\<lambda>n. g_type (v_heap (a_view a) ! n) = MachineNode) (v_nodes (a_view a)))) \<and>
    dom_text (dom_children (stat_cards (gx_env g) a ! 2) ! 1) = nat_str (length (v_edges (a_view a)))"
proof -
  let ?ms = "app_filtered (gx_env g) a"
  have ids: "plain_ids ?ms" "unique_ids ?ms"
    using assms(2,3) by (simp_all add: app_filtered_def filtered_def plain_ids_filter unique_ids_filter)
  have items: "firsts item_key [] (items ?ms) = items ?ms"
    by (rule firsts_distinct) (simp_all add: distinct_item_keys [OF ids])
  have shows_g: "graph_shows (a_view a) ?ms"
    using console.inv_reachable [OF assms(1)] by (simp add: app_inv_def)
  have "length (filter (\<lambda>f. fst (snd f) = MachineNode) (map (\<lambda>n. node_face (v_heap (a_view a) ! n)) (v_nodes (a_view a)))) =
      length (filter (\<lambda>f. fst (snd f) = MachineNode) (map item_face (items ?ms)))"
    using shows_g by (simp only: graph_shows_def items)
  then have "length (filter (\<lambda>n. g_type (v_heap (a_view a) ! n) = MachineNode) (v_nodes (a_view a))) = length ?ms"
    by (simp add: filter_map comp_def items_counts) (simp add: node_face_def)
  moreover have "length (v_edges (a_view a)) = length (concat (map peers_of (concat (map instances_of ?ms))))"
    using shows_g by (simp add: graph_shows_def items items_counts)
  ultimately show ?thesis
    by (simp add: stat_cards_def Let_def StatCard_def numeral_2_eq_2)
qed

text \<open>
  The toolbar offers exactly the values the hook is driven with: the filter and the interval
  selectors list the options the polling logic expects, and the refresh button is disabled
  exactly while loading.
\<close>

theorem toolbar_options:
  "map (dom_attr ''value'') (with_tag ''option'' [Toolbar f n loading s]) =
     map Some (filter_options @ map nat_str interval_options) \<and>
   map (dom_attr ''disabled'') (with_tag ''button'' [Toolbar f n loading s]) = [if loading then Some [] else None]"
  by (simp add: Toolbar_def option_el_def filter_options_def interval_options_def)

section \<open>A page with data\<close>

definition sample_app :: app where
  "sample_app =
     run_events (app_exec sample_gfx)
       [HookEvent (Respond 0 (Body (sample_page sample_machines None)) 5)] (mounted_app sample_gfx)"

lemma sample_app_facts:
  "reachable (app_enabled (gx_env sample_gfx)) (app_exec sample_gfx) (mounted_app sample_gfx) sample_app"
  "machines_of (a_hook sample_app) = sample_machines" "v_nodes (a_view sample_app) \<noteq> []"
proof -
  have one: "length (h_inflight (a_hook (mounted_app sample_gfx))) = 1"
    by (simp add: mounted_app_def sync_machines_def sample_hook_facts)
  show r: "reachable (app_enabled (gx_env sample_gfx)) (app_exec sample_gfx) (mounted_app sample_gfx) sample_app"
    unfolding sample_app_def by (rule reachable_run [OF reachable.start]) (simp add: one)
  show ms: "machines_of (a_hook sample_app) = sample_machines"
    by (simp add: sample_app_def after_hook_def sync_machines_def mounted_app_def mount_defs effect_defs
        fetch_defs Let_def machines_of_def sample_page_def)
  have "a_search sample_app = []"
    by (simp add: sample_app_def after_hook_def sync_machines_def mounted_app_def)
  then have "app_filtered (gx_env sample_gfx) sample_app = sample_machines"
    by (simp add: app_filtered_def filtered_def js_trim_def ms)
  then have "graph_shows (a_view sample_app) sample_machines"
    using console.inv_reachable [OF r] by (simp add: app_inv_def)
  moreover have "firsts item_key [] (items sample_machines) \<noteq> []"
    by (simp add: sample_machines_def items_Cons)
  ultimately show "v_nodes (a_view sample_app) \<noteq> []"
    by (auto simp: graph_shows_def)
qed

theorem console_consistent_witness:
  "app_inv (gx_env sample_gfx) sample_app \<and> machines_of (a_hook sample_app) = sample_machines"
  using console_consistent [OF sample_app_facts(1)] sample_app_facts(2) by blast

theorem console_click_resolves_witness:
  "\<exists>n sel. n \<in> set (v_nodes (a_view sample_app)) \<and>
     app_selected (app_exec sample_gfx (SelectClicked (node_click n (a_view sample_app))) sample_app) = Some sel"
proof -
  obtain n where n: "n \<in> set (v_nodes (a_view sample_app))"
    using sample_app_facts(3) by (meson list.set_sel(1))
  have "plain_ids (machines_of (a_hook sample_app))" "unique_ids (machines_of (a_hook sample_app))"
    unfolding sample_app_facts(2) by (rule sample_ids)+
  from console_click_resolves [OF sample_app_facts(1) this n refl] n show ?thesis by blast
qed

theorem counters_match_graph_witness:
  "dom_text (dom_children (stat_cards (gx_env sample_gfx) sample_app ! 2) ! 1) =
     nat_str (length (v_edges (a_view sample_app)))"
proof -
  have "plain_ids (machines_of (a_hook sample_app))" "unique_ids (machines_of (a_hook sample_app))"
    unfolding sample_app_facts(2) by (rule sample_ids)+
  from counters_match_graph [OF sample_app_facts(1) this] show ?thesis by blast
qed

end
