(* ===== verification/Go_Base.thy ===== *)
theory Go_Base
  imports Prelude
begin

text \<open>
  What the controller uses of the Go language and its standard library: byte strings, decimal
  numbers (\<^verbatim>\<open>strconv\<close>), unpadded base64 (\<^verbatim>\<open>encoding/base64\<close>), and the parts of \<^verbatim>\<open>net\<close>, \<^verbatim>\<open>net/url\<close>
  and \<^verbatim>\<open>net/http\<close> that take text apart. Text that only travels through JSON is a \<open>jsstr\<close>; where the
  code works on the bytes of a string, it is a \<open>bytes\<close>. The round trips that the clients rest on
  are proved here.
\<close>

section \<open>Results and numbers\<close>

type_synonym 'a result = "jsstr + 'a"

text \<open>\<^verbatim>\<open>strconv.ParseUint(s, 10, 64)\<close>\<close>

definition parse_uint :: "jsstr \<Rightarrow> nat result" where
  "parse_uint s =
     (if s = [] \<or> list_ex (\<lambda>c. unat c < 48 \<or> 57 < unat c) s
      then Inl (js ''strconv.ParseUint: parsing '' @ s @ js '': invalid syntax'')
      else if 2 ^ 64 \<le> digits_val s
      then Inl (js ''strconv.ParseUint: parsing '' @ s @ js '': value out of range'')
      else Inr (digits_val s))"

text \<open>\<^verbatim>\<open>strconv.ParseBool\<close> and \<^verbatim>\<open>strconv.Atoi\<close>\<close>

definition parse_bool :: "jsstr \<Rightarrow> bool option" where
  "parse_bool s =
     (if s \<in> set (map js [''1'', ''t'', ''T'', ''TRUE'', ''true'', ''True'']) then Some True
      else if s \<in> set (map js [''0'', ''f'', ''F'', ''FALSE'', ''false'', ''False'']) then Some False
      else None)"

definition atoi :: "jsstr \<Rightarrow> int option" where
  "atoi s =
     (let neg = (js_nth s 0 = Some 0x2D);
          ds = (if neg \<or> js_nth s 0 = Some 0x2B then tl s else s);
          n = (if neg then - int (digits_val ds) else int (digits_val ds))
      in if ds = [] \<or> list_ex (\<lambda>c. unat c < 48 \<or> 57 < unat c) ds \<or> n < - (2 ^ 63) \<or> 2 ^ 63 \<le> n then None
         else Some n)"

lemma parse_uint_nat_str: "n < 2 ^ 64 \<Longrightarrow> parse_uint (nat_str n) = Inr n"
proof -
  assume n: "n < 2 ^ 64"
  have "\<not> (unat c < 48 \<or> 57 < unat c)" if "c \<in> set (nat_str n)" for c
    using set_nat_str [OF that] by auto
  then have "\<not> list_ex (\<lambda>c. unat c < 48 \<or> 57 < unat c) (nat_str n)"
    unfolding list_ex_iff by blast
  with n show ?thesis by (simp add: parse_uint_def)
qed

section \<open>Byte strings\<close>

type_synonym byte = "8 word"
type_synonym bytes = "byte list"

definition go :: "string \<Rightarrow> bytes" where
  "go s = map of_char s"

lemma go_Nil [simp]: "go [] = []"
  by (simp add: go_def)

lemma go_Cons [simp]: "go (c # cs) = of_char c # go cs"
  by (simp add: go_def)

text \<open>Decimal text as bytes: \<^verbatim>\<open>strconv.FormatInt(i, 10)\<close> and \<^verbatim>\<open>strconv.ParseInt(s, 10, 64)\<close>.\<close>

definition narrow :: "jsstr \<Rightarrow> bytes" where
  "narrow s = map ucast s"

definition widen :: "bytes \<Rightarrow> jsstr" where
  "widen s = map ucast s"

definition FormatInt :: "int \<Rightarrow> bytes" where
  "FormatInt i = narrow (int_str i)"

definition ParseInt :: "bytes \<Rightarrow> int option" where
  "ParseInt s = atoi (widen s)"

lemma widen_narrow: "(\<And>c. c \<in> set s \<Longrightarrow> unat c < 256) \<Longrightarrow> widen (narrow s) = s"
proof (induction s)
  case (Cons c cs)
  then have "unat c < 256" by simp
  then have "(ucast (ucast c :: byte) :: code_unit) = c"
    by (intro word_unat_eq_iff [THEN iffD2]) (simp add: unsigned_ucast_eq take_bit_eq_mod unat_mod)
  with Cons show ?case by (simp add: widen_def narrow_def)
qed (simp add: widen_def narrow_def)

lemma set_int_str: "c \<in> set (int_str i) \<Longrightarrow> c = 0x2D \<or> 48 \<le> unat c \<and> unat c \<le> 57"
  using set_nat_str by (auto simp: int_str_def split: if_splits)

lemma atoi_nat_str:
  "n < 2 ^ 63 \<Longrightarrow> atoi (nat_str n) = Some (int n)"
  "n \<le> 2 ^ 63 \<Longrightarrow> atoi (js ''-'' @ nat_str n) = Some (- int n)"
proof -
  obtain c cs where n: "nat_str n = c # cs" by (meson nat_str_nonempty neq_Nil_conv)
  then have c: "c \<noteq> 0x2D" "c \<noteq> 0x2B" using set_nat_str [of c n] by auto
  have ok: "\<not> list_ex (\<lambda>c. unat c < 48 \<or> 57 < unat c) (nat_str n)"
    using set_nat_str [of _ n] by (force simp: list_ex_iff)
  show "atoi (nat_str n) = Some (int n)" if "n < 2 ^ 63"
  proof -
    have "int n < 2 ^ 63" using that by (metis of_nat_less_iff of_nat_numeral of_nat_power)
    moreover have "js_nth (nat_str n) 0 = Some c" by (simp add: n)
    ultimately show ?thesis using c ok by (simp add: atoi_def Let_def)
  qed
  show "atoi (js ''-'' @ nat_str n) = Some (- int n)" if "n \<le> 2 ^ 63"
  proof -
    have "int n \<le> 2 ^ 63" using that by (metis of_nat_le_iff of_nat_numeral of_nat_power)
    then show ?thesis using ok by (simp add: atoi_def Let_def)
  qed
qed

text \<open>An integer of 64 bits.\<close>

definition int64 :: "int \<Rightarrow> bool" where
  "int64 i \<longleftrightarrow> - (2 ^ 63) \<le> i \<and> i < 2 ^ 63"

lemma ParseInt_FormatInt: "int64 i \<Longrightarrow> ParseInt (FormatInt i) = Some i"
proof -
  assume i: "int64 i"
  have "unat c < 256" if "c \<in> set (int_str i)" for c
    using set_int_str [OF that] by auto
  then have "widen (narrow (int_str i)) = int_str i" by (rule widen_narrow)
  moreover have "atoi (int_str i) = Some i"
  proof (cases "i < 0")
    case True
    then have "nat (- i) \<le> 2 ^ 63" using i by (simp add: int64_def nat_le_iff)
    from atoi_nat_str(2) [OF this] True show ?thesis by (simp add: int_str_def)
  next
    case False
    then have "nat i < 2 ^ 63" using i by (simp add: int64_def nat_less_iff)
    from atoi_nat_str(1) [OF this] False show ?thesis by (simp add: int_str_def)
  qed
  ultimately show ?thesis by (simp add: ParseInt_def FormatInt_def)
qed

section \<open>Unpadded base64\<close>

text \<open>
  \<^verbatim>\<open>base64.RawURLEncoding\<close> and \<^verbatim>\<open>base64.RawStdEncoding\<close> differ in the last two letters of the
  alphabet. The decoder skips carriage returns and line feeds, fails on other bytes outside the
  alphabet and on a single left-over letter, and ignores the unused bits of the last letter.
\<close>

definition b64_common :: bytes where
  "b64_common = go ''ABCDEFGHIJKLMNOPQRSTUVWXYZabcdefghijklmnopqrstuvwxyz0123456789''"

definition url_alphabet :: bytes where
  "url_alphabet = b64_common @ go ''-_''"

definition std_alphabet :: bytes where
  "std_alphabet = b64_common @ go ''+/''"

fun sextets :: "bytes \<Rightarrow> nat list" where
  "sextets [] = []"
| "sextets [a] = (let n = unat a * 65536 in [n div 262144, n div 4096 mod 64])"
| "sextets [a, b] =
     (let n = unat a * 65536 + unat b * 256 in [n div 262144, n div 4096 mod 64, n div 64 mod 64])"
| "sextets (a # b # c # rest) =
     (let n = unat a * 65536 + unat b * 256 + unat c
      in n div 262144 # n div 4096 mod 64 # n div 64 mod 64 # n mod 64 # sextets rest)"

fun octets :: "nat list \<Rightarrow> bytes option" where
  "octets [] = Some []"
| "octets [v] = None"
| "octets [v, w] = (let n = v * 262144 + w * 4096 in Some [of_nat (n div 65536)])"
| "octets [v, w, x] =
     (let n = v * 262144 + w * 4096 + x * 64 in Some [of_nat (n div 65536), of_nat (n div 256 mod 256)])"
| "octets (v # w # x # y # rest) =
     (let n = v * 262144 + w * 4096 + x * 64 + y
      in map_option (\<lambda>bs. of_nat (n div 65536) # of_nat (n div 256 mod 256) # of_nat (n mod 256) # bs) (octets rest))"

fun letter_value :: "bytes \<Rightarrow> byte \<Rightarrow> nat option" where
  "letter_value [] c = None"
| "letter_value (a # alphabet) c = (if a = c then Some 0 else map_option Suc (letter_value alphabet c))"

fun letter_values :: "bytes \<Rightarrow> bytes \<Rightarrow> nat list option" where
  "letter_values alphabet [] = Some []"
| "letter_values alphabet (c # cs) =
     (case letter_value alphabet c of
        None \<Rightarrow> None
      | Some v \<Rightarrow> map_option ((#) v) (letter_values alphabet cs))"

definition EncodeToString :: "bytes \<Rightarrow> bytes \<Rightarrow> bytes" where
  "EncodeToString alphabet s = map ((!) alphabet) (sextets s)"

definition DecodeString :: "bytes \<Rightarrow> bytes \<Rightarrow> bytes option" where
  "DecodeString alphabet s =
     (case letter_values alphabet (filter (\<lambda>c. c \<noteq> 10 \<and> c \<noteq> 13) s) of
        None \<Rightarrow> None
      | Some vs \<Rightarrow> octets vs)"

text \<open>The round trip, for an alphabet of 64 different letters without line breaks.\<close>

definition alphabet_ok :: "bytes \<Rightarrow> bool" where
  "alphabet_ok alphabet \<longleftrightarrow> length alphabet = 64 \<and> distinct alphabet \<and> 10 \<notin> set alphabet \<and> 13 \<notin> set alphabet"

lemma url_alphabet_ok: "alphabet_ok url_alphabet"
  by (simp add: alphabet_ok_def url_alphabet_def b64_common_def)

lemma std_alphabet_ok: "alphabet_ok std_alphabet"
  by (simp add: alphabet_ok_def std_alphabet_def b64_common_def)

lemma letter_value_nth: "distinct alphabet \<Longrightarrow> v < length alphabet \<Longrightarrow> letter_value alphabet (alphabet ! v) = Some v"
  by (induction alphabet arbitrary: v) (auto simp: nth_Cons split: nat.splits)

lemma letter_values_map:
  "distinct alphabet \<Longrightarrow> \<forall>v\<in>set vs. v < length alphabet \<Longrightarrow> letter_values alphabet (map ((!) alphabet) vs) = Some vs"
  by (induction vs) (simp_all add: letter_value_nth)

lemma unat_byte [simp]: "unat (b :: byte) < 256"
  using unsigned_less [of b] by simp

lemma first_sextet: "b < 256 \<Longrightarrow> c < 256 \<Longrightarrow> a < 256 \<Longrightarrow> (a * 65536 + b * 256 + c) div 262144 < (64 :: nat)"
  by (intro div_less_iff_less_mult [THEN iffD2]) linarith+

lemma sextets_less: "v \<in> set (sextets s) \<Longrightarrow> v < 64"
proof (induction s rule: sextets.induct)
  case (2 a)
  then show ?case using first_sextet [of 0 0 "unat a"] by (auto simp: Let_def)
next
  case (3 a b)
  then show ?case using first_sextet [of "unat b" 0 "unat a"] by (auto simp: Let_def)
next
  case (4 a b c rest)
  then show ?case using first_sextet [of "unat b" "unat c" "unat a"] by (auto simp: Let_def)
qed simp

lemma regroup: "n div 262144 * 262144 + n div 4096 mod 64 * 4096 + n div 64 mod 64 * 64 + n mod 64 = (n :: nat)"
proof -
  have "n div 4096 = n div 64 div 64" "n div 262144 = n div 4096 div 64"
    by (simp_all flip: div_mult2_eq)
  then show ?thesis
    using div_mult_mod_eq [of n 64] div_mult_mod_eq [of "n div 64" 64] div_mult_mod_eq [of "n div 4096" 64]
    by linarith
qed

lemma bytes_of_sum:
  assumes "b < 256" and "c < (256 :: nat)"
  shows "(a * 65536 + b * 256 + c) div 65536 = a"
    and "(a * 65536 + b * 256 + c) div 256 mod 256 = b"
    and "(a * 65536 + b * 256 + c) mod 256 = c"
proof -
  have "b * 256 + c < 65536" using assms by linarith
  then show "(a * 65536 + b * 256 + c) div 65536 = a"
    by (intro div_nat_eqI) simp_all
  have "(a * 65536 + b * 256 + c) div 256 = a * 256 + b"
    using assms by (intro div_nat_eqI) simp_all
  then show "(a * 65536 + b * 256 + c) div 256 mod 256 = b" using assms by simp
  have "a * 65536 + b * 256 + c = c + 256 * (a * 256 + b)" by simp
  then show "(a * 65536 + b * 256 + c) mod 256 = c" using assms by (simp only: mod_mult_self2 mod_less)
qed

lemma octets_sextets: "octets (sextets s) = Some s"
proof (induction s rule: sextets.induct)
  case (2 a)
  let ?n = "unat a * 65536 + 0 * 256 + 0"
  have "?n = 4096 * (unat a * 16)" by simp
  then have "?n mod 64 = 0" "?n div 64 mod 64 = 0"
    by (simp_all only: mod_mult_left_eq) (simp_all add: mult.commute)
  then have "?n div 262144 * 262144 + ?n div 4096 mod 64 * 4096 = ?n"
    using regroup [of ?n] by simp
  then show ?case using bytes_of_sum(1) [of 0 0 "unat a"] by (simp only: sextets.simps octets.simps Let_def) simp
next
  case (3 a b)
  let ?n = "unat a * 65536 + unat b * 256 + 0"
  have "?n = 64 * (unat a * 1024 + unat b * 4)" by simp
  then have "?n mod 64 = 0" by (simp only: mod_mult_self1_is_0)
  then have "?n div 262144 * 262144 + ?n div 4096 mod 64 * 4096 + ?n div 64 mod 64 * 64 = ?n"
    using regroup [of ?n] by linarith
  then show ?case
    using bytes_of_sum [of "unat b" 0 "unat a"] by (simp only: sextets.simps octets.simps Let_def add_0_right) simp
next
  case (4 a b c rest)
  then show ?case
    using bytes_of_sum [of "unat b" "unat c" "unat a"]
    by (simp only: sextets.simps octets.simps Let_def regroup) simp
qed simp

lemma DecodeString_EncodeToString:
  assumes "alphabet_ok alphabet"
  shows "DecodeString alphabet (EncodeToString alphabet s) = Some s"
proof -
  have a: "length alphabet = 64" "distinct alphabet" "10 \<notin> set alphabet" "13 \<notin> set alphabet"
    using assms by (simp_all add: alphabet_ok_def)
  have less: "v < length alphabet" if "v \<in> set (sextets s)" for v
    using sextets_less [OF that] a(1) by simp
  have "filter (\<lambda>c. c \<noteq> 10 \<and> c \<noteq> 13) (EncodeToString alphabet s) = EncodeToString alphabet s"
    using less a(3,4) by (intro filter_True) (force simp: EncodeToString_def dest: nth_mem)
  moreover have "letter_values alphabet (EncodeToString alphabet s) = Some (sextets s)"
    unfolding EncodeToString_def using less a(2) by (intro letter_values_map) blast+
  ultimately show ?thesis by (simp add: DecodeString_def octets_sextets)
qed

lemma set_EncodeToString: "alphabet_ok alphabet \<Longrightarrow> set (EncodeToString alphabet s) \<subseteq> set alphabet"
  using sextets_less by (auto simp: EncodeToString_def alphabet_ok_def intro!: nth_mem)

lemma sextets_Nil [simp]: "sextets s = [] \<longleftrightarrow> s = []"
  by (cases s rule: sextets.cases) (simp_all add: Let_def)

lemma EncodeToString_Nil [simp]: "EncodeToString alphabet s = [] \<longleftrightarrow> s = []"
  by (simp add: EncodeToString_def)

section \<open>Parts of strings\<close>

lemma js_split_join:
  "ps \<noteq> [] \<Longrightarrow> \<forall>p\<in>set ps. c \<notin> set p \<Longrightarrow> js_split c (js_join [c] ps) = ps"
proof (induction ps)
  case (Cons p ps)
  then show ?case by (cases ps) (simp_all add: js_split_none js_split_append)
qed simp

text \<open>\<^verbatim>\<open>strings.Cut(s, sep)\<close> for a separator of one byte.\<close>

fun cut_at :: "'a \<Rightarrow> 'a list \<Rightarrow> ('a list \<times> 'a list) option" where
  "cut_at c [] = None"
| "cut_at c (x # xs) = (if x = c then Some ([], xs) else map_option (\<lambda>(a, b). (x # a, b)) (cut_at c xs))"

lemma cut_at_append [simp]: "c \<notin> set a \<Longrightarrow> cut_at c (a @ c # b) = Some (a, b)"
  by (induction a) auto

lemma cut_at_Some: "cut_at c s = Some (a, b) \<longleftrightarrow> s = a @ c # b \<and> c \<notin> set a"
proof (induction s arbitrary: a)
  case (Cons x xs)
  then show ?case by (cases a) auto
qed simp

text \<open>
  \<^verbatim>\<open>strings.TrimSpace(s) == ""\<close>: the UTF-8 string consists of characters that Unicode calls white
  space.
\<close>

fun blank :: "bytes \<Rightarrow> bool" where
  "blank [] = True"
| "blank (a # s) =
     (if a \<in> {9, 10, 11, 12, 13, 32} then blank s
      else case s of
        b # s1 \<Rightarrow>
          if a = 0xC2 \<and> b \<in> {0x85, 0xA0} then blank s1
          else (case s1 of
            c # s2 \<Rightarrow>
              if (a = 0xE1 \<and> b = 0x9A \<and> c = 0x80) \<or>
                 (a = 0xE2 \<and> b = 0x80 \<and> (0x80 \<le> c \<and> c \<le> 0x8A \<or> c \<in> {0xA8, 0xA9, 0xAF})) \<or>
                 (a = 0xE2 \<and> b = 0x81 \<and> c = 0x9F) \<or> (a = 0xE3 \<and> b = 0x80 \<and> c = 0x80)
              then blank s2 else False
          | [] \<Rightarrow> False)
      | [] \<Rightarrow> False)"

end
