(* ===== verification/Database.thy ===== *)
theory Database
  imports Go_Base Js_Number "HOL-Library.RBT" "HOL-Library.Product_Lexorder"
begin

text \<open>
  The tables of \<^verbatim>\<open>controller/internal/database/migrations\<close> that ingestion writes, the read model
  queries and the retention cleaner empties. A table with a primary key is a search tree over the
  key, so the key constraint holds by type and a scan in key order is \<open>RBT.entries\<close>; the samples,
  whose key has text in it, are the list of their rows. A time is in nanoseconds; a payload that
  was pruned is JSON \<^verbatim>\<open>null\<close>, here \<^term>\<open>None\<close>. UUID text and JSON timestamps come from packages
  outside the repository and from the encoder; they are the record \<open>codec\<close> with the named
  hypothesis \<open>codec_ok\<close>.
\<close>

section \<open>Tables\<close>

type_synonym uuid = "128 word"

record codec =
  cd_uuid :: "uuid \<Rightarrow> jsstr"
  cd_parse :: "jsstr \<Rightarrow> uuid option"
  cd_time :: "int \<Rightarrow> jsstr"

definition codec_ok :: "codec \<Rightarrow> bool" where
  "codec_ok c \<longleftrightarrow>
     (\<forall>u. cd_parse c (cd_uuid c u) = Some u) \<and> (\<forall>u. cd_uuid c u \<noteq> [] \<and> colon \<notin> set (cd_uuid c u))"

record run_rec =
  rc_schema_version :: jsstr
  rc_status :: jsstr
  rc_machine_count :: nat
  rc_error_count :: nat
  rc_started_at :: int
  rc_completed_at :: int
  rc_collected_at :: int
  rc_ingested_at :: int
  rc_raw_payload :: "jsstr option"
  rc_raw_payload_sha256 :: "jsstr option"
  rc_payload_pruned_at :: "int option"

record error_rec =
  ec_scope :: jsstr
  ec_machine_id :: "uuid option"
  ec_instance_id :: "uuid option"
  ec_code :: jsstr
  ec_operation :: jsstr
  ec_message :: jsstr

record machine_rec =
  mc_remote_url :: jsstr
  mc_hostname :: jsstr
  mc_easytier_version :: jsstr
  mc_report_time :: jsstr
  mc_connected_at :: int
  mc_last_heartbeat_at :: int
  mc_os_type :: "jsstr option"
  mc_os_version :: "jsstr option"
  mc_distribution :: "jsstr option"
  mc_active :: bool
  mc_disappeared_at :: "int option"
  mc_last_observed_at :: int
  mc_last_collection_completed_at :: int
  mc_last_collection_id :: uuid
  mc_updated_at :: int

record instance_rec =
  ic_machine_id :: uuid
  ic_active :: bool
  ic_disappeared_at :: "int option"
  ic_last_observed_at :: int
  ic_last_collection_completed_at :: int
  ic_last_collection_id :: uuid
  ic_updated_at :: int

record node_rec =
  nc_peer_id :: int
  nc_ipv4 :: jsstr
  nc_hostname :: jsstr
  nc_proxy_cidrs :: "jsstr list"
  nc_listeners :: "jsstr list"
  nc_easytier_version :: jsstr
  nc_last_observed_at :: int
  nc_last_collection_completed_at :: int
  nc_last_collection_id :: uuid
  nc_updated_at :: int

record link_rec =
  lc_ipv4 :: "jsstr option"
  lc_hostname :: jsstr
  lc_next_hop_peer_id :: int
  lc_direct :: bool
  lc_path_cost :: int
  lc_latency_ms :: "jsnum option"
  lc_loss_rate :: "jsnum option"
  lc_rx_bytes :: "nat option"
  lc_tx_bytes :: "nat option"
  lc_tunnel_protocols :: "jsstr list option"
  lc_easytier_version :: jsstr
  lc_last_observed_at :: int
  lc_last_collection_completed_at :: int
  lc_last_collection_id :: uuid
  lc_updated_at :: int

record sample_row =
  sr_collection_id :: uuid
  sr_instance_id :: uuid
  sr_metric_name :: jsstr
  sr_labels_hash :: jsstr
  sr_labels :: jsstr
  sr_value :: nat
  sr_observed_at :: int

record database =
  db_runs :: "(uuid, run_rec) RBT.rbt"
  db_errors :: "(uuid \<times> nat, error_rec) RBT.rbt"
  db_machines :: "(uuid, machine_rec) RBT.rbt"
  db_instances :: "(uuid, instance_rec) RBT.rbt"
  db_nodes :: "(uuid, node_rec) RBT.rbt"
  db_links :: "(uuid \<times> int, link_rec) RBT.rbt"
  db_samples :: "sample_row list"

text \<open>
  Byte counters are \<^verbatim>\<open>numeric(20, 0)\<close> in the database and 64-bit in the response; \<open>links_ok\<close> says
  that they fit, which holds for what the collector writes, and that peer numbers are in the
  range the table checks.
\<close>

definition fits64 :: "nat option \<Rightarrow> bool" where
  "fits64 v = (case v of None \<Rightarrow> True | Some n \<Rightarrow> n < 2 ^ 64)"

definition links_ok :: "database \<Rightarrow> bool" where
  "links_ok db \<longleftrightarrow>
     list_all (\<lambda>(k, l). 0 \<le> snd k \<and> snd k < 2 ^ 32 \<and> fits64 (lc_rx_bytes l) \<and> fits64 (lc_tx_bytes l))
       (RBT.entries (db_links db))"

definition empty_database :: database where
  "empty_database =
     \<lparr>db_runs = RBT.empty, db_errors = RBT.empty, db_machines = RBT.empty, db_instances = RBT.empty,
      db_nodes = RBT.empty, db_links = RBT.empty, db_samples = []\<rparr>"

section \<open>Search trees\<close>

lemma entries_singleton: "RBT.entries (RBT.insert k v RBT.empty) = [(k, v)]"
  by (simp add: RBT.entries.rep_eq RBT.insert.rep_eq RBT.empty.rep_eq rbt_insert_def rbt_insert_with_key_def)

text \<open>A property of every row.\<close>

definition has_key :: "('k :: linorder, 'v) RBT.rbt \<Rightarrow> 'k \<Rightarrow> bool" where
  "has_key t k \<longleftrightarrow> RBT.lookup t k \<noteq> None"

definition table_all :: "('k :: linorder \<Rightarrow> 'v \<Rightarrow> bool) \<Rightarrow> ('k, 'v) RBT.rbt \<Rightarrow> bool" where
  "table_all P t \<longleftrightarrow> (\<forall>k r. RBT.lookup t k = Some r \<longrightarrow> P k r)"

lemma table_allI: "(\<And>k r. RBT.lookup t k = Some r \<Longrightarrow> P k r) \<Longrightarrow> table_all P t"
  by (simp add: table_all_def)

lemma table_allD: "table_all P t \<Longrightarrow> RBT.lookup t k = Some r \<Longrightarrow> P k r"
  by (simp add: table_all_def)

lemma table_all_mono: "table_all P t \<Longrightarrow> (\<And>k r. P k r \<Longrightarrow> Q k r) \<Longrightarrow> table_all Q t"
  by (auto simp: table_all_def)

lemma table_all_empty [simp]: "table_all P RBT.empty"
  by (simp add: table_all_def)

lemma table_all_insert: "table_all P t \<Longrightarrow> P k r \<Longrightarrow> table_all P (RBT.insert k r t)"
  by (auto simp: table_all_def)

lemma table_all_map: "table_all P t \<Longrightarrow> (\<And>k r. P k r \<Longrightarrow> Q k (f k r)) \<Longrightarrow> table_all Q (RBT.map f t)"
  by (auto simp: table_all_def)

lemma table_all_filter: "table_all P t \<Longrightarrow> table_all P (RBT.filter f t)"
  by (auto simp: table_all_def RBT.lookup_filter split: option.splits if_splits)

lemma has_key_empty [simp]: "\<not> has_key RBT.empty k"
  by (simp add: has_key_def)

lemma has_key_insert [simp]: "has_key (RBT.insert k r t) k' \<longleftrightarrow> k' = k \<or> has_key t k'"
  by (simp add: has_key_def)

lemma has_key_map [simp]: "has_key (RBT.map f t) k \<longleftrightarrow> has_key t k"
  by (simp add: has_key_def)

lemma table_all_entries: "table_all P t \<longleftrightarrow> list_all (\<lambda>(k, r). P k r) (RBT.entries t)"
  by (auto simp: table_all_def list_all_iff RBT.lookup_in_tree)

end
