(* ===== verification/Read_Model.thy ===== *)
theory Read_Model
  imports Use_Topology Database
begin

text \<open>
  The read side of the controller that the console pages through:
  \<^verbatim>\<open>controller/internal/readmodel/store.go\<close> (\<^verbatim>\<open>CurrentTopology\<close>, \<^verbatim>\<open>loadInstances\<close>, \<^verbatim>\<open>loadPeers\<close>) and the
  handler \<^verbatim>\<open>currentTopology\<close> with \<^verbatim>\<open>topologyQuery\<close> of \<^verbatim>\<open>controller/internal/api/api.go\<close>.

  The tables are those of \<open>Database\<close>. A query that fails (the driver, a scan, the iteration)
  is an argument: \<open>faults\<close> gives the error of each stage, or none. A scanned machine keeps its
  UUID beside the JSON record it will be encoded as.
\<close>

section \<open>Queries\<close>

datatype query_stage = LatestQuery | ErrorsQuery | MachinesQuery | InstancesQuery | PeersQuery

type_synonym faults = "query_stage \<Rightarrow> jsstr option"

definition run_query :: "faults \<Rightarrow> query_stage \<Rightarrow> string \<Rightarrow> 'a \<Rightarrow> 'a result" where
  "run_query faults stage what rows =
     (case faults stage of Some e \<Rightarrow> Inl (js what @ js '': '' @ e) | None \<Rightarrow> Inr rows)"

section \<open>Scanning rows\<close>

definition valueOrEmpty :: "jsstr option \<Rightarrow> jsstr" where
  "valueOrEmpty v = (case v of None \<Rightarrow> [] | Some s \<Rightarrow> s)"

definition nonNilStrings :: "jsstr list option \<Rightarrow> jsstr list" where
  "nonNilStrings v = (case v of None \<Rightarrow> [] | Some xs \<Rightarrow> xs)"

definition to_uint32 :: "int \<Rightarrow> nat" where
  "to_uint32 n = nat (n mod 2 ^ 32)"

definition parseOptionalUint64 :: "jsstr option \<Rightarrow> nat option result" where
  "parseOptionalUint64 value =
     (case value of None \<Rightarrow> Inr None | Some s \<Rightarrow> and_then (parse_uint s) (\<lambda>n. Inr (Some n)))"

record go_machine =
  gm_id :: uuid
  gm_json :: machine
  gm_instances :: "(uuid \<times> net_instance) list"

definition scan_device :: "machine_rec \<Rightarrow> device option" where
  "scan_device r =
     (if mc_os_type r \<noteq> None \<or> mc_os_version r \<noteq> None \<or> mc_distribution r \<noteq> None
      then Some \<lparr>d_os_type = Some (valueOrEmpty (mc_os_type r)), d_os_version = Some (valueOrEmpty (mc_os_version r)),
                 d_distribution = Some (valueOrEmpty (mc_distribution r))\<rparr>
      else None)"

definition scan_machine :: "codec \<Rightarrow> uuid \<times> machine_rec \<Rightarrow> go_machine" where
  "scan_machine c = (\<lambda>(uid, r).
     \<lparr>gm_id = uid,
      gm_json = \<lparr>m_machine_id = cd_uuid c uid, m_remote_url = Some (mc_remote_url r), m_hostname = Some (mc_hostname r),
        m_easytier_version = Some (mc_easytier_version r), m_report_time = Some (mc_report_time r),
        m_connected_at = Some (cd_time c (mc_connected_at r)),
        m_last_heartbeat_at = Some (cd_time c (mc_last_heartbeat_at r)), m_device = scan_device r,
        m_active = mc_active r, m_disappeared_at = map_option (cd_time c) (mc_disappeared_at r),
        m_last_observed_at = Some (cd_time c (mc_last_observed_at r)),
        m_last_collection_id = Some (cd_uuid c (mc_last_collection_id r)), m_network_instances = Some []\<rparr>,
      gm_instances = []\<rparr>)"

definition scan_node :: "codec \<Rightarrow> node_rec \<Rightarrow> node_info" where
  "scan_node c n =
     \<lparr>n_peer_id = to_uint32 (nc_peer_id n), n_ipv4 = Some (nc_ipv4 n), n_hostname = Some (nc_hostname n),
      n_proxy_cidrs = nc_proxy_cidrs n, n_listeners = nc_listeners n,
      n_easytier_version = Some (nc_easytier_version n),
      n_last_observed_at = Some (cd_time c (nc_last_observed_at n))\<rparr>"

definition scan_instance :: "codec \<Rightarrow> database \<Rightarrow> uuid \<times> instance_rec \<Rightarrow> net_instance" where
  "scan_instance c db = (\<lambda>(iid, r).
     \<lparr>i_instance_id = cd_uuid c iid, i_active = ic_active r,
      i_disappeared_at = map_option (cd_time c) (ic_disappeared_at r),
      i_last_observed_at = Some (cd_time c (ic_last_observed_at r)),
      i_last_collection_id = Some (cd_uuid c (ic_last_collection_id r)),
      i_node = map_option (scan_node c) (RBT.lookup (db_nodes db) iid), i_peers = Some []\<rparr>)"

text \<open>A JSON integer becomes a binary64 number in the browser.\<close>

definition scan_peer :: "codec \<Rightarrow> int \<Rightarrow> link_rec \<Rightarrow> peer result" where
  "scan_peer c pid l =
     (case parseOptionalUint64 (map_option nat_str (lc_rx_bytes l)) of
        Inl e \<Rightarrow> Inl (js ''parse peer rx_bytes: '' @ e)
      | Inr rx \<Rightarrow>
          (case parseOptionalUint64 (map_option nat_str (lc_tx_bytes l)) of
             Inl e \<Rightarrow> Inl (js ''parse peer tx_bytes: '' @ e)
           | Inr tx \<Rightarrow> Inr
               \<lparr>p_peer_id = to_uint32 pid, p_ipv4 = lc_ipv4 l, p_hostname = Some (lc_hostname l),
                p_next_hop_peer_id = to_uint32 (lc_next_hop_peer_id l), p_direct = lc_direct l,
                p_path_cost = lc_path_cost l, p_latency_ms = lc_latency_ms l, p_loss_rate = lc_loss_rate l,
                p_rx_bytes = map_option (\<lambda>n. rnd (of_nat n)) rx, p_tx_bytes = map_option (\<lambda>n. rnd (of_nat n)) tx,
                p_tunnel_protocols = Some (nonNilStrings (lc_tunnel_protocols l)),
                p_easytier_version = Some (lc_easytier_version l),
                p_last_observed_at = Some (cd_time c (lc_last_observed_at l))\<rparr>))"

section \<open>Loading instances and peers\<close>

text \<open>A Go map read of a missing key yields the zero value.\<close>

definition machine_index :: "go_machine list \<Rightarrow> uuid \<Rightarrow> nat" where
  "machine_index ms uid =
     (case map_of (rev (zip (map gm_id ms) [0..<length ms])) uid of None \<Rightarrow> 0 | Some i \<Rightarrow> i)"

type_synonym locations = "uuid \<Rightarrow> (nat \<times> nat) option"

definition place_instance ::
  "codec \<Rightarrow> database \<Rightarrow> (uuid \<Rightarrow> nat) \<Rightarrow> uuid \<times> instance_rec \<Rightarrow>
   go_machine list \<times> locations \<times> uuid list \<Rightarrow> go_machine list \<times> locations \<times> uuid list" where
  "place_instance c db index row = (\<lambda>(ms, locs, ids).
     let pos = index (ic_machine_id (snd row)); m = ms ! pos; ipos = length (gm_instances m)
     in (ms[pos := m\<lparr>gm_instances := gm_instances m @ [(fst row, scan_instance c db row)]\<rparr>],
         locs(fst row \<mapsto> (pos, ipos)), ids @ [fst row]))"

definition add_peer :: "peer \<Rightarrow> net_instance \<Rightarrow> net_instance" where
  "add_peer p i = i\<lparr>i_peers := Some (peers_of i @ [p])\<rparr>"

definition place_peer :: "locations \<Rightarrow> uuid \<Rightarrow> peer \<Rightarrow> go_machine list \<Rightarrow> go_machine list" where
  "place_peer locs src p ms =
     (let (i, j) = (case locs src of None \<Rightarrow> (0, 0) | Some l \<Rightarrow> l); m = ms ! i; inst = gm_instances m ! j
      in ms[i := m\<lparr>gm_instances := (gm_instances m)[j := (fst inst, add_peer p (snd inst))]\<rparr>])"

fun place_peers ::
  "codec \<Rightarrow> locations \<Rightarrow> ((uuid \<times> int) \<times> link_rec) list \<Rightarrow> go_machine list \<Rightarrow> go_machine list result" where
  "place_peers c locs [] ms = Inr ms"
| "place_peers c locs (((src, pid), l) # rows) ms =
     and_then (scan_peer c pid l) (\<lambda>p. place_peers c locs rows (place_peer locs src p ms))"

definition loadPeers ::
  "codec \<Rightarrow> faults \<Rightarrow> database \<Rightarrow> go_machine list \<Rightarrow> uuid list \<Rightarrow> locations \<Rightarrow> go_machine list result" where
  "loadPeers c faults db ms ids locs =
     (if ids = [] then Inr ms
      else and_then
        (run_query faults PeersQuery ''query peer links''
          (filter (\<lambda>((src, pid), l). src \<in> set ids) (RBT.entries (db_links db))))
        (\<lambda>rows. place_peers c locs rows ms))"

definition instance_rows :: "database \<Rightarrow> uuid list \<Rightarrow> bool option \<Rightarrow> (uuid \<times> instance_rec) list" where
  "instance_rows db mids active =
     filter (\<lambda>(iid, r). ic_machine_id r \<in> set mids \<and> (active = None \<or> active = Some (ic_active r)))
       (sort_key (\<lambda>(iid, r). ic_machine_id r) (RBT.entries (db_instances db)))"

definition loadInstances ::
  "codec \<Rightarrow> faults \<Rightarrow> database \<Rightarrow> go_machine list \<Rightarrow> bool option \<Rightarrow> go_machine list result" where
  "loadInstances c faults db ms active =
     (if ms = [] then Inr ms
      else and_then
        (run_query faults InstancesQuery ''query network instances'' (instance_rows db (map gm_id ms) active))
        (\<lambda>rows.
          let (ms1, locs, ids) = fold (place_instance c db (machine_index ms)) rows (ms, (\<lambda>_. None), [])
          in loadPeers c faults db ms1 ids locs))"

section \<open>The current topology\<close>

record topology_query =
  tq_active :: "bool option"
  tq_machine :: "uuid option"
  tq_cursor :: "uuid option"
  tq_limit :: int

definition latestCollection ::
  "codec \<Rightarrow> faults \<Rightarrow> database \<Rightarrow> (uuid \<times> collection_summary) option result" where
  "latestCollection c faults db =
     run_query faults LatestQuery ''query latest collection''
       (case sort_key (\<lambda>(cid, r). rc_completed_at r) (RBT.entries (db_runs db)) of
          [] \<Rightarrow> None
        | row # rows \<Rightarrow>
            (case last (row # rows) of (cid, r) \<Rightarrow> Some (cid,
               \<lparr>c_collection_id = Some (cd_uuid c cid), c_status = rc_status r, c_machine_count = rc_machine_count r,
                c_error_count = rc_error_count r, c_started_at = cd_time c (rc_started_at r),
                c_completed_at = cd_time c (rc_completed_at r), c_ingested_at = cd_time c (rc_ingested_at r)\<rparr>)))"

definition collectionErrors :: "codec \<Rightarrow> faults \<Rightarrow> database \<Rightarrow> uuid \<Rightarrow> collection_error list result" where
  "collectionErrors c faults db cid =
     run_query faults ErrorsQuery ''query collection errors''
       (map (\<lambda>((rid, idx), e).
          \<lparr>e_index = idx, e_scope = ec_scope e, e_machine_id = map_option (cd_uuid c) (ec_machine_id e),
           e_instance_id = map_option (cd_uuid c) (ec_instance_id e), e_code = ec_code e,
           e_operation = ec_operation e, e_message = ec_message e\<rparr>)
         (filter (\<lambda>((rid, idx), e). rid = cid) (RBT.entries (db_errors db))))"

text \<open>The \<^verbatim>\<open>WHERE\<close> clause of the query for machines, and its rows before the limit.\<close>

definition row_matches :: "topology_query \<Rightarrow> uuid \<times> machine_rec \<Rightarrow> bool" where
  "row_matches q = (\<lambda>(uid, r).
     (tq_active q = None \<or> tq_active q = Some (mc_active r)) \<and>
     (tq_machine q = None \<or> tq_machine q = Some uid) \<and>
     (case tq_cursor q of None \<Rightarrow> True | Some k \<Rightarrow> k < uid))"

definition matching_rows :: "database \<Rightarrow> topology_query \<Rightarrow> (uuid \<times> machine_rec) list" where
  "matching_rows db q = filter (row_matches q) (RBT.entries (db_machines db))"

definition machine_result :: "go_machine \<Rightarrow> machine" where
  "machine_result m = (gm_json m)\<lparr>m_network_instances := Some (map snd (gm_instances m))\<rparr>"

definition CurrentTopology :: "codec \<Rightarrow> int \<Rightarrow> faults \<Rightarrow> database \<Rightarrow> topology_query \<Rightarrow> topology_json result" where
  "CurrentTopology c now faults db query =
     (let limit = (if tq_limit query \<le> 0 then 100 else tq_limit query) in
      and_then (latestCollection c faults db) (\<lambda>latest.
      and_then (case latest of None \<Rightarrow> Inr [] | Some (cid, s) \<Rightarrow> collectionErrors c faults db cid) (\<lambda>errors.
      and_then (run_query faults MachinesQuery ''query machines'' (take (nat (limit + 1)) (matching_rows db query))) (\<lambda>rows.
        let scanned = map (scan_machine c) rows;
            more = int (length scanned) > limit;
            cursor = (if more then Some (cd_uuid c (gm_id (scanned ! nat (limit - 1)))) else None);
            kept = (if more then take (nat limit) scanned else scanned)
        in and_then (loadInstances c faults db kept (tq_active query)) (\<lambda>ms. Inr
             \<lparr>t_generated_at = Some (cd_time c now), t_latest_collection = map_option snd latest,
              t_latest_errors = Some errors, t_machines = Some (map machine_result ms),
              t_page = Some \<lparr>pg_limit = nat limit, pg_next_cursor = cursor\<rparr>\<rparr>)))))"

section \<open>The handler\<close>

definition get_param :: "url_params \<Rightarrow> string \<Rightarrow> jsstr" where
  "get_param params name = valueOrEmpty (map_of params name)"

definition optional_param :: "url_params \<Rightarrow> string \<Rightarrow> (jsstr \<Rightarrow> 'a option) \<Rightarrow> string \<Rightarrow> 'a option result" where
  "optional_param params name parse message =
     (let value = get_param params name in
      if value = [] then Inr None
      else case parse value of None \<Rightarrow> Inl (js message) | Some x \<Rightarrow> Inr (Some x))"

definition topologyQuery :: "codec \<Rightarrow> url_params \<Rightarrow> topology_query result" where
  "topologyQuery c params =
     and_then (optional_param params ''active'' parse_bool ''active must be true or false'') (\<lambda>active.
     and_then (optional_param params ''machine_id'' (cd_parse c) ''machine_id must be a UUID'') (\<lambda>machine.
     and_then (optional_param params ''cursor'' (cd_parse c) ''cursor must be a UUID'') (\<lambda>cursor.
     and_then (optional_param params ''limit''
        (\<lambda>s. case atoi s of None \<Rightarrow> None | Some n \<Rightarrow> if n < 1 \<or> 500 < n then None else Some n)
        ''limit must be between 1 and 500'') (\<lambda>limit.
       Inr \<lparr>tq_active = active, tq_machine = machine, tq_cursor = cursor,
            tq_limit = (case limit of None \<Rightarrow> 100 | Some n \<Rightarrow> n)\<rparr>))))"

definition currentTopology :: "codec \<Rightarrow> int \<Rightarrow> faults \<Rightarrow> database \<Rightarrow> url_params \<Rightarrow> outcome" where
  "currentTopology c now faults db params =
     (case topologyQuery c params of
        Inl e \<Rightarrow> HttpStatus 400
      | Inr query \<Rightarrow>
          (case CurrentTopology c now faults db query of
             Inl e \<Rightarrow> HttpStatus 503
           | Inr page \<Rightarrow> Body page))"

section \<open>Reference: the response as nested listings\<close>

text \<open>
  What the response should hold, without positions, maps or appends: each matching machine
  with its instances in key order, each instance with its peers in key order.
\<close>

definition json_peer :: "codec \<Rightarrow> (uuid \<times> int) \<times> link_rec \<Rightarrow> peer" where
  "json_peer c = (\<lambda>((src, pid), l).
     \<lparr>p_peer_id = to_uint32 pid, p_ipv4 = lc_ipv4 l, p_hostname = Some (lc_hostname l),
      p_next_hop_peer_id = to_uint32 (lc_next_hop_peer_id l), p_direct = lc_direct l,
      p_path_cost = lc_path_cost l, p_latency_ms = lc_latency_ms l, p_loss_rate = lc_loss_rate l,
      p_rx_bytes = map_option (\<lambda>n. rnd (of_nat n)) (lc_rx_bytes l),
      p_tx_bytes = map_option (\<lambda>n. rnd (of_nat n)) (lc_tx_bytes l),
      p_tunnel_protocols = Some (nonNilStrings (lc_tunnel_protocols l)),
      p_easytier_version = Some (lc_easytier_version l),
      p_last_observed_at = Some (cd_time c (lc_last_observed_at l))\<rparr>)"

definition json_peers :: "codec \<Rightarrow> database \<Rightarrow> uuid \<Rightarrow> peer list" where
  "json_peers c db iid = map (json_peer c) (filter (\<lambda>row. fst (fst row) = iid) (RBT.entries (db_links db)))"

definition json_instance :: "codec \<Rightarrow> database \<Rightarrow> uuid \<times> instance_rec \<Rightarrow> net_instance" where
  "json_instance c db row = (scan_instance c db row)\<lparr>i_peers := Some (json_peers c db (fst row))\<rparr>"

definition machine_instances :: "database \<Rightarrow> bool option \<Rightarrow> uuid \<Rightarrow> (uuid \<times> instance_rec) list" where
  "machine_instances db active uid =
     filter (\<lambda>row. ic_machine_id (snd row) = uid \<and> (active = None \<or> active = Some (ic_active (snd row))))
       (RBT.entries (db_instances db))"

definition json_machine :: "codec \<Rightarrow> database \<Rightarrow> bool option \<Rightarrow> uuid \<times> machine_rec \<Rightarrow> machine" where
  "json_machine c db active row =
     (gm_json (scan_machine c row))\<lparr>m_network_instances :=
        Some (map (json_instance c db) (machine_instances db active (fst row)))\<rparr>"

section \<open>Peers\<close>

lemma parse_optional: "fits64 v \<Longrightarrow> parseOptionalUint64 (map_option nat_str v) = Inr v"
  by (cases v) (simp_all add: fits64_def parseOptionalUint64_def parse_uint_nat_str)

lemma scan_peer_ok:
  assumes "links_ok db" and "((src, pid), l) \<in> set (RBT.entries (db_links db))"
  shows "scan_peer c pid l = Inr (json_peer c ((src, pid), l))"
proof -
  have "parseOptionalUint64 (map_option nat_str (lc_rx_bytes l)) = Inr (lc_rx_bytes l)"
    "parseOptionalUint64 (map_option nat_str (lc_tx_bytes l)) = Inr (lc_tx_bytes l)"
    using assms by (auto simp: links_ok_def list_all_iff intro!: parse_optional)
  then show ?thesis by (simp add: scan_peer_def json_peer_def)
qed

text \<open>
  A location map is right for a list of machines when it leads every instance identifier that
  occurs to the one place where it occurs.
\<close>

definition at_place :: "go_machine list \<Rightarrow> nat \<times> nat \<Rightarrow> uuid \<Rightarrow> bool" where
  "at_place ms l iid \<longleftrightarrow>
     fst l < length ms \<and> snd l < length (gm_instances (ms ! fst l)) \<and>
     fst (gm_instances (ms ! fst l) ! snd l) = iid"

definition located :: "go_machine list \<Rightarrow> locations \<Rightarrow> uuid \<Rightarrow> bool" where
  "located ms locs iid \<longleftrightarrow> (\<exists>l. locs iid = Some l \<and> at_place ms l iid \<and> (\<forall>l'. at_place ms l' iid \<longrightarrow> l' = l))"

definition map_instances :: "(uuid \<Rightarrow> net_instance \<Rightarrow> net_instance) \<Rightarrow> go_machine list \<Rightarrow> go_machine list" where
  "map_instances f ms = map (\<lambda>m. m\<lparr>gm_instances := map (\<lambda>(iid, x). (iid, f iid x)) (gm_instances m)\<rparr>) ms"

lemma at_place_map_instances [simp]: "at_place (map_instances f ms) l iid \<longleftrightarrow> at_place ms l iid"
  by (auto simp: at_place_def map_instances_def split: prod.splits)

lemma located_map_instances [simp]: "located (map_instances f ms) locs iid \<longleftrightarrow> located ms locs iid"
  by (simp add: located_def)

lemma place_peer_eq:
  assumes "located ms locs src"
  shows "place_peer locs src p ms = map_instances (\<lambda>iid x. if iid = src then add_peer p x else x) ms"
    (is "_ = map_instances ?f ms")
proof -
  obtain i j where l: "locs src = Some (i, j)" and here: "at_place ms (i, j) src"
    and only: "\<And>l'. at_place ms l' src \<Longrightarrow> l' = (i, j)"
    using assms unfolding located_def by (metis surj_pair)
  have i: "i < length ms" and j: "j < length (gm_instances (ms ! i))"
    and ij: "fst (gm_instances (ms ! i) ! j) = src"
    using here by (simp_all add: at_place_def)
  let ?old = "gm_instances (ms ! i)"
  have row: "?old[j := (fst (?old ! j), add_peer p (snd (?old ! j)))] = map (\<lambda>(iid, x). (iid, ?f iid x)) ?old"
  proof (rule nth_equalityI)
    fix k
    assume "k < length (?old[j := (fst (?old ! j), add_peer p (snd (?old ! j)))])"
    then have k: "k < length ?old" by simp
    show "?old[j := (fst (?old ! j), add_peer p (snd (?old ! j)))] ! k = map (\<lambda>(iid, x). (iid, ?f iid x)) ?old ! k"
    proof (cases "k = j")
      case True
      with j ij show ?thesis by (simp add: case_prod_unfold)
    next
      case False
      then have "fst (?old ! k) \<noteq> src" using only [of "(i, k)"] i k by (auto simp: at_place_def)
      with False k show ?thesis by (simp add: case_prod_unfold)
    qed
  qed simp
  have other: "map (\<lambda>(iid, x). (iid, ?f iid x)) (gm_instances (ms ! k)) = gm_instances (ms ! k)"
    if "k < length ms" "k \<noteq> i" for k
  proof (rule map_idI)
    fix y
    assume "y \<in> set (gm_instances (ms ! k))"
    then obtain q where "q < length (gm_instances (ms ! k))" "y = gm_instances (ms ! k) ! q"
      by (auto simp: in_set_conv_nth)
    then have "fst y \<noteq> src" using only [of "(k, q)"] that by (auto simp: at_place_def)
    then show "(case y of (iid, x) \<Rightarrow> (iid, ?f iid x)) = y" by (cases y) simp
  qed
  have "place_peer locs src p ms =
      ms[i := (ms ! i)\<lparr>gm_instances := map (\<lambda>(iid, x). (iid, ?f iid x)) ?old\<rparr>]"
    unfolding place_peer_def l option.case Let_def prod.case row ..
  also have "\<dots> = map_instances ?f ms"
  proof (rule nth_equalityI)
    fix k
    assume "k < length (ms[i := (ms ! i)\<lparr>gm_instances := map (\<lambda>(iid, x). (iid, ?f iid x)) ?old\<rparr>])"
    then show "ms[i := (ms ! i)\<lparr>gm_instances := map (\<lambda>(iid, x). (iid, ?f iid x)) ?old\<rparr>] ! k = map_instances ?f ms ! k"
      using other [of k] i by (cases "k = i") (simp_all add: map_instances_def)
  qed (simp add: map_instances_def)
  finally show ?thesis .
qed

lemma map_instances_comp: "map_instances f (map_instances g ms) = map_instances (\<lambda>iid x. f iid (g iid x)) ms"
  by (simp add: map_instances_def comp_def case_prod_unfold)

lemma map_instances_cong: "(\<And>iid x. f iid x = g iid x) \<Longrightarrow> map_instances f ms = map_instances g ms"
  by (simp add: map_instances_def)

lemma map_instances_cong_set:
  assumes "\<And>m iid x. m \<in> set ms \<Longrightarrow> (iid, x) \<in> set (gm_instances m) \<Longrightarrow> f iid x = g iid x"
  shows "map_instances f ms = map_instances g ms"
proof -
  have "map (\<lambda>(iid, x). (iid, f iid x)) (gm_instances m) = map (\<lambda>(iid, x). (iid, g iid x)) (gm_instances m)"
    if "m \<in> set ms" for m
    using assms [OF that] by (intro map_cong) auto
  then show ?thesis unfolding map_instances_def by (intro map_cong) simp_all
qed

definition add_peers :: "peer list \<Rightarrow> net_instance \<Rightarrow> net_instance" where
  "add_peers ps i = (if ps = [] then i else i\<lparr>i_peers := Some (peers_of i @ ps)\<rparr>)"

lemma add_peers_Cons: "add_peers ps (add_peer p i) = add_peers (p # ps) i"
  by (simp add: add_peers_def add_peer_def)

lemma place_peers_eq:
  assumes "\<And>src pid l. ((src, pid), l) \<in> set rows \<Longrightarrow> scan_peer c pid l = Inr (json_peer c ((src, pid), l))"
    and "\<And>row. row \<in> set rows \<Longrightarrow> located ms locs (fst (fst row))"
  shows "place_peers c locs rows ms =
    Inr (map_instances (\<lambda>iid. add_peers (map (json_peer c) (filter (\<lambda>row. fst (fst row) = iid) rows))) ms)"
  using assms
proof (induction rows arbitrary: ms)
  case Nil
  have "map_instances (\<lambda>iid. add_peers []) ms = ms"
    by (simp add: map_instances_def add_peers_def case_prod_unfold)
  then show ?case by simp
next
  case (Cons row rows)
  obtain src pid l where row: "row = ((src, pid), l)" by (metis surj_pair)
  let ?f = "\<lambda>iid x. if iid = src then add_peer (json_peer c row) x else x"
  have "scan_peer c pid l = Inr (json_peer c row)" using Cons.prems(1) [of src pid l] by (simp add: row)
  moreover have "place_peer locs src (json_peer c row) ms = map_instances ?f ms"
    using Cons.prems(2) [of row] by (intro place_peer_eq) (simp add: row)
  moreover have "place_peers c locs rows (map_instances ?f ms) =
      Inr (map_instances (\<lambda>iid. add_peers (map (json_peer c) (filter (\<lambda>row. fst (fst row) = iid) rows))) (map_instances ?f ms))"
    using Cons.prems by (intro Cons.IH) simp_all
  moreover have "map_instances (\<lambda>iid. add_peers (map (json_peer c) (filter (\<lambda>row. fst (fst row) = iid) rows))) (map_instances ?f ms) =
      map_instances (\<lambda>iid. add_peers (map (json_peer c) (filter (\<lambda>row. fst (fst row) = iid) (row # rows)))) ms"
    unfolding map_instances_comp by (rule map_instances_cong) (simp add: row add_peers_Cons)
  ultimately show ?case by (simp only: row place_peers.simps and_then.simps)
qed

section \<open>Instances\<close>

lemma machine_index_nth:
  assumes "distinct (map gm_id ms)" and "i < length ms"
  shows "machine_index ms (gm_id (ms ! i)) = i"
proof -
  let ?z = "rev (zip (map gm_id ms) [0..<length ms])"
  have "(gm_id (ms ! i), i) \<in> set ?z"
    using assms(2) by (auto simp: set_zip intro!: exI [of _ i])
  moreover have "distinct (map fst ?z)"
    using assms(1) by (simp add: rev_map [symmetric])
  ultimately have "map_of ?z (gm_id (ms ! i)) = Some i" by simp
  then show ?thesis by (simp add: machine_index_def)
qed

definition placed :: "codec \<Rightarrow> database \<Rightarrow> (uuid \<times> instance_rec) list \<Rightarrow> go_machine list \<Rightarrow> go_machine list" where
  "placed c db rows ms =
     map (\<lambda>m. m\<lparr>gm_instances := map (\<lambda>row. (fst row, scan_instance c db row))
       (filter (\<lambda>row. ic_machine_id (snd row) = gm_id m) rows)\<rparr>) ms"

lemma placed_snoc:
  assumes "distinct (map gm_id ms)" and "i < length ms" and "gm_id (ms ! i) = ic_machine_id (snd row)"
  shows "placed c db (rows @ [row]) ms = (placed c db rows ms)
    [i := (placed c db rows ms ! i)\<lparr>gm_instances := gm_instances (placed c db rows ms ! i) @ [(fst row, scan_instance c db row)]\<rparr>]"
    (is "?l = ?r")
proof (rule nth_equalityI)
  fix k
  assume "k < length ?l"
  then have k: "k < length ms" by (simp add: placed_def)
  show "?l ! k = ?r ! k"
  proof (cases "k = i")
    case False
    then have "gm_id (ms ! k) \<noteq> gm_id (ms ! i)"
      using assms(1,2) k nth_eq_iff_index_eq [of "map gm_id ms" k i] by simp
    with False k assms(3) show ?thesis by (simp add: placed_def)
  qed (use k assms(3) in \<open>simp add: placed_def\<close>)
qed (simp add: placed_def)

lemma at_place_snoc:
  "at_place ms l iid \<Longrightarrow> at_place (ms[i := (ms ! i)\<lparr>gm_instances := gm_instances (ms ! i) @ xs\<rparr>]) l iid"
  by (cases "fst l = i") (auto simp: at_place_def nth_append)

lemma fold_place_instance:
  assumes "distinct (map gm_id ms)" and "\<And>m. m \<in> set ms \<Longrightarrow> gm_instances m = []"
    and "\<And>row. row \<in> set rows \<Longrightarrow> ic_machine_id (snd row) \<in> gm_id ` set ms" and "distinct (map fst rows)"
  shows "\<exists>locs. fold (place_instance c db (machine_index ms)) rows (ms, (\<lambda>_. None), []) =
      (placed c db rows ms, locs, map fst rows) \<and>
    (\<forall>row\<in>set rows. \<exists>l. locs (fst row) = Some l \<and> at_place (placed c db rows ms) l (fst row))"
  using assms(3,4)
proof (induction rows rule: rev_induct)
  case Nil
  have "placed c db [] ms = ms"
    using assms(2) by (auto simp: placed_def intro!: map_idI)
  then show ?case by simp
next
  case (snoc row rows)
  have "distinct (map fst rows)" "\<And>r. r \<in> set rows \<Longrightarrow> ic_machine_id (snd r) \<in> gm_id ` set ms"
    using snoc.prems by simp_all
  from snoc.IH [OF this(2,1)] obtain locs
    where fold: "fold (place_instance c db (machine_index ms)) rows (ms, (\<lambda>_. None), []) =
      (placed c db rows ms, locs, map fst rows)"
    and locs: "\<And>r. r \<in> set rows \<Longrightarrow> \<exists>l. locs (fst r) = Some l \<and> at_place (placed c db rows ms) l (fst r)"
    by blast
  obtain i where i: "i < length ms" "gm_id (ms ! i) = ic_machine_id (snd row)"
    using snoc.prems(1) [of row] by (auto simp: in_set_conv_nth)
  have index: "machine_index ms (ic_machine_id (snd row)) = i"
    using machine_index_nth [OF assms(1) i(1)] i(2) by simp
  let ?old = "placed c db rows ms" and ?new = "placed c db (rows @ [row]) ms"
  let ?l = "(i, length (gm_instances (?old ! i)))"
  note snocd = placed_snoc [OF assms(1) i, of c db rows]
  have "fold (place_instance c db (machine_index ms)) (rows @ [row]) (ms, (\<lambda>_. None), []) =
      (?new, locs(fst row \<mapsto> ?l), map fst (rows @ [row]))"
    by (simp add: fold place_instance_def index Let_def snocd)
  moreover have "\<exists>l. (locs(fst row \<mapsto> ?l)) (fst r) = Some l \<and> at_place ?new l (fst r)" if "r \<in> set (rows @ [row])" for r
  proof (cases "r = row")
    case True
    have "i < length ?old" using i(1) by (simp add: placed_def)
    then have "at_place ?new ?l (fst row)" unfolding snocd by (simp add: at_place_def)
    with True show ?thesis by simp
  next
    case False
    then have r: "r \<in> set rows" using that by simp
    then have "fst r \<in> fst ` set rows" by simp
    moreover have "fst row \<notin> fst ` set rows" using snoc.prems(2) by simp
    ultimately have "fst r \<noteq> fst row" by metis
    moreover obtain l where "locs (fst r) = Some l" "at_place ?old l (fst r)" using locs [OF r] by blast
    ultimately show ?thesis unfolding snocd using at_place_snoc by fastforce
  qed
  ultimately show ?case by blast
qed

lemma at_place_placedD:
  assumes "at_place (placed c db rows ms) l iid"
  obtains row where "row \<in> set rows" and "fst row = iid" and "fst l < length ms"
    and "ic_machine_id (snd row) = gm_id (ms ! fst l)"
    and "snd l < length (filter (\<lambda>row. ic_machine_id (snd row) = gm_id (ms ! fst l)) rows)"
    and "row = filter (\<lambda>row. ic_machine_id (snd row) = gm_id (ms ! fst l)) rows ! snd l"
proof -
  let ?rs = "filter (\<lambda>row. ic_machine_id (snd row) = gm_id (ms ! fst l)) rows"
  have 1: "fst l < length ms" "snd l < length ?rs" "fst (?rs ! snd l) = iid"
    using assms by (auto simp: at_place_def placed_def)
  then have "?rs ! snd l \<in> set ?rs" by (intro nth_mem)
  then have "?rs ! snd l \<in> set rows" "ic_machine_id (snd (?rs ! snd l)) = gm_id (ms ! fst l)" by auto
  with 1 that show thesis by blast
qed

lemma at_place_unique:
  assumes "distinct (map gm_id ms)" and "distinct (map fst rows)"
    and "at_place (placed c db rows ms) l iid" and "at_place (placed c db rows ms) l' iid"
  shows "l = l'"
proof -
  let ?rs = "\<lambda>l. filter (\<lambda>row. ic_machine_id (snd row) = gm_id (ms ! fst l)) rows"
  obtain r where r: "r \<in> set rows" "fst r = iid" "fst l < length ms" "ic_machine_id (snd r) = gm_id (ms ! fst l)"
    "snd l < length (?rs l)" "r = ?rs l ! snd l" using assms(3) by (rule at_place_placedD)
  obtain r' where r': "r' \<in> set rows" "fst r' = iid" "fst l' < length ms" "ic_machine_id (snd r') = gm_id (ms ! fst l')"
    "snd l' < length (?rs l')" "r' = ?rs l' ! snd l'" using assms(4) by (rule at_place_placedD)
  have same: "r = r'" using r(1,2) r'(1,2) assms(2) by (metis eq_key_imp_eq_value prod.collapse)
  then have "gm_id (ms ! fst l) = gm_id (ms ! fst l')" using r(4) r'(4) by simp
  then have fst: "fst l = fst l'"
    using assms(1) r(3) r'(3) nth_eq_iff_index_eq [of "map gm_id ms" "fst l" "fst l'"] by simp
  have "distinct (?rs l)" using assms(2) by (simp add: distinct_map)
  then have "snd l = snd l'"
    using same r(5,6) r'(5,6) unfolding fst by (metis nth_eq_iff_index_eq)
  with fst show ?thesis by (simp add: prod_eq_iff)
qed

lemma machine_instances_rows:
  assumes "m \<in> set ms"
  shows "filter (\<lambda>row. ic_machine_id (snd row) = gm_id m) (instance_rows db (map gm_id ms) active) =
    machine_instances db active (gm_id m)"
proof -
  let ?es = "RBT.entries (db_instances db)" and ?f = "\<lambda>(iid, r). ic_machine_id r"
  have "filter (\<lambda>row. ?f row = gm_id m) (sort_key ?f ?es) = filter (\<lambda>row. ?f row = gm_id m) ?es"
    by (rule sort_key_stable)
  then have "filter (\<lambda>row. active = None \<or> active = Some (ic_active (snd row))) (filter (\<lambda>row. ?f row = gm_id m) (sort_key ?f ?es)) =
      filter (\<lambda>row. active = None \<or> active = Some (ic_active (snd row))) (filter (\<lambda>row. ?f row = gm_id m) ?es)"
    by simp
  moreover have "filter (\<lambda>row. ic_machine_id (snd row) = gm_id m) (instance_rows db (map gm_id ms) active) =
      filter (\<lambda>row. active = None \<or> active = Some (ic_active (snd row))) (filter (\<lambda>row. ?f row = gm_id m) (sort_key ?f ?es))"
    using assms unfolding instance_rows_def filter_filter by (intro filter_cong) auto
  moreover have "filter (\<lambda>row. active = None \<or> active = Some (ic_active (snd row))) (filter (\<lambda>row. ?f row = gm_id m) ?es) =
      machine_instances db active (gm_id m)"
    unfolding machine_instances_def filter_filter by (intro filter_cong) auto
  ultimately show ?thesis by simp
qed

lemma add_peers_scan: "add_peers ps (scan_instance c db row) = (scan_instance c db row)\<lparr>i_peers := Some ps\<rparr>"
  by (simp add: add_peers_def scan_instance_def split: prod.splits)

text \<open>The peers of the instances on the page, in one pass over the links of all of them.\<close>

lemma loadPeers_spec:
  assumes "links_ok db" and "\<forall>st. faults st = None" and "\<And>iid. iid \<in> set ids \<Longrightarrow> located ms locs iid"
    and "\<And>m x. m \<in> set ms \<Longrightarrow> x \<in> set (gm_instances m) \<Longrightarrow> fst x \<in> set ids"
  shows "loadPeers c faults db ms ids locs = Inr (map_instances (\<lambda>iid. add_peers (json_peers c db iid)) ms)"
proof -
  let ?rows = "filter (\<lambda>((src, pid), l). src \<in> set ids) (RBT.entries (db_links db))"
  have rows: "filter (\<lambda>row. fst (fst row) = iid) ?rows = filter (\<lambda>row. fst (fst row) = iid) (RBT.entries (db_links db))"
    if "iid \<in> set ids" for iid
    using that unfolding filter_filter by (intro filter_cong) auto
  have "place_peers c locs ?rows ms =
      Inr (map_instances (\<lambda>iid. add_peers (map (json_peer c) (filter (\<lambda>row. fst (fst row) = iid) ?rows))) ms)"
    using scan_peer_ok [OF assms(1)] assms(3) by (intro place_peers_eq) auto
  also have "map_instances (\<lambda>iid. add_peers (map (json_peer c) (filter (\<lambda>row. fst (fst row) = iid) ?rows))) ms =
      map_instances (\<lambda>iid. add_peers (json_peers c db iid)) ms"
  proof (rule map_instances_cong_set)
    fix m iid x
    assume "m \<in> set ms" and "(iid, x) \<in> set (gm_instances m)"
    then have "iid \<in> set ids" using assms(4) by fastforce
    then show "add_peers (map (json_peer c) (filter (\<lambda>row. fst (fst row) = iid) ?rows)) x = add_peers (json_peers c db iid) x"
      by (simp only: rows json_peers_def)
  qed
  finally have place: "place_peers c locs ?rows ms = Inr (map_instances (\<lambda>iid. add_peers (json_peers c db iid)) ms)" .
  show ?thesis
  proof (cases "ids = []")
    case True
    then have "gm_instances m = []" if "m \<in> set ms" for m
      using assms(4) [OF that] by (cases "gm_instances m") auto
    then have "map_instances (\<lambda>iid. add_peers (json_peers c db iid)) ms = ms"
      unfolding map_instances_def by (intro map_idI) simp
    with True show ?thesis by (simp add: loadPeers_def)
  next
    case False
    with place show ?thesis by (simp add: loadPeers_def run_query_def assms(2))
  qed
qed

lemma loadInstances_spec:
  assumes "links_ok db" and "\<forall>st. faults st = None" and "distinct (map gm_id ms)"
    and "\<And>m. m \<in> set ms \<Longrightarrow> gm_instances m = []"
  shows "loadInstances c faults db ms active =
    Inr (map (\<lambda>m. m\<lparr>gm_instances := map (\<lambda>row. (fst row, json_instance c db row)) (machine_instances db active (gm_id m))\<rparr>) ms)"
proof (cases "ms = []")
  case True
  then show ?thesis by (simp add: loadInstances_def)
next
  case False
  let ?rows = "instance_rows db (map gm_id ms) active"
  let ?ms1 = "placed c db ?rows ms"
  have drows: "distinct (map fst ?rows)"
  proof -
    have "distinct (map fst (sort_key (\<lambda>(iid, r). ic_machine_id r) (RBT.entries (db_instances db))))"
      using RBT.distinct_entries [of "db_instances db"] by (simp add: distinct_map)
    then show ?thesis by (simp add: instance_rows_def distinct_map_filter)
  qed
  have mids: "ic_machine_id (snd row) \<in> gm_id ` set ms" if "row \<in> set ?rows" for row
    using that by (auto simp: instance_rows_def)
  obtain locs where fold: "fold (place_instance c db (machine_index ms)) ?rows (ms, (\<lambda>_. None), []) =
      (?ms1, locs, map fst ?rows)"
    and locs: "\<And>row. row \<in> set ?rows \<Longrightarrow> \<exists>l. locs (fst row) = Some l \<and> at_place ?ms1 l (fst row)"
    using fold_place_instance [OF assms(3,4) mids drows, of c db] by blast
  have loc: "located ?ms1 locs (fst row)" if "row \<in> set ?rows" for row
    using locs [OF that] at_place_unique [OF assms(3) drows] unfolding located_def by blast
  have ids: "fst x \<in> set (map fst ?rows)" if "m \<in> set ?ms1" "x \<in> set (gm_instances m)" for m x
    using that by (force simp: placed_def)
  have "loadInstances c faults db ms active = loadPeers c faults db ?ms1 (map fst ?rows) locs"
    using False by (simp add: loadInstances_def run_query_def assms(2) fold)
  also have "\<dots> = Inr (map_instances (\<lambda>iid. add_peers (json_peers c db iid)) ?ms1)"
    using assms(1,2) loc ids by (intro loadPeers_spec) auto
  also have "map_instances (\<lambda>iid. add_peers (json_peers c db iid)) ?ms1 =
      map (\<lambda>m. m\<lparr>gm_instances := map (\<lambda>row. (fst row, json_instance c db row)) (machine_instances db active (gm_id m))\<rparr>) ms"
    by (simp add: map_instances_def placed_def comp_def add_peers_scan json_instance_def machine_instances_rows)
  finally show ?thesis .
qed

section \<open>The page\<close>

definition page_limit :: "topology_query \<Rightarrow> nat" where
  "page_limit q = nat (if tq_limit q \<le> 0 then 100 else tq_limit q)"

lemma distinct_matching_rows: "distinct (map fst (matching_rows db q))"
  using RBT.distinct_entries [of "db_machines db"] by (simp add: matching_rows_def distinct_map_filter)

lemma scan_machine_simps [simp]:
  "gm_id (scan_machine c row) = fst row" "gm_instances (scan_machine c row) = []"
  by (simp_all add: scan_machine_def split: prod.splits)

lemma loadInstances_rows:
  assumes "links_ok db" and "\<forall>st. faults st = None" and "distinct (map fst rows)"
  shows "\<exists>ms. loadInstances c faults db (map (scan_machine c) rows) active = Inr ms \<and>
    map machine_result ms = map (json_machine c db active) rows"
proof -
  let ?ms = "map (scan_machine c) rows"
  have ids: "distinct (map gm_id ?ms)" using assms(3) by (simp add: comp_def)
  have new: "gm_instances m = []" if "m \<in> set ?ms" for m using that by auto
  have "loadInstances c faults db ?ms active = Inr (map (\<lambda>m. m\<lparr>gm_instances :=
      map (\<lambda>row. (fst row, json_instance c db row)) (machine_instances db active (gm_id m))\<rparr>) ?ms)"
    using assms(1,2) ids new by (rule loadInstances_spec)
  then show ?thesis
    by (simp add: machine_result_def json_machine_def comp_def)
qed

lemma CurrentTopology_page:
  assumes "links_ok db" and "\<forall>st. faults st = None"
  shows "\<exists>page. CurrentTopology c now faults db q = Inr page \<and>
    t_machines page = Some (map (json_machine c db (tq_active q)) (take (page_limit q) (matching_rows db q))) \<and>
    next_cursor page =
      (if page_limit q < length (matching_rows db q)
       then Some (cd_uuid c (fst (matching_rows db q ! (page_limit q - 1)))) else None)"
proof -
  let ?L = "page_limit q" and ?rows = "matching_rows db q"
  let ?limit = "if tq_limit q \<le> 0 then 100 else tq_limit q"
  have L: "0 < ?L" "nat (?limit + 1) = Suc ?L" "nat ?limit = ?L" "?limit = int ?L" "nat (?limit - 1) = ?L - 1"
    by (auto simp: page_limit_def)
  obtain latest where latest: "latestCollection c faults db = Inr latest"
    by (simp add: latestCollection_def run_query_def assms(2))
  obtain errors where errors: "(case latest of None \<Rightarrow> Inr [] | Some (cid, s) \<Rightarrow> collectionErrors c faults db cid) = Inr errors"
  proof (cases latest)
    case (Some x)
    then show ?thesis using that by (cases x) (simp add: collectionErrors_def run_query_def assms(2))
  qed (use that in simp)
  have query: "run_query faults MachinesQuery ''query machines'' (take (nat (?limit + 1)) ?rows) = Inr (take (Suc ?L) ?rows)"
    by (simp only: run_query_def assms(2) [rule_format] option.case L(2))
  have more: "int (length (map (scan_machine c) (take (Suc ?L) ?rows))) > ?limit \<longleftrightarrow> ?L < length ?rows"
    unfolding L(4) by auto
  have kept: "(if ?L < length ?rows then take ?L (map (scan_machine c) (take (Suc ?L) ?rows))
      else map (scan_machine c) (take (Suc ?L) ?rows)) = map (scan_machine c) (take ?L ?rows)"
    by (auto simp: take_map min_def)
  have cursor: "gm_id (map (scan_machine c) (take (Suc ?L) ?rows) ! (?L - 1)) = fst (?rows ! (?L - 1))"
    if "?L < length ?rows" using that by simp
  have "distinct (map fst (take ?L ?rows))"
    using distinct_matching_rows [of db q] by (simp add: take_map [symmetric])
  from loadInstances_rows [OF assms this, of c "tq_active q"] obtain ms
    where ms: "loadInstances c faults db (map (scan_machine c) (take ?L ?rows)) (tq_active q) = Inr ms"
      "map machine_result ms = map (json_machine c db (tq_active q)) (take ?L ?rows)" by blast
  have "CurrentTopology c now faults db q = Inr
      \<lparr>t_generated_at = Some (cd_time c now), t_latest_collection = map_option snd latest,
       t_latest_errors = Some errors, t_machines = Some (map machine_result ms),
       t_page = Some \<lparr>pg_limit = ?L,
         pg_next_cursor = (if ?L < length ?rows then Some (cd_uuid c (fst (?rows ! (?L - 1)))) else None)\<rparr>\<rparr>"
    by (simp only: CurrentTopology_def Let_def latest and_then.simps errors query more kept ms(1) L(3,5) cursor cong: if_cong)
  then show ?thesis by (simp add: ms(2) next_cursor_def)
qed

text \<open>
  C12. The read model answers with the nested listing it is meant to: for a database whose
  counters fit 64 bits and queries that succeed, the page holds the first rows that match
  the query, up to the limit, each machine with exactly its instances of the requested state
  and each instance with exactly its peers, in key order; there is a next cursor exactly when
  more rows match, and it is the identifier of the last machine of the page. The position
  maps and appends of the code compute what the reference says without them.
\<close>

theorem CurrentTopology_refines:
  assumes "links_ok db" and "\<forall>st. faults st = None"
  shows "\<exists>page. CurrentTopology c now faults db q = Inr page \<and>
    t_machines page = Some (map (json_machine c db (tq_active q)) (take (page_limit q) (matching_rows db q))) \<and>
    next_cursor page =
      (if page_limit q < length (matching_rows db q)
       then Some (cd_uuid c (fst (matching_rows db q ! (page_limit q - 1)))) else None)"
  using assms by (rule CurrentTopology_page)

section \<open>Identifiers of a response\<close>

lemma codec_inj: "codec_ok c \<Longrightarrow> cd_uuid c u = cd_uuid c w \<longleftrightarrow> u = w"
  unfolding codec_ok_def by (metis option.inject)

lemma json_machine_simps [simp]:
  "m_machine_id (json_machine c db active row) = cd_uuid c (fst row)"
  "instances_of (json_machine c db active row) = map (json_instance c db) (machine_instances db active (fst row))"
  by (simp_all add: json_machine_def scan_machine_def split: prod.splits)

lemma json_instance_simps [simp]:
  "i_instance_id (json_instance c db row) = cd_uuid c (fst row)"
  "peers_of (json_instance c db row) = json_peers c db (fst row)"
  by (simp_all add: json_instance_def scan_instance_def split: prod.splits)

lemma distinct_json_peers:
  assumes "links_ok db"
  shows "distinct (map p_peer_id (json_peers c db iid))"
proof -
  let ?rows = "filter (\<lambda>row. fst (fst row) = iid) (RBT.entries (db_links db))"
  have ids: "map p_peer_id (json_peers c db iid) = map (\<lambda>row. to_uint32 (snd (fst row))) ?rows"
    by (simp add: json_peers_def json_peer_def case_prod_unfold)
  have d: "distinct (map fst ?rows)"
    using RBT.distinct_entries [of "db_links db"] by (simp add: distinct_map_filter)
  have "row = row'" if "row \<in> set ?rows" "row' \<in> set ?rows" "to_uint32 (snd (fst row)) = to_uint32 (snd (fst row'))" for row row'
  proof -
    have "0 \<le> snd (fst r) \<and> snd (fst r) < 2 ^ 32" if "r \<in> set ?rows" for r
      using that assms by (auto simp: links_ok_def list_all_iff)
    from this [OF that(1)] this [OF that(2)] that(3) have "snd (fst row) = snd (fst row')"
      by (simp add: to_uint32_def eq_nat_nat_iff)
    with that have "fst row = fst row'" by (simp add: prod_eq_iff)
    with that(1,2) d show ?thesis unfolding distinct_map by (metis inj_onD)
  qed
  then show ?thesis unfolding ids using d by (auto simp: distinct_map inj_on_def)
qed

lemma distinct_all_instances:
  assumes "codec_ok c" and "distinct (map fst rows)"
  shows "distinct (map i_instance_id (all_instances (map (json_machine c db active) rows)))"
  using assms(2)
proof (induction rows)
  case (Cons row rows)
  let ?ids = "\<lambda>uid. map (\<lambda>r. cd_uuid c (fst r)) (machine_instances db active uid)"
  have ids: "map i_instance_id (all_instances (map (json_machine c db active) rs)) = concat (map (\<lambda>r. ?ids (fst r)) rs)" for rs
    by (induction rs) (simp_all add: all_instances_def comp_def)
  have d: "distinct (map fst (RBT.entries (db_instances db)))" by (rule RBT.distinct_entries)
  have "distinct (?ids (fst row))"
    using d unfolding machine_instances_def
    by (auto simp: distinct_map inj_on_def codec_inj [OF assms(1)] intro!: distinct_filter)
  moreover have "x \<notin> set (?ids (fst r))" if "r \<in> set rows" "x \<in> set (?ids (fst row))" for r x
  proof
    assume "x \<in> set (?ids (fst r))"
    with that obtain a b where "a \<in> set (machine_instances db active (fst row))" "b \<in> set (machine_instances db active (fst r))"
      "fst a = fst b" by (auto simp: codec_inj [OF assms(1)])
    then have "a \<in> set (RBT.entries (db_instances db))" "b \<in> set (RBT.entries (db_instances db))"
      "ic_machine_id (snd a) = fst row" "ic_machine_id (snd b) = fst r" "fst a = fst b"
      by (auto simp: machine_instances_def)
    with d have "fst row = fst r" by (metis eq_key_imp_eq_value prod.collapse)
    with Cons.prems that(1) show False by auto
  qed
  ultimately show ?case using Cons unfolding ids by auto
qed (simp add: all_instances_def)

lemma json_machines_ids:
  assumes "codec_ok c" and "links_ok db" and "distinct (map fst rows)"
  shows "plain_ids (map (json_machine c db active) rows)" and "unique_ids (map (json_machine c db active) rows)"
proof -
  have "colon \<notin> set (cd_uuid c u)" for u using assms(1) by (simp add: codec_ok_def)
  then show "plain_ids (map (json_machine c db active) rows)"
    by (simp add: plain_ids_def list_all_iff)
  have "distinct (map m_machine_id (map (json_machine c db active) rows))"
    using assms(3) by (auto simp: distinct_map inj_on_def codec_inj [OF assms(1)])
  moreover have "distinct (map p_peer_id (peers_of i))" if "i \<in> set (all_instances (map (json_machine c db active) rows))" for i
    using that distinct_json_peers [OF assms(2)] by (auto simp: all_instances_def)
  ultimately show "unique_ids (map (json_machine c db active) rows)"
    using distinct_all_instances [OF assms(1,3)] by (simp add: unique_ids_def list_all_iff)
qed

text \<open>
  What the controller serves meets what the console relies on: in the answer to any query,
  no machine or instance identifier holds a colon, machine identifiers and instance
  identifiers are unique, and so are the peer numbers within an instance.
\<close>

theorem response_identifiers:
  assumes "codec_ok c" and "links_ok db" and "\<forall>st. faults st = None"
    and "CurrentTopology c now faults db q = Inr page"
  shows "plain_ids (or_empty (t_machines page)) \<and> unique_ids (or_empty (t_machines page))"
proof -
  have "distinct (map fst (take (page_limit q) (matching_rows db q)))"
    using distinct_matching_rows [of db q] by (simp add: take_map [symmetric])
  note ids = json_machines_ids [OF assms(1,2) this]
  have "t_machines page = Some (map (json_machine c db (tq_active q)) (take (page_limit q) (matching_rows db q)))"
    using CurrentTopology_page [OF assms(2,3), of c now q] assms(4) by auto
  with ids show ?thesis by simp
qed

section \<open>Cursor pagination\<close>

text \<open>The query a console request stands for.\<close>

definition active_of :: "jsstr \<Rightarrow> bool option" where
  "active_of f = (if f = js ''true'' then Some True else if f = js ''false'' then Some False else None)"

definition console_query :: "jsstr \<Rightarrow> uuid option \<Rightarrow> topology_query" where
  "console_query f k = \<lparr>tq_active = active_of f, tq_machine = None, tq_cursor = k, tq_limit = 200\<rparr>"

definition valid_cursor :: "codec \<Rightarrow> jsstr option \<Rightarrow> bool" where
  "valid_cursor c k \<longleftrightarrow> (\<forall>s. k = Some s \<longrightarrow> (\<exists>u. s = cd_uuid c u))"

lemma atoi_200: "atoi (js ''200'') = Some 200"
  by (simp add: atoi_def digits_val_def digit_val_def Let_def)

lemma get_param_simps [simp]:
  "get_param (request_params f True k) ''active'' = f"
  "get_param (request_params f True k) ''machine_id'' = []"
  "get_param (request_params f True k) ''limit'' = js ''200''"
  "get_param (request_params f True k) ''cursor'' = (if truthy_str k then the k else [])"
  by (auto simp: get_param_def request_params_def valueOrEmpty_def)

lemma topologyQuery_console:
  assumes "codec_ok c" and "f \<in> set filter_options" and "valid_cursor c k"
  shows "topologyQuery c (request_params f True k) = Inr (console_query f (map_option (the \<circ> cd_parse c) k))"
proof -
  have active: "optional_param (request_params f True k) ''active'' parse_bool m = Inr (active_of f)" for m
    using assms(2) by (auto simp: optional_param_def Let_def filter_options_def parse_bool_def active_of_def)
  have machine: "optional_param (request_params f True k) ''machine_id'' (cd_parse c) m = Inr None" for m
    by (simp add: optional_param_def)
  have cursor: "optional_param (request_params f True k) ''cursor'' (cd_parse c) m =
      Inr (map_option (the \<circ> cd_parse c) k)" for m
    using assms(1,3) by (cases k) (auto simp: optional_param_def Let_def valid_cursor_def codec_ok_def)
  have limit: "optional_param (request_params f True k) ''limit''
      (\<lambda>s. case atoi s of None \<Rightarrow> None | Some n \<Rightarrow> if n < 1 \<or> 500 < n then None else Some n) m = Inr (Some 200)" for m
    unfolding optional_param_def Let_def get_param_simps atoi_200 by simp
  show ?thesis
    by (simp only: topologyQuery_def active machine cursor limit and_then.simps console_query_def option.case)
qed

definition no_faults :: faults where
  "no_faults = (\<lambda>_. None)"

definition empty_page :: topology_json where
  "empty_page = \<lparr>t_generated_at = None, t_latest_collection = None, t_latest_errors = None, t_machines = None, t_page = None\<rparr>"

definition serve :: "codec \<Rightarrow> int \<Rightarrow> database \<Rightarrow> url_params \<Rightarrow> topology_json" where
  "serve c now db params =
     (case currentTopology c now no_faults db params of Body json \<Rightarrow> json | _ \<Rightarrow> empty_page)"

definition console_rows :: "codec \<Rightarrow> database \<Rightarrow> jsstr \<Rightarrow> jsstr option \<Rightarrow> (uuid \<times> machine_rec) list" where
  "console_rows c db f k = matching_rows db (console_query f (map_option (the \<circ> cd_parse c) k))"

definition console_window :: "codec \<Rightarrow> database \<Rightarrow> jsstr \<Rightarrow> jsstr option \<Rightarrow> machine list" where
  "console_window c db f k = map (json_machine c db (active_of f)) (console_rows c db f k)"

lemma serve_page:
  assumes "codec_ok c" and "links_ok db" and "f \<in> set filter_options" and "valid_cursor c k"
  shows "currentTopology c now no_faults db (request_params f True k) = Body (serve c now db (request_params f True k))"
    and "or_empty (t_machines (serve c now db (request_params f True k))) =
      map (json_machine c db (active_of f)) (take 200 (console_rows c db f k))"
    and "next_cursor (serve c now db (request_params f True k)) =
      (if 200 < length (console_rows c db f k) then Some (cd_uuid c (fst (console_rows c db f k ! 199))) else None)"
proof -
  let ?q = "console_query f (map_option (the \<circ> cd_parse c) k)"
  have q: "page_limit ?q = 200" "tq_active ?q = active_of f"
    by (simp_all add: page_limit_def console_query_def)
  obtain page where page: "CurrentTopology c now no_faults db ?q = Inr page"
    "t_machines page = Some (map (json_machine c db (active_of f)) (take 200 (console_rows c db f k)))"
    "next_cursor page = (if 200 < length (console_rows c db f k) then Some (cd_uuid c (fst (console_rows c db f k ! 199))) else None)"
    using CurrentTopology_page [OF assms(2), of no_faults c now ?q]
    by (auto simp: no_faults_def q console_rows_def)
  have body: "currentTopology c now no_faults db (request_params f True k) = Body page"
    by (simp add: currentTopology_def topologyQuery_console [OF assms(1,3,4)] page(1))
  with page show "currentTopology c now no_faults db (request_params f True k) = Body (serve c now db (request_params f True k))"
    and "or_empty (t_machines (serve c now db (request_params f True k))) =
      map (json_machine c db (active_of f)) (take 200 (console_rows c db f k))"
    and "next_cursor (serve c now db (request_params f True k)) =
      (if 200 < length (console_rows c db f k) then Some (cd_uuid c (fst (console_rows c db f k ! 199))) else None)"
    by (simp_all add: serve_def body)
qed

lemma filter_above_nth:
  fixes xs :: "('a::linorder \<times> 'b) list"
  assumes "sorted_wrt (<) (map fst xs)" and "i < length xs"
  shows "filter (\<lambda>r. fst (xs ! i) < fst r) xs = drop (Suc i) xs"
proof -
  have le: "\<not> fst (xs ! i) < fst r" if r: "r \<in> set (take (Suc i) xs)" for r
  proof -
    obtain j where "j < length (take (Suc i) xs)" "r = take (Suc i) xs ! j"
      using r by (auto simp only: in_set_conv_nth)
    then have "j \<le> i" "r = xs ! j" by simp_all
    then show ?thesis using assms(2) sorted_wrt_nth_less [OF assms(1), of j i] by (cases "j = i") auto
  qed
  have gt: "fst (xs ! i) < fst r" if r: "r \<in> set (drop (Suc i) xs)" for r
  proof -
    obtain j where "j < length (drop (Suc i) xs)" "r = drop (Suc i) xs ! j"
      using r by (auto simp only: in_set_conv_nth)
    then have "Suc i + j < length xs" "r = xs ! (Suc i + j)" by simp_all
    then show ?thesis using sorted_wrt_nth_less [OF assms(1), of i "Suc i + j"] by simp
  qed
  have "filter (\<lambda>r. fst (xs ! i) < fst r) (take (Suc i) xs @ drop (Suc i) xs) = drop (Suc i) xs"
    unfolding filter_append using le gt by (simp add: filter_empty_conv filter_id_conv)
  then show ?thesis by (simp only: append_take_drop_id)
qed

lemma sorted_console_rows: "sorted_wrt (<) (map fst (console_rows c db f k))"
proof -
  have "sorted_wrt (<) (map fst (RBT.entries (db_machines db)))"
    using RBT.sorted_entries [of "db_machines db"] RBT.distinct_entries [of "db_machines db"]
    by (simp add: strict_sorted_iff)
  then show ?thesis
    by (simp add: console_rows_def matching_rows_def sorted_wrt_map sorted_wrt_filter)
qed

lemma console_rows_next:
  assumes "codec_ok c" and "i < length (console_rows c db f k)"
  shows "console_rows c db f (Some (cd_uuid c (fst (console_rows c db f k ! i)))) = drop (Suc i) (console_rows c db f k)"
proof -
  define u where "u = fst (console_rows c db f k ! i)"
  have mem: "console_rows c db f k ! i \<in> set (console_rows c db f k)" using assms(2) by (rule nth_mem)
  then have above: "case map_option (the \<circ> cd_parse c) k of None \<Rightarrow> True | Some w \<Rightarrow> w < u"
    by (auto simp: u_def console_rows_def matching_rows_def row_matches_def console_query_def split: option.splits)
  have "row_matches (console_query f (map_option (the \<circ> cd_parse c) (Some (cd_uuid c u)))) r \<longleftrightarrow>
      row_matches (console_query f (map_option (the \<circ> cd_parse c) k)) r \<and> u < fst r" for r
    using above assms(1)
    by (cases r; cases k) (auto simp: row_matches_def console_query_def codec_ok_def)
  then have "console_rows c db f (Some (cd_uuid c u)) = filter (\<lambda>r. u < fst r) (console_rows c db f k)"
    unfolding console_rows_def matching_rows_def filter_filter by (intro filter_cong) auto
  then show ?thesis
    using filter_above_nth [OF sorted_console_rows assms(2)] by (simp add: u_def)
qed

lemma controller_paged_source:
  assumes "codec_ok c" and "links_ok db"
  shows "paged_source (serve c now db) (console_window c db) (valid_cursor c)"
proof
  show "valid_cursor c None" by (simp add: valid_cursor_def)
next
  fix f k json
  assume f: "f \<in> set filter_options" and k: "valid_cursor c k" and json: "json = serve c now db (request_params f True k)"
  note page = serve_page [OF assms f k, of now]
  let ?rows = "console_rows c db f k"
  show "or_empty (t_machines json) @ (case next_cursor json of None \<Rightarrow> [] | Some k \<Rightarrow> console_window c db f (Some k)) =
      console_window c db f k"
  proof (cases "200 < length ?rows")
    case True
    then have "console_window c db f (Some (cd_uuid c (fst (?rows ! 199)))) = map (json_machine c db (active_of f)) (drop 200 ?rows)"
      using console_rows_next [OF assms(1), of 199 db f k] by (simp add: console_window_def)
    with True show ?thesis
      by (simp add: json page console_window_def flip: map_append)
  qed (simp add: json page console_window_def)
next
  fix f k s
  assume f: "f \<in> set filter_options" and k: "valid_cursor c k"
    and s: "next_cursor (serve c now db (request_params f True k)) = Some s"
  note page = serve_page [OF assms f k, of now]
  from s have len: "200 < length (console_rows c db f k)" and "s = cd_uuid c (fst (console_rows c db f k ! 199))"
    unfolding page(3) by (simp_all split: if_splits)
  moreover have "take 200 (console_rows c db f k) \<noteq> []" using len by (cases "console_rows c db f k") simp_all
  ultimately show "valid_cursor c (Some s) \<and> s \<noteq> [] \<and> or_empty (t_machines (serve c now db (request_params f True k))) \<noteq> []"
    using assms(1) by (auto simp: page(2) valid_cursor_def codec_ok_def)
qed

section \<open>The text form of a UUID\<close>

text \<open>
  The canonical text, five groups of lower-case hexadecimal digits. It shows that the hypothesis
  on the codec can be met.
\<close>

definition hex_digit :: "nat \<Rightarrow> code_unit" where
  "hex_digit n = of_nat (if n < 10 then 48 + n else 87 + n)"

definition hex_val :: "code_unit \<Rightarrow> nat" where
  "hex_val u = (if unat u < 58 then unat u - 48 else unat u - 87)"

fun hex_text :: "nat \<Rightarrow> nat \<Rightarrow> jsstr" where
  "hex_text 0 x = []"
| "hex_text (Suc n) x = hex_text n (x div 16) @ [hex_digit (x mod 16)]"

definition hex_number :: "jsstr \<Rightarrow> nat" where
  "hex_number s = foldl (\<lambda>a u. a * 16 + hex_val u) 0 s"

definition uuid_text :: "uuid \<Rightarrow> jsstr" where
  "uuid_text u =
     (let h = hex_text 32 (unat u)
      in take 8 h @ 0x2D # take 4 (drop 8 h) @ 0x2D # take 4 (drop 12 h) @ 0x2D # take 4 (drop 16 h) @ 0x2D # drop 20 h)"

definition uuid_parse :: "jsstr \<Rightarrow> uuid option" where
  "uuid_parse s =
     (let h = filter (\<lambda>u. u \<noteq> 0x2D) s
      in if length s = 36 \<and> length h = 32 then Some (of_nat (hex_number h)) else None)"

definition text_codec :: codec where
  "text_codec = \<lparr>cd_uuid = uuid_text, cd_parse = uuid_parse, cd_time = int_str\<rparr>"

lemma unat_hex_digit: "n < 16 \<Longrightarrow> unat (hex_digit n) = (if n < 10 then 48 + n else 87 + n)"
  by (simp add: hex_digit_def unat_of_nat)

lemma hex_val_digit: "n < 16 \<Longrightarrow> hex_val (hex_digit n) = n"
  by (simp add: hex_val_def unat_hex_digit)

lemma hex_digit_range:
  "n < 16 \<Longrightarrow> hex_digit n \<noteq> 0x2D \<and> hex_digit n \<noteq> colon"
proof -
  assume n: "n < 16"
  have "unat (hex_digit n) \<noteq> 45" "unat (hex_digit n) \<noteq> 58"
    using n by (auto simp: unat_hex_digit)
  moreover have "unat (0x2D :: code_unit) = 45" "unat colon = 58" by (simp_all add: colon_def)
  ultimately show ?thesis by metis
qed

lemma length_hex_text: "length (hex_text n x) = n"
  by (induction n arbitrary: x) simp_all

lemma set_hex_text: "u \<in> set (hex_text n x) \<Longrightarrow> u \<noteq> 0x2D \<and> u \<noteq> colon"
proof (induction n arbitrary: x)
  case (Suc n)
  then show ?case using hex_digit_range [of "x mod 16"] by auto
qed simp

lemma hex_number_text: "hex_number (hex_text n x) = x mod 16 ^ n"
proof (induction n arbitrary: x)
  case (Suc n)
  have "hex_number (hex_text (Suc n) x) = (x div 16 mod 16 ^ n) * 16 + x mod 16"
    using Suc.IH [of "x div 16"] by (simp add: hex_number_def hex_val_digit)
  also have "\<dots> = x mod 16 ^ Suc n" by (simp add: mod_mult2_eq)
  finally show ?case .
qed (simp add: hex_number_def)

lemma five_groups: "take 8 h @ take 4 (drop 8 h) @ take 4 (drop 12 h) @ take 4 (drop 16 h) @ drop 20 h = h"
proof -
  have "take 4 (drop 16 h) @ drop 20 h = drop 16 h" "take 4 (drop 12 h) @ drop 16 h = drop 12 h"
    "take 4 (drop 8 h) @ drop 12 h = drop 8 h"
    using append_take_drop_id [of 4 "drop 16 h"] append_take_drop_id [of 4 "drop 12 h"]
      append_take_drop_id [of 4 "drop 8 h"] by simp_all
  then show ?thesis by simp
qed

lemma text_codec_ok: "codec_ok text_codec"
  unfolding codec_ok_def text_codec_def codec.simps
proof (intro conjI allI)
  fix u :: uuid
  let ?h = "hex_text 32 (unat u)"
  have h: "length ?h = 32" "\<And>v. v \<in> set ?h \<Longrightarrow> v \<noteq> 0x2D \<and> v \<noteq> colon" "hex_number ?h = unat u mod 16 ^ 32"
    using length_hex_text [of 32] set_hex_text [of _ 32] hex_number_text [of 32] by auto
  have "unat u < 16 ^ 32" by (rule order_less_le_trans [OF unsigned_less]) simp
  then have num: "hex_number ?h = unat u" using h(3) by simp
  have sub: "filter (\<lambda>v. v \<noteq> 0x2D) xs = xs" if "set xs \<subseteq> set ?h" for xs
    using that h(2) by (auto simp: filter_id_conv)
  have "filter (\<lambda>v. v \<noteq> 0x2D) (uuid_text u) =
      take 8 ?h @ take 4 (drop 8 ?h) @ take 4 (drop 12 ?h) @ take 4 (drop 16 ?h) @ drop 20 ?h"
    unfolding uuid_text_def Let_def
    by (simp add: sub set_take_subset set_drop_subset order_trans [OF set_take_subset set_drop_subset])
  then have "filter (\<lambda>v. v \<noteq> 0x2D) (uuid_text u) = ?h" by (simp only: five_groups)
  moreover have "length (uuid_text u) = 36" by (simp add: uuid_text_def Let_def h(1))
  ultimately show "uuid_parse (uuid_text u) = Some u" by (simp add: uuid_parse_def h(1) num)
  then show "uuid_text u \<noteq> []" by (auto simp: uuid_parse_def)
  show "colon \<notin> set (uuid_text u)"
    using h(2) set_take_subset set_drop_subset
    by (auto simp: uuid_text_def Let_def colon_def dest!: in_set_takeD in_set_dropD)
qed

section \<open>The controller as a paged source\<close>

text \<open>The codecs and databases that meet the hypotheses, as a type: the interface is
  implemented for all of them at once.\<close>

typedef deployment = "{d :: codec \<times> database. codec_ok (fst d) \<and> links_ok (snd d)}"
proof -
  have "RBT.entries (RBT.empty :: (uuid \<times> int, link_rec) RBT.rbt) = []"
    by (simp add: RBT.entries.rep_eq RBT.empty.rep_eq)
  then have "links_ok empty_database" by (simp add: links_ok_def empty_database_def)
  with text_codec_ok show ?thesis
    by (intro exI [of _ "(text_codec, empty_database)"]) simp
qed

abbreviation codec_of :: "deployment \<Rightarrow> codec" where
  "codec_of d \<equiv> fst (Rep_deployment d)"

abbreviation database_of :: "deployment \<Rightarrow> database" where
  "database_of d \<equiv> snd (Rep_deployment d)"

interpretation controller: paged_source "serve (codec_of d) now (database_of d)"
    "console_window (codec_of d) (database_of d)" "valid_cursor (codec_of d)" for d now
  using Rep_deployment [of d] by (intro controller_paged_source) simp_all

section \<open>Validation and failures\<close>

definition param_ok :: "url_params \<Rightarrow> string \<Rightarrow> (jsstr \<Rightarrow> bool) \<Rightarrow> bool" where
  "param_ok params name ok \<longleftrightarrow> get_param params name = [] \<or> ok (get_param params name)"

definition limit_ok :: "jsstr \<Rightarrow> bool" where
  "limit_ok s = (case atoi s of None \<Rightarrow> False | Some n \<Rightarrow> 1 \<le> n \<and> n \<le> 500)"

lemma optional_param_Inr:
  "(\<exists>v. optional_param params name parse m = Inr v) \<longleftrightarrow> param_ok params name (\<lambda>s. parse s \<noteq> None)"
  by (auto simp: optional_param_def Let_def param_ok_def split: option.splits)

lemma and_then_Inr: "and_then r f = Inr y \<longleftrightarrow> (\<exists>x. r = Inr x \<and> f x = Inr y)"
  by (cases r) auto

lemma parse_limit_ok:
  "(\<lambda>s. (case atoi s of None \<Rightarrow> None | Some n \<Rightarrow> if n < 1 \<or> 500 < n then None else Some n) \<noteq> None) = limit_ok"
  by (rule ext) (auto simp: limit_ok_def split: option.splits)

lemma optional_limit_range:
  assumes "optional_param params ''limit''
    (\<lambda>s. case atoi s of None \<Rightarrow> None | Some n \<Rightarrow> if n < 1 \<or> 500 < n then None else Some n) m = Inr limit"
  shows "1 \<le> (case limit of None \<Rightarrow> 100 | Some n \<Rightarrow> n) \<and> (case limit of None \<Rightarrow> 100 | Some n \<Rightarrow> n) \<le> 500"
  using assms by (auto simp: optional_param_def Let_def split: option.splits if_splits)

text \<open>
  C31. The endpoint validates before it reads. A request is rejected with 400 exactly when one of
  its parameters is present and malformed (a boolean, two UUIDs, a limit from 1 to 500); an
  accepted query always has a limit in that range, and then the answer is 503 exactly when the
  store fails, and a body otherwise.
\<close>

theorem endpoint_outcomes:
  "(currentTopology c now faults db params = HttpStatus 400 \<longleftrightarrow>
      \<not> (param_ok params ''active'' (\<lambda>s. parse_bool s \<noteq> None) \<and> param_ok params ''machine_id'' (\<lambda>s. cd_parse c s \<noteq> None) \<and>
         param_ok params ''cursor'' (\<lambda>s. cd_parse c s \<noteq> None) \<and> param_ok params ''limit'' limit_ok)) \<and>
   (\<forall>q. topologyQuery c params = Inr q \<longrightarrow>
      1 \<le> tq_limit q \<and> tq_limit q \<le> 500 \<and>
      (case CurrentTopology c now faults db q of
         Inl e \<Rightarrow> currentTopology c now faults db params = HttpStatus 503
       | Inr page \<Rightarrow> currentTopology c now faults db params = Body page))"
proof (intro conjI allI impI)
  have "(\<exists>q. topologyQuery c params = Inr q) \<longleftrightarrow>
      param_ok params ''active'' (\<lambda>s. parse_bool s \<noteq> None) \<and> param_ok params ''machine_id'' (\<lambda>s. cd_parse c s \<noteq> None) \<and>
      param_ok params ''cursor'' (\<lambda>s. cd_parse c s \<noteq> None) \<and> param_ok params ''limit'' limit_ok"
    unfolding topologyQuery_def and_then_Inr parse_limit_ok [symmetric]
      optional_param_Inr [symmetric, where m = "''active must be true or false''" and name = "''active''"]
      optional_param_Inr [symmetric, where m = "''machine_id must be a UUID''" and name = "''machine_id''"]
      optional_param_Inr [symmetric, where m = "''cursor must be a UUID''" and name = "''cursor''"]
      optional_param_Inr [symmetric, where m = "''limit must be between 1 and 500''" and name = "''limit''"]
    by blast
  moreover have "currentTopology c now faults db params = HttpStatus 400 \<longleftrightarrow> \<not> (\<exists>q. topologyQuery c params = Inr q)"
    by (auto simp: currentTopology_def split: sum.splits)
  ultimately show "currentTopology c now faults db params = HttpStatus 400 \<longleftrightarrow>
      \<not> (param_ok params ''active'' (\<lambda>s. parse_bool s \<noteq> None) \<and> param_ok params ''machine_id'' (\<lambda>s. cd_parse c s \<noteq> None) \<and>
         param_ok params ''cursor'' (\<lambda>s. cd_parse c s \<noteq> None) \<and> param_ok params ''limit'' limit_ok)"
    by blast
next
  fix q
  assume q: "topologyQuery c params = Inr q"
  show "1 \<le> tq_limit q" "tq_limit q \<le> 500"
    using q unfolding topologyQuery_def by (auto simp: and_then_Inr dest!: optional_limit_range)
  show "case CurrentTopology c now faults db q of
      Inl e \<Rightarrow> currentTopology c now faults db params = HttpStatus 503
    | Inr page \<Rightarrow> currentTopology c now faults db params = Body page"
    by (simp add: currentTopology_def q split: sum.splits)
qed

theorem endpoint_outcomes_witness:
  "currentTopology text_codec 0 no_faults empty_database [(''limit'', js ''501'')] = HttpStatus 400"
proof -
  have "\<not> param_ok [(''limit'', js ''501'')] ''limit'' limit_ok" by code_simp
  with endpoint_outcomes [of text_codec 0 no_faults empty_database "[(''limit'', js ''501'')]"]
  show ?thesis by blast
qed

section \<open>A small database\<close>

definition sample_db :: database where
  "sample_db = empty_database
     \<lparr>db_machines := RBT.insert 5 \<lparr>mc_remote_url = [], mc_hostname = js ''a'', mc_easytier_version = [],
        mc_report_time = [], mc_connected_at = 0, mc_last_heartbeat_at = 0, mc_os_type = None, mc_os_version = None,
        mc_distribution = None, mc_active = True, mc_disappeared_at = None, mc_last_observed_at = 0,
        mc_last_collection_completed_at = 0, mc_last_collection_id = 1, mc_updated_at = 0\<rparr> RBT.empty,
      db_links := RBT.insert (9, 7) \<lparr>lc_ipv4 = None, lc_hostname = [], lc_next_hop_peer_id = 7, lc_direct = True,
        lc_path_cost = 1, lc_latency_ms = None, lc_loss_rate = None, lc_rx_bytes = Some 10, lc_tx_bytes = None,
        lc_tunnel_protocols = None, lc_easytier_version = [], lc_last_observed_at = 0,
        lc_last_collection_completed_at = 0, lc_last_collection_id = 1, lc_updated_at = 0\<rparr> RBT.empty\<rparr>"

lemma sample_db_facts: "links_ok sample_db" "length (matching_rows sample_db (console_query [] None)) = 1"
  by (simp_all add: links_ok_def matching_rows_def sample_db_def empty_database_def entries_singleton fits64_def
      row_matches_def console_query_def active_of_def)

theorem CurrentTopology_refines_witness:
  "\<exists>page m. CurrentTopology text_codec 0 no_faults sample_db (console_query [] None) = Inr page \<and>
     t_machines page = Some [m] \<and> next_cursor page = None"
proof -
  have nf: "\<forall>st. no_faults st = None" by (simp add: no_faults_def)
  obtain row where "matching_rows sample_db (console_query [] None) = [row]"
    using sample_db_facts(2) by (auto simp: length_Suc_conv)
  moreover have "page_limit (console_query [] None) = 200" by (simp add: page_limit_def console_query_def)
  ultimately show ?thesis
    using CurrentTopology_refines [OF sample_db_facts(1) nf, of text_codec 0 "console_query [] None"] by auto
qed

theorem response_identifiers_witness:
  "\<exists>page. CurrentTopology text_codec 0 no_faults sample_db (console_query [] None) = Inr page \<and>
     unique_ids (or_empty (t_machines page))"
proof -
  have nf: "\<forall>st. no_faults st = None" by (simp add: no_faults_def)
  obtain page where page: "CurrentTopology text_codec 0 no_faults sample_db (console_query [] None) = Inr page"
    using CurrentTopology_page [OF sample_db_facts(1) nf] by blast
  from response_identifiers [OF text_codec_ok sample_db_facts(1) nf page] page show ?thesis by blast
qed

end
