(* ===== verification/Limiter.thy ===== *)
theory Limiter
  imports Go_Base Js_Number Event_System "HOL-Library.AList" "HOL-Library.Signed_Division"
begin

text \<open>
  The login limiter of \<^verbatim>\<open>controller/internal/auth/limiter.go\<close>: one token bucket per client address,
  a burst of 8 tokens, one token every 30 seconds, entries idle for more than 30 minutes removed,
  at most 4096 clients tracked. Instants and durations are nanoseconds; token counts are binary64
  numbers with the rounding of every operation. The mutex makes each call atomic, so a history of
  the limiter is a sequence of calls whose clock readings do not decrease.
\<close>

section \<open>Durations\<close>

definition second :: int where
  "second = 10 ^ 9"

text \<open>
  \<^verbatim>\<open>t.Sub(u)\<close> saturates at the limits of a 64-bit duration; \<^verbatim>\<open>d.Seconds()\<close> adds the whole seconds
  and the fraction, each a binary64 number, with the truncating division of Go.
\<close>

definition Sub :: "int \<Rightarrow> int \<Rightarrow> int" where
  "Sub t u = max (- (2 ^ 63)) (min (2 ^ 63 - 1) (t - u))"

definition Seconds :: "int \<Rightarrow> jsnum" where
  "Seconds d = fadd (of_int (d sdiv second)) (fdiv (of_int (d smod second)) (of_int second))"

section \<open>The limiter\<close>

definition defaultBurst :: jsnum where
  "defaultBurst = 8"

definition defaultRefill :: int where
  "defaultRefill = 30 * second"

definition limiterSweepAfter :: int where
  "limiterSweepAfter = 30 * 60 * second"

definition maxTrackedClients :: nat where
  "maxTrackedClients = 4096"

record bucket =
  bk_tokens :: jsnum
  bk_lastSeen :: int

record limiter =
  lm_buckets :: "(bytes \<times> bucket) list"
  lm_burst :: jsnum
  lm_refill :: int

definition NewLoginLimiter :: limiter where
  "NewLoginLimiter = \<lparr>lm_buckets = [], lm_burst = defaultBurst, lm_refill = defaultRefill\<rparr>"

definition sweepLocked :: "int \<Rightarrow> limiter \<Rightarrow> limiter" where
  "sweepLocked now l =
     l\<lparr>lm_buckets := filter (\<lambda>(key, entry). \<not> Sub now (bk_lastSeen entry) > limiterSweepAfter) (lm_buckets l)\<rparr>"

definition replenished :: "int \<Rightarrow> limiter \<Rightarrow> bucket \<Rightarrow> jsnum" where
  "replenished now l entry =
     min (fadd (bk_tokens entry) (fdiv (Seconds (Sub now (bk_lastSeen entry))) (Seconds (lm_refill l)))) (lm_burst l)"

definition put_bucket :: "bytes \<Rightarrow> bucket \<Rightarrow> limiter \<Rightarrow> limiter" where
  "put_bucket client entry l = l\<lparr>lm_buckets := AList.update client entry (lm_buckets l)\<rparr>"

definition spend :: "int \<Rightarrow> bytes \<Rightarrow> bucket \<Rightarrow> limiter \<Rightarrow> limiter \<times> bool" where
  "spend now client entry l =
     (let tokens = replenished now l entry in
      if tokens < 1 then (put_bucket client \<lparr>bk_tokens = tokens, bk_lastSeen = now\<rparr> l, False)
      else (put_bucket client \<lparr>bk_tokens = fsub tokens 1, bk_lastSeen = now\<rparr> l, True))"

definition Allow :: "int \<Rightarrow> bytes \<Rightarrow> limiter \<Rightarrow> limiter \<times> bool" where
  "Allow now client l =
     (let l1 = sweepLocked now l in
      case map_of (lm_buckets l1) client of
        Some entry \<Rightarrow> spend now client entry l1
      | None \<Rightarrow>
          if length (lm_buckets l1) \<ge> maxTrackedClients then (l1, False)
          else spend now client \<lparr>bk_tokens = lm_burst l1, bk_lastSeen = now\<rparr> l1)"

definition Refund :: "bytes \<Rightarrow> limiter \<Rightarrow> limiter" where
  "Refund client l =
     (case map_of (lm_buckets l) client of
        None \<Rightarrow> l
      | Some entry \<Rightarrow> put_bucket client (entry\<lparr>bk_tokens := min (fadd (bk_tokens entry) 1) (lm_burst l)\<rparr>) l)"

definition RetryAfter :: "limiter \<Rightarrow> int" where
  "RetryAfter l = lm_refill l"

section \<open>Histories\<close>

text \<open>A limiter with the latest clock reading, and the calls that can follow.\<close>

record limiter_run =
  lr_limiter :: limiter
  lr_clock :: int

datatype limiter_call = AllowCall int bytes | RefundCall bytes

definition limiter_start :: "int \<Rightarrow> limiter_run" where
  "limiter_start t = \<lparr>lr_limiter = NewLoginLimiter, lr_clock = t\<rparr>"

fun limiter_enabled :: "limiter_call \<Rightarrow> limiter_run \<Rightarrow> bool" where
  "limiter_enabled (AllowCall t client) s \<longleftrightarrow> lr_clock s \<le> t"
| "limiter_enabled (RefundCall client) s \<longleftrightarrow> True"

fun limiter_exec :: "limiter_call \<Rightarrow> limiter_run \<Rightarrow> limiter_run" where
  "limiter_exec (AllowCall t client) s = \<lparr>lr_limiter = fst (Allow t client (lr_limiter s)), lr_clock = t\<rparr>"
| "limiter_exec (RefundCall client) s = s\<lparr>lr_limiter := Refund client (lr_limiter s)\<rparr>"

text \<open>The answer of a call and the calls that concern a client.\<close>

fun admits :: "bytes \<Rightarrow> limiter_call \<Rightarrow> limiter_run \<Rightarrow> bool" where
  "admits c (AllowCall t client) s \<longleftrightarrow> client = c \<and> snd (Allow t client (lr_limiter s))"
| "admits c (RefundCall client) s \<longleftrightarrow> False"

fun attempt_of :: "bytes \<Rightarrow> limiter_call \<Rightarrow> bool" where
  "attempt_of c (AllowCall t client) \<longleftrightarrow> client = c"
| "attempt_of c (RefundCall client) \<longleftrightarrow> False"

fun refund_of :: "bytes \<Rightarrow> limiter_call \<Rightarrow> bool" where
  "refund_of c (AllowCall t client) \<longleftrightarrow> False"
| "refund_of c (RefundCall client) \<longleftrightarrow> client = c"

definition admitted :: "bytes \<Rightarrow> limiter_call list \<Rightarrow> limiter_run \<Rightarrow> nat" where
  "admitted c es s = total (\<lambda>e s. if admits c e s then 1 else 0) limiter_exec es s"

section \<open>The invariant\<close>

definition bucket_ok :: "int \<Rightarrow> bucket \<Rightarrow> bool" where
  "bucket_ok now entry \<longleftrightarrow> 0 \<le> bk_tokens entry \<and> bk_tokens entry \<le> 8 \<and> bk_lastSeen entry \<le> now"

definition limiter_ok :: "limiter_run \<Rightarrow> bool" where
  "limiter_ok s \<longleftrightarrow>
     lm_burst (lr_limiter s) = 8 \<and> lm_refill (lr_limiter s) = 30 * second \<and>
     length (lm_buckets (lr_limiter s)) \<le> maxTrackedClients \<and>
     distinct (map fst (lm_buckets (lr_limiter s))) \<and>
     (\<forall>(key, entry) \<in> set (lm_buckets (lr_limiter s)). bucket_ok (lr_clock s) entry)"

lemma limiter_okD:
  assumes "limiter_ok s" and "map_of (lm_buckets (lr_limiter s)) c = Some entry"
  shows "bucket_ok (lr_clock s) entry"
  using assms map_of_SomeD [OF assms(2)] by (auto simp: limiter_ok_def)

lemma second_pos [simp]: "0 < second" "0 \<le> second" "\<not> second < 0" "second \<noteq> 0"
  by (simp_all add: second_def)

lemma Sub_exact: "\<bar>t - u\<bar> < 2 ^ 63 \<Longrightarrow> Sub t u = t - u"
  by (auto simp: Sub_def)

lemma Sub_greater: "u \<le> t \<Longrightarrow> Sub t u > limiterSweepAfter \<longleftrightarrow> t - u > limiterSweepAfter"
  by (auto simp: Sub_def limiterSweepAfter_def second_def)

lemma set_AList_update: "set (AList.update k v al) \<subseteq> insert (k, v) (set al)"
  by (induction al) auto

lemma length_AList_update:
  "length (AList.update k v al) = (if k \<in> fst ` set al then length al else Suc (length al))"
  by (induction al) auto

lemma limiter_fields [simp]:
  "lm_burst (put_bucket c e l) = lm_burst l" "lm_refill (put_bucket c e l) = lm_refill l"
  "lm_burst (sweepLocked now l) = lm_burst l" "lm_refill (sweepLocked now l) = lm_refill l"
  by (simp_all add: put_bucket_def sweepLocked_def)

lemma map_of_put_bucket [simp]:
  "map_of (lm_buckets (put_bucket c e l)) c' = (if c' = c then Some e else map_of (lm_buckets l) c')"
  by (simp add: put_bucket_def AList.update_conv')

lemma map_of_filter_value:
  "distinct (map fst al) \<Longrightarrow>
     map_of (filter (\<lambda>(k, v). P v) al) k = (case map_of al k of None \<Rightarrow> None | Some v \<Rightarrow> if P v then Some v else None)"
  by (induction al) (auto simp: map_of_eq_None_iff rev_image_eqI split: option.splits)

lemma limiter_ok_put:
  assumes "limiter_ok s" and "lr_clock s \<le> now" and "bucket_ok now e"
    and "map_of (lm_buckets (lr_limiter s)) c = None \<Longrightarrow> length (lm_buckets (lr_limiter s)) < maxTrackedClients"
  shows "limiter_ok \<lparr>lr_limiter = put_bucket c e (lr_limiter s), lr_clock = now\<rparr>"
proof -
  let ?al = "lm_buckets (lr_limiter s)"
  have "length (AList.update c e ?al) \<le> maxTrackedClients"
    using assms(1,4) by (auto simp: limiter_ok_def length_AList_update map_of_eq_None_iff)
  moreover have "\<forall>(k, x) \<in> set ?al. bucket_ok now x"
    using assms(1,2) by (force simp: limiter_ok_def bucket_ok_def)
  then have "\<forall>(k, x) \<in> set (AList.update c e ?al). bucket_ok now x"
    using set_AList_update [of c e ?al] assms(3) by auto
  ultimately show ?thesis
    using assms(1) by (simp add: limiter_ok_def put_bucket_def AList.distinct_update)
qed

lemma limiter_ok_sweep:
  assumes "limiter_ok s"
  shows "limiter_ok (s\<lparr>lr_limiter := sweepLocked now (lr_limiter s)\<rparr>)"
proof -
  have "length (lm_buckets (sweepLocked now (lr_limiter s))) \<le> length (lm_buckets (lr_limiter s))"
    by (simp add: sweepLocked_def)
  with assms have "length (lm_buckets (sweepLocked now (lr_limiter s))) \<le> maxTrackedClients"
    by (simp add: limiter_ok_def)
  with assms show ?thesis
    by (auto simp: limiter_ok_def sweepLocked_def distinct_map_filter)
qed

lemma sweep_lookup:
  assumes "limiter_ok s" and "lr_clock s \<le> now"
  shows "map_of (lm_buckets (sweepLocked now (lr_limiter s))) c =
    (case map_of (lm_buckets (lr_limiter s)) c of
       None \<Rightarrow> None
     | Some e \<Rightarrow> if now - bk_lastSeen e > limiterSweepAfter then None else Some e)"
proof -
  have "Sub now (bk_lastSeen e) > limiterSweepAfter \<longleftrightarrow> now - bk_lastSeen e > limiterSweepAfter"
    if "map_of (lm_buckets (lr_limiter s)) c = Some e" for e
    using limiter_okD [OF assms(1) that] assms(2) by (intro Sub_greater) (simp add: bucket_ok_def)
  moreover have "distinct (map fst (lm_buckets (lr_limiter s)))"
    using assms(1) by (simp add: limiter_ok_def)
  ultimately show ?thesis
    by (simp add: sweepLocked_def map_of_filter_value [where P = "\<lambda>v. \<not> Sub now (bk_lastSeen v) > limiterSweepAfter"]
        split: option.splits)
qed

text \<open>
  An attempt either finds the table full, or is decided on a bucket that is at most 30 minutes old:
  the client's own or a full one.
\<close>

lemma Allow_cases:
  assumes "limiter_ok s" and "lr_clock s \<le> now"
  obtains (full) "map_of (lm_buckets (sweepLocked now (lr_limiter s))) c = None"
      "Allow now c (lr_limiter s) = (sweepLocked now (lr_limiter s), False)"
      "maxTrackedClients \<le> length (lm_buckets (sweepLocked now (lr_limiter s)))"
  | (known) e where "map_of (lm_buckets (lr_limiter s)) c = Some e" "now - bk_lastSeen e \<le> limiterSweepAfter"
      "bk_lastSeen e \<le> now" "bucket_ok now e"
      "map_of (lm_buckets (sweepLocked now (lr_limiter s))) c = Some e"
      "Allow now c (lr_limiter s) = spend now c e (sweepLocked now (lr_limiter s))"
  | (fresh) e where "map_of (lm_buckets (sweepLocked now (lr_limiter s))) c = None" "e = \<lparr>bk_tokens = 8, bk_lastSeen = now\<rparr>"
      "bucket_ok now e" "length (lm_buckets (sweepLocked now (lr_limiter s))) < maxTrackedClients"
      "Allow now c (lr_limiter s) = spend now c e (sweepLocked now (lr_limiter s))"
proof (cases "map_of (lm_buckets (sweepLocked now (lr_limiter s))) c")
  case None
  have "lm_burst (lr_limiter s) = 8" using assms(1) by (simp add: limiter_ok_def)
  with None show ?thesis
    using full fresh [OF None refl] linorder_not_le [of maxTrackedClients "length (lm_buckets (sweepLocked now (lr_limiter s)))"]
    by (auto simp: Allow_def Let_def bucket_ok_def)
next
  case (Some e)
  then have e: "map_of (lm_buckets (lr_limiter s)) c = Some e" "now - bk_lastSeen e \<le> limiterSweepAfter"
    unfolding sweep_lookup [OF assms] by (auto split: option.splits if_splits)
  from limiter_okD [OF assms(1) e(1)] assms(2) have "bk_lastSeen e \<le> now" "bucket_ok now e"
    by (simp_all add: bucket_ok_def)
  with Some e known show ?thesis by (simp add: Allow_def Let_def)
qed

section \<open>The arithmetic of a bucket\<close>

lemma Seconds_nonneg:
  assumes "0 \<le> d"
  shows "Seconds d = rnd (of_int (d div second) + rnd (of_int (d mod second) / of_int second))"
proof -
  have "d sdiv second = d div second" "d smod second = d mod second"
    using assms by (simp_all add: signed_divide_int_eq_divide_int signed_modulo_int_eq_modulo_int sgn_if second_def)
  then show ?thesis by (simp add: Seconds_def fadd_def fdiv_def)
qed

lemma Seconds_refill [simp]: "Seconds (30 * second) = 30"
proof -
  have "Seconds (30 * second) = rnd 30" by (subst Seconds_nonneg) simp_all
  then show ?thesis using binary64.r_numeral [of "num.Bit0 (num.Bit1 (num.Bit1 (num.Bit1 num.One)))"] by simp
qed

lemma Seconds_lower: "30 * second \<le> d \<Longrightarrow> 30 \<le> Seconds d"
proof -
  assume d: "30 * second \<le> d"
  then have "30 \<le> d div second" by (simp add: second_def)
  then have "(of_int 30 :: rat) \<le> of_int (d div second)" by (simp only: of_int_le_iff)
  moreover have "0 \<le> rnd (of_int (d mod second) / of_int second)"
    by (intro binary64.r_nonneg divide_nonneg_nonneg) simp_all
  ultimately have "numeral (num.Bit0 (num.Bit1 (num.Bit1 (num.Bit1 num.One)))) \<le>
      of_int (d div second) + rnd (of_int (d mod second) / of_int second)" by simp
  from binary64.r_lower_numeral [OF this] d show ?thesis by (simp add: Seconds_nonneg second_def)
qed

lemma rnd_upper: "0 \<le> x \<Longrightarrow> x \<le> b \<Longrightarrow> rnd x \<le> x + b / 2 ^ 53"
proof -
  assume x: "0 \<le> x" "x \<le> b"
  have "rnd x - x \<le> \<bar>x\<bar> / 2 ^ 53" using rnd_relative_error [of x] by (simp only: abs_le_iff)
  also have "\<dots> \<le> b / 2 ^ 53" using x by (intro divide_right_mono) simp_all
  finally show ?thesis by (simp only: diff_le_eq add.commute)
qed

lemma Seconds_upper:
  assumes "0 \<le> d" and "d \<le> 240 * second"
  shows "Seconds d \<le> of_int d / of_int second + 1 / 2 ^ 45"
proof -
  let ?q = "of_int (d div second) :: rat" and ?r = "of_int (d mod second) / of_int second :: rat"
  have eq: "?q + ?r = of_int d / of_int second"
  proof -
    have "d = second * (d div second) + d mod second" by simp
    then have "(of_int d :: rat) = of_int second * ?q + of_int (d mod second)"
      by (metis of_int_add of_int_mult)
    moreover have "(of_int second :: rat) \<noteq> 0" by simp
    ultimately show ?thesis by (simp add: field_simps)
  qed
  have bound: "of_int d / of_int second \<le> (240 :: rat)"
    using assms(2) by (simp add: divide_le_eq second_def)
  have "0 \<le> ?r" by simp
  moreover have "?r \<le> 1"
    using pos_mod_bound [of second d] by (simp add: divide_le_eq second_def)
  ultimately have r: "rnd ?r \<le> ?r + 1 / 2 ^ 53" "0 \<le> rnd ?r" "rnd ?r \<le> 1"
    by (rule rnd_upper, intro binary64.r_nonneg \<open>0 \<le> ?r\<close>, intro binary64.r_le_1 \<open>?r \<le> 1\<close>)
  have q: "0 \<le> ?q" using assms(1) by (simp add: pos_imp_zdiv_nonneg_iff)
  have q1: "?q \<le> 240" using eq bound \<open>0 \<le> ?r\<close> by linarith
  have "rnd (?q + rnd ?r) \<le> ?q + rnd ?r + 241 / 2 ^ 53"
    using q q1 r by (intro rnd_upper) linarith+
  also have "\<dots> \<le> ?q + ?r + 1 / 2 ^ 53 + 241 / 2 ^ 53"
    using r by simp
  also have "\<dots> \<le> of_int d / of_int second + 1 / 2 ^ 45" unfolding eq by simp
  finally show ?thesis unfolding Seconds_nonneg [OF assms(1)] .
qed

text \<open>The exact number of tokens that a waiting time is worth.\<close>

definition worth :: "int \<Rightarrow> rat" where
  "worth d = of_int d / of_int (30 * second)"

lemma worth_add: "worth (a + b) = worth a + worth b"
  by (simp add: worth_def add_divide_distrib)

lemma worth_0 [simp]: "worth 0 = 0"
  by (simp add: worth_def)

lemma worth_nonneg: "0 \<le> d \<Longrightarrow> 0 \<le> worth d"
  by (simp add: worth_def second_def)

lemma replenish_upper:
  assumes "0 \<le> d" and "d \<le> 240 * second" and "0 \<le> x" and "x \<le> 8"
  shows "fadd x (fdiv (Seconds d) 30) \<le> x + worth d + 1 / 2 ^ 47"
proof -
  have worth: "worth d = of_int d / of_int second / 30" by (simp add: worth_def)
  have w: "0 \<le> worth d" "worth d \<le> 8" using assms(1,2) by (auto simp: worth_def second_def divide_le_eq)
  have pos: "0 \<le> Seconds d"
    unfolding Seconds_nonneg [OF assms(1)] using assms(1)
    by (intro binary64.r_nonneg add_nonneg_nonneg) (simp_all add: pos_imp_zdiv_nonneg_iff)
  have up: "Seconds d / 30 \<le> worth d + 1 / 2 ^ 49"
    using Seconds_upper [OF assms(1,2)] by (simp add: worth)
  have f: "rnd (Seconds d / 30) \<le> Seconds d / 30 + 9 / 2 ^ 53" "0 \<le> rnd (Seconds d / 30)"
    using pos up w by (intro rnd_upper binary64.r_nonneg; simp)+
  then have f1: "fdiv (Seconds d) 30 \<le> worth d + 1 / 2 ^ 48" "0 \<le> fdiv (Seconds d) 30"
    using up by (simp_all add: fdiv_def)
  have "rnd (x + fdiv (Seconds d) 30) \<le> x + fdiv (Seconds d) 30 + 17 / 2 ^ 53"
    using f1 w assms(3,4) by (intro rnd_upper) simp_all
  then show ?thesis using f1 by (simp add: fadd_def)
qed

lemma replenish_nonneg: "0 \<le> d \<Longrightarrow> 0 \<le> x \<Longrightarrow> 0 \<le> fadd x (fdiv (Seconds d) 30)"
  by (auto simp: fadd_def fdiv_def Seconds_nonneg pos_imp_zdiv_nonneg_iff intro!: binary64.r_nonneg add_nonneg_nonneg divide_nonneg_nonneg)

lemma replenish_one: "30 * second \<le> d \<Longrightarrow> 0 \<le> x \<Longrightarrow> 1 \<le> fadd x (fdiv (Seconds d) 30)"
  using Seconds_lower [of d] binary64.r_ge_1 [of "Seconds d / 30"]
  by (auto simp: fadd_def fdiv_def intro!: binary64.r_ge_1)

text \<open>What one decision does to a bucket, in the exact arithmetic of the budget.\<close>

definition budget_of :: "int \<Rightarrow> bucket \<Rightarrow> rat" where
  "budget_of now e = min 8 (bk_tokens e + worth (now - bk_lastSeen e))"

lemma replenished_eq:
  assumes "lm_burst l = 8" and "lm_refill l = 30 * second"
    and "bk_lastSeen e \<le> now" and "now - bk_lastSeen e \<le> limiterSweepAfter"
  shows "replenished now l e = min (fadd (bk_tokens e) (fdiv (Seconds (now - bk_lastSeen e)) 30)) 8"
proof -
  have "Sub now (bk_lastSeen e) = now - bk_lastSeen e"
    using assms(3,4) by (intro Sub_exact) (simp add: limiterSweepAfter_def second_def)
  then show ?thesis by (simp add: replenished_def assms(1,2))
qed

lemma replenished_bounds:
  assumes "lm_burst l = 8" and "lm_refill l = 30 * second" and "bucket_ok now e"
    and "now - bk_lastSeen e \<le> limiterSweepAfter"
  shows "0 \<le> replenished now l e" and "replenished now l e \<le> 8"
    and "replenished now l e \<le> budget_of now e + 1 / 2 ^ 47"
proof -
  let ?d = "now - bk_lastSeen e"
  have e: "0 \<le> ?d" "0 \<le> bk_tokens e" "bk_tokens e \<le> 8" using assms(3) by (simp_all add: bucket_ok_def)
  have eq: "replenished now l e = min (fadd (bk_tokens e) (fdiv (Seconds ?d) 30)) 8"
    using e(1) by (intro replenished_eq assms) simp
  show "0 \<le> replenished now l e" "replenished now l e \<le> 8"
    unfolding eq using replenish_nonneg [OF e(1,2)] by simp_all
  show "replenished now l e \<le> budget_of now e + 1 / 2 ^ 47"
  proof (cases "?d \<le> 240 * second")
    case True
    from replenish_upper [OF e(1) True e(2,3)] show ?thesis unfolding eq budget_of_def by (simp add: min_def)
  next
    case False
    then have "8 \<le> worth ?d" by (simp add: worth_def second_def le_divide_eq)
    then show ?thesis unfolding eq budget_of_def using e(2) by (simp add: min_def)
  qed
qed

lemma fsub_one: "1 \<le> x \<Longrightarrow> x \<le> 8 \<Longrightarrow> 0 \<le> fsub x 1 \<and> fsub x 1 \<le> 8 \<and> fsub x 1 \<le> x - 1 + 1 / 2 ^ 50"
  using rnd_upper [of "x - 1" 8] binary64.r_nonneg [of "x - 1"] binary64.r_upper_numeral [of "x - 1" "num.Bit0 (num.Bit0 (num.Bit0 num.One))"]
  by (simp add: fsub_def)

lemma fadd_one: "0 \<le> x \<Longrightarrow> x \<le> 8 \<Longrightarrow> 0 \<le> fadd x 1 \<and> fadd x 1 \<le> x + 1 + 1 / 2 ^ 49"
  using rnd_upper [of "x + 1" 9] binary64.r_nonneg [of "x + 1"] by (simp add: fadd_def)

lemma spend_outcome:
  assumes "lm_burst l = 8" and "lm_refill l = 30 * second" and "bucket_ok now e"
    and "now - bk_lastSeen e \<le> limiterSweepAfter"
  obtains e' where "spend now c e l = (put_bucket c e' l, 1 \<le> replenished now l e)" and "bucket_ok now e'"
    and "bk_lastSeen e' = now" and "of_bool (1 \<le> replenished now l e) + bk_tokens e' \<le> budget_of now e + 1 / 2 ^ 46"
proof -
  note b = replenished_bounds [OF assms]
  show thesis
  proof (cases "replenished now l e < 1")
    case True
    with b show thesis
      by (intro that [of "\<lparr>bk_tokens = replenished now l e, bk_lastSeen = now\<rparr>"]) (auto simp: spend_def bucket_ok_def)
  next
    case False
    with b fsub_one [of "replenished now l e"] show thesis
      by (intro that [of "\<lparr>bk_tokens = fsub (replenished now l e) 1, bk_lastSeen = now\<rparr>"]) (auto simp: spend_def bucket_ok_def)
  qed
qed

section \<open>Every history keeps the invariant\<close>

lemma limiter_ok_start: "limiter_ok (limiter_start t)"
  by (simp add: limiter_ok_def limiter_start_def NewLoginLimiter_def defaultBurst_def defaultRefill_def)

text \<open>The state after the sweep of an attempt, at the time of the attempt.\<close>

lemma limiter_ok_swept:
  assumes "limiter_ok s" and "lr_clock s \<le> now"
  shows "limiter_ok \<lparr>lr_limiter = sweepLocked now (lr_limiter s), lr_clock = now\<rparr>"
  using limiter_ok_sweep [OF assms(1), of now] assms(2) by (auto simp: limiter_ok_def bucket_ok_def)

lemma spend_ok:
  assumes "limiter_ok s" and "lr_clock s \<le> now" and "bucket_ok now e" and "now - bk_lastSeen e \<le> limiterSweepAfter"
    and "map_of (lm_buckets (sweepLocked now (lr_limiter s))) c = None \<Longrightarrow>
      length (lm_buckets (sweepLocked now (lr_limiter s))) < maxTrackedClients"
  shows "limiter_ok \<lparr>lr_limiter = fst (spend now c e (sweepLocked now (lr_limiter s))), lr_clock = now\<rparr>"
proof -
  let ?l = "sweepLocked now (lr_limiter s)"
  have "lm_burst ?l = 8" "lm_refill ?l = 30 * second" using assms(1) by (simp_all add: limiter_ok_def)
  from spend_outcome [OF this assms(3,4)] obtain e' ok
    where e': "spend now c e ?l = (put_bucket c e' ?l, ok)" "bucket_ok now e'" by metis
  with limiter_ok_put [OF limiter_ok_swept [OF assms(1,2)], of now e' c] assms(5) show ?thesis by simp
qed

lemma limiter_exec_ok:
  assumes "limiter_ok s" and "limiter_enabled call s"
  shows "limiter_ok (limiter_exec call s)"
proof (cases call)
  case (AllowCall t c)
  then have t: "lr_clock s \<le> t" using assms(2) by simp
  from assms(1) t show ?thesis
  proof (cases rule: Allow_cases [where c = c])
    case full
    then show ?thesis using limiter_ok_swept [OF assms(1) t] by (simp add: AllowCall)
  next
    case (known e)
    then show ?thesis using spend_ok [OF assms(1) t, of e c] by (simp add: AllowCall)
  next
    case (fresh e)
    then show ?thesis using spend_ok [OF assms(1) t, of e c] by (simp add: AllowCall limiterSweepAfter_def)
  qed
next
  case (RefundCall c)
  show ?thesis
  proof (cases "map_of (lm_buckets (lr_limiter s)) c")
    case (Some e)
    from limiter_okD [OF assms(1) Some] fadd_one [of "bk_tokens e"] assms(1)
    have "bucket_ok (lr_clock s) (e\<lparr>bk_tokens := min (fadd (bk_tokens e) 1) (lm_burst (lr_limiter s))\<rparr>)"
      by (simp add: bucket_ok_def limiter_ok_def)
    from limiter_ok_put [OF assms(1) order.refl this, of c] Some show ?thesis
      by (cases s) (simp add: RefundCall Refund_def)
  qed (use assms(1) in \<open>simp add: RefundCall Refund_def\<close>)
qed

section \<open>The budget of a client\<close>

definition budget :: "bytes \<Rightarrow> limiter_run \<Rightarrow> rat" where
  "budget c s = (case map_of (lm_buckets (lr_limiter s)) c of None \<Rightarrow> 8 | Some e \<Rightarrow> budget_of (lr_clock s) e)"

fun earned :: "bytes \<Rightarrow> limiter_call \<Rightarrow> limiter_run \<Rightarrow> rat" where
  "earned c (AllowCall t client) s = worth (t - lr_clock s) + (if client = c then 1 / 2 ^ 46 else 0)"
| "earned c (RefundCall client) s = (if client = c then 1 + 1 / 2 ^ 46 else 0)"

lemma budget_at:
  "budget c \<lparr>lr_limiter = l, lr_clock = t\<rparr> = (case map_of (lm_buckets l) c of None \<Rightarrow> 8 | Some e \<Rightarrow> budget_of t e)"
  by (simp add: budget_def cong: option.case_cong)

lemma budget_of_later: "t \<le> t' \<Longrightarrow> budget_of t' e \<le> budget_of t e + worth (t' - t)"
  using worth_add [of "t - bk_lastSeen e" "t' - t"] worth_nonneg [of "t' - t"] by (simp add: budget_of_def min_def)

lemma budget_of_now: "bk_lastSeen e = now \<Longrightarrow> budget_of now e \<le> bk_tokens e"
  by (simp add: budget_of_def)

lemma budget_swept:
  assumes "limiter_ok s" and "lr_clock s \<le> now"
  shows "(case map_of (lm_buckets (sweepLocked now (lr_limiter s))) c of None \<Rightarrow> 8 | Some e \<Rightarrow> budget_of now e)
    \<le> budget c s + worth (now - lr_clock s)"
proof (cases "map_of (lm_buckets (lr_limiter s)) c")
  case None
  then show ?thesis using assms by (simp add: sweep_lookup budget_def worth_nonneg)
next
  case (Some e)
  then have later: "budget_of now e \<le> budget c s + worth (now - lr_clock s)"
    using budget_of_later [OF assms(2), of e] by (simp add: budget_def)
  moreover have "budget_of now e = 8" if "now - bk_lastSeen e > limiterSweepAfter"
  proof -
    have "60 \<le> worth (now - bk_lastSeen e)"
      using that by (simp add: worth_def second_def limiterSweepAfter_def le_divide_eq)
    then show ?thesis using limiter_okD [OF assms(1) Some] by (simp add: budget_of_def bucket_ok_def)
  qed
  ultimately show ?thesis using Some by (auto simp: sweep_lookup [OF assms])
qed

lemma budget_step:
  assumes "limiter_ok s" and "limiter_enabled call s"
  shows "of_bool (admits c call s) + budget c (limiter_exec call s) \<le> budget c s + earned c call s"
proof (cases call)
  case (AllowCall t client)
  then have t: "lr_clock s \<le> t" using assms(2) by simp
  let ?l = "sweepLocked t (lr_limiter s)"
  note swept = budget_swept [OF assms(1) t, of c]
  have l: "lm_burst ?l = 8" "lm_refill ?l = 30 * second" using assms(1) by (simp_all add: limiter_ok_def)
  have spent: ?thesis
    if "Allow t client (lr_limiter s) = spend t client e ?l" "bucket_ok t e" "t - bk_lastSeen e \<le> limiterSweepAfter"
      "client = c \<Longrightarrow> budget_of t e \<le> (case map_of (lm_buckets ?l) c of None \<Rightarrow> 8 | Some e \<Rightarrow> budget_of t e)" for e
  proof -
    from spend_outcome [OF l that(2,3), of client] obtain e'
      where e': "spend t client e ?l = (put_bucket client e' ?l, 1 \<le> replenished t ?l e)"
      "bk_lastSeen e' = t" "of_bool (1 \<le> replenished t ?l e) + bk_tokens e' \<le> budget_of t e + 1 / 2 ^ 46" by metis
    show ?thesis
      using swept that(1,4) e' budget_of_now [OF e'(2)]
      by (cases "client = c") (simp_all add: AllowCall budget_at)
  qed
  from assms(1) t show ?thesis
  proof (cases rule: Allow_cases [where c = client])
    case full
    then show ?thesis using swept by (simp add: AllowCall budget_at)
  next
    case (known e)
    then show ?thesis by (intro spent [of e]) simp_all
  next
    case (fresh e)
    then show ?thesis by (intro spent [of e]) (auto simp: budget_of_def limiterSweepAfter_def)
  qed
next
  case (RefundCall client)
  show ?thesis
  proof (cases "client = c \<and> map_of (lm_buckets (lr_limiter s)) c \<noteq> None")
    case True
    then obtain e where e: "map_of (lm_buckets (lr_limiter s)) c = Some e" by blast
    let ?e = "e\<lparr>bk_tokens := min (fadd (bk_tokens e) 1) (lm_burst (lr_limiter s))\<rparr>"
    have "bk_tokens ?e \<le> bk_tokens e + 1 + 1 / 2 ^ 49"
      using limiter_okD [OF assms(1) e] fadd_one [of "bk_tokens e"] by (auto simp: bucket_ok_def)
    then have "budget_of (lr_clock s) ?e \<le> budget_of (lr_clock s) e + 1 + 1 / 2 ^ 46"
      by (simp add: budget_of_def min_def)
    with True e show ?thesis by (simp add: RefundCall Refund_def budget_def)
  next
    case False
    then show ?thesis by (auto simp: RefundCall Refund_def budget_def split: option.splits)
  qed
qed

interpretation login_budget: amortized limiter_enabled limiter_exec "limiter_start t" limiter_ok
    "\<lambda>call s. of_bool (admits c call s)" "earned c" "budget c" for t c
proof unfold_locales
  show "0 \<le> budget c s" if "limiter_ok s" for s
    using limiter_okD [OF that] by (auto simp: budget_def budget_of_def bucket_ok_def worth_nonneg split: option.splits)
qed (intro limiter_ok_start limiter_exec_ok budget_step; assumption)+

section \<open>Properties\<close>

lemma clock_run: "trace_ok limiter_enabled limiter_exec calls s \<Longrightarrow> lr_clock s \<le> lr_clock (run_events limiter_exec calls s)"
proof (induction calls arbitrary: s)
  case (Cons call calls)
  then have "lr_clock s \<le> lr_clock (limiter_exec call s)" by (cases call) simp_all
  with Cons show ?case by fastforce
qed simp

lemma total_earned:
  "total (earned c) limiter_exec calls s =
     of_nat (length (filter (refund_of c) calls)) + worth (lr_clock (run_events limiter_exec calls s) - lr_clock s) +
     of_nat (length (filter (\<lambda>call. attempt_of c call \<or> refund_of c call) calls)) / 2 ^ 46"
proof (induction calls arbitrary: s)
  case (Cons call calls)
  show ?case
  proof (cases call)
    case (AllowCall t client)
    let ?u = "lr_clock (run_events limiter_exec calls (limiter_exec call s))"
    have "worth (?u - lr_clock s) = worth (?u - t) + worth (t - lr_clock s)"
      using worth_add [of "?u - t" "t - lr_clock s"] by simp
    moreover have "lr_clock (limiter_exec call s) = t" by (simp add: AllowCall)
    ultimately show ?thesis using Cons [of "limiter_exec call s"]
      by (simp add: AllowCall add_divide_distrib del: limiter_exec.simps)
  next
    case (RefundCall client)
    then show ?thesis using Cons [of "limiter_exec call s"] by (simp add: add_divide_distrib)
  qed
qed simp

lemma total_admits: "total (\<lambda>call s. of_bool (admits c call s)) limiter_exec calls s = (of_nat (admitted c calls s) :: rat)"
  by (induction calls arbitrary: s) (simp_all add: admitted_def)

text \<open>
  The rate limit. In every history of the limiter, with clock readings that do not decrease and
  any interleaving with other clients, sweeps and refunds, the attempts of one client that were
  admitted number at most the burst of 8, plus one for each refund to that client, plus one for
  every 30 seconds elapsed. Binary64 rounding adds less than \<open>2\<^sup>-\<^sup>4\<^sup>6\<close> per call. Removing an idle
  entry and creating it anew gives no extra attempt.
\<close>

theorem limiter_rate_bound:
  assumes "trace_ok limiter_enabled limiter_exec calls (limiter_start t)"
  shows "of_nat (admitted c calls (limiter_start t)) \<le>
    8 + of_nat (length (filter (refund_of c) calls)) +
    of_int (lr_clock (run_events limiter_exec calls (limiter_start t)) - t) / of_int (30 * second) +
    (of_nat (length (filter (\<lambda>call. attempt_of c call \<or> refund_of c call) calls)) / 2 ^ 46 :: rat)"
proof -
  have "budget c (limiter_start t) = 8" by (simp add: budget_def limiter_start_def NewLoginLimiter_def)
  with login_budget.gain_bounded [OF assms, of c] show ?thesis
    unfolding total_admits total_earned worth_def by (simp add: limiter_start_def)
qed

theorem limiter_rate_bound_witness:
  "trace_ok limiter_enabled limiter_exec [AllowCall 5 (go ''a''), RefundCall (go ''a'')] (limiter_start 0) \<and>
   (of_nat (admitted (go ''a'') [AllowCall 5 (go ''a''), RefundCall (go ''a'')] (limiter_start 0)) :: rat) \<le> 10"
proof -
  have ok: "trace_ok limiter_enabled limiter_exec [AllowCall 5 (go ''a''), RefundCall (go ''a'')] (limiter_start 0)"
    by (simp add: limiter_start_def)
  from limiter_rate_bound [OF this, of "go ''a''"] have
    "of_nat (admitted (go ''a'') [AllowCall 5 (go ''a''), RefundCall (go ''a'')] (limiter_start 0)) \<le>
      8 + 1 + 5 / of_int (30 * second) + (2 / 2 ^ 46 :: rat)"
    by (simp add: limiter_start_def)
  also have "\<dots> \<le> 10" by (simp add: second_def)
  finally show ?thesis using ok by blast
qed

text \<open>
  C35. In every reachable state the limiter tracks each client once and at most 4096 of them, every
  bucket holds between 0 and 8 tokens and was last seen no later than the clock, and the
  parameters are the defaults.
\<close>

theorem limiter_wellformed:
  assumes "reachable limiter_enabled limiter_exec (limiter_start t) s"
  shows "distinct (map fst (lm_buckets (lr_limiter s))) \<and> length (lm_buckets (lr_limiter s)) \<le> 4096 \<and>
    (\<forall>(client, entry) \<in> set (lm_buckets (lr_limiter s)).
      0 \<le> bk_tokens entry \<and> bk_tokens entry \<le> 8 \<and> bk_lastSeen entry \<le> lr_clock s) \<and>
    RetryAfter (lr_limiter s) = 30 * second"
  using login_budget.inv_reachable [OF assms]
  by (simp add: limiter_ok_def bucket_ok_def maxTrackedClients_def RetryAfter_def)

theorem limiter_wellformed_witness:
  "length (lm_buckets (lr_limiter (limiter_exec (AllowCall 5 (go ''a'')) (limiter_start 0)))) \<le> 4096"
proof -
  have "reachable limiter_enabled limiter_exec (limiter_start 0) (limiter_exec (AllowCall 5 (go ''a'')) (limiter_start 0))"
    by (intro reachable.step reachable.start) (simp add: limiter_start_def)
  from limiter_wellformed [OF this] show ?thesis by blast
qed

lemma tracked_until:
  assumes "limiter_ok s" and "trace_ok limiter_enabled limiter_exec calls s"
    and "map_of (lm_buckets (lr_limiter s)) c = Some e" and "bk_lastSeen e = t"
    and "list_all (\<lambda>call. \<not> attempt_of c call) calls"
    and "lr_clock (run_events limiter_exec calls s) \<le> t + limiterSweepAfter"
  shows "\<exists>e'. map_of (lm_buckets (lr_limiter (run_events limiter_exec calls s))) c = Some e' \<and> bk_lastSeen e' = t"
  using assms
proof (induction calls arbitrary: s e)
  case (Cons call calls)
  have ok: "limiter_ok (limiter_exec call s)" using Cons.prems by (intro limiter_exec_ok) simp_all
  have "\<exists>e'. map_of (lm_buckets (lr_limiter (limiter_exec call s))) c = Some e' \<and> bk_lastSeen e' = t"
  proof (cases call)
    case (AllowCall u client)
    have "u \<le> t + limiterSweepAfter"
      using clock_run [of calls "limiter_exec call s"] Cons.prems(2,6) by (simp add: AllowCall)
    moreover have u: "lr_clock s \<le> u" and "client \<noteq> c" using Cons.prems(2,5) by (simp_all add: AllowCall)
    ultimately have "map_of (lm_buckets (sweepLocked u (lr_limiter s))) c = Some e"
      using Cons.prems(3,4) by (simp add: sweep_lookup [OF Cons.prems(1)])
    with \<open>client \<noteq> c\<close> Cons.prems(4) show ?thesis
      by (auto simp: AllowCall Allow_def Let_def spend_def split: option.splits)
  next
    case (RefundCall client)
    then show ?thesis using Cons.prems(3,4) by (auto simp: Refund_def split: option.splits)
  qed
  then obtain e' where "map_of (lm_buckets (lr_limiter (limiter_exec call s))) c = Some e'" "bk_lastSeen e' = t" by blast
  from Cons.IH [OF ok _ this] Cons.prems show ?case by simp
qed simp

text \<open>
  C24. Waiting as told is enough. A client whose bucket was empty at time \<open>t\<close> and that makes its next
  attempt after the advertised delay, and before its entry goes stale, is admitted, whatever other
  clients do in between. (The only other refusal, a full table, leaves no bucket for the client.)
\<close>

theorem limiter_retry_admits:
  assumes "reachable limiter_enabled limiter_exec (limiter_start t0) s" and "lr_clock s \<le> t"
    and "Allow t c (lr_limiter s) = (l, False)" and "map_of (lm_buckets l) c \<noteq> None"
    and "trace_ok limiter_enabled limiter_exec calls \<lparr>lr_limiter = l, lr_clock = t\<rparr>"
    and "list_all (\<lambda>call. \<not> attempt_of c call) calls"
    and "lr_clock (run_events limiter_exec calls \<lparr>lr_limiter = l, lr_clock = t\<rparr>) \<le> t'"
    and "t + RetryAfter l \<le> t'" and "t' \<le> t + limiterSweepAfter"
  shows "snd (Allow t' c (lr_limiter (run_events limiter_exec calls \<lparr>lr_limiter = l, lr_clock = t\<rparr>)))"
proof -
  note ok = login_budget.inv_reachable [OF assms(1)]
  let ?s = "\<lparr>lr_limiter = l, lr_clock = t\<rparr>"
  have s: "?s = limiter_exec (AllowCall t c) s" using assms(3) by simp
  have ok1: "limiter_ok ?s" unfolding s using assms(2) by (intro limiter_exec_ok ok) simp
  obtain e where e: "map_of (lm_buckets l) c = Some e" using assms(4) by blast
  have "bk_lastSeen e = t"
    using ok assms(2)
  proof (cases rule: Allow_cases [where c = c])
    case full
    then show ?thesis using assms(3) e by simp
  qed (use assms(3) e in \<open>auto simp: spend_def Let_def split: if_splits\<close>)
  then obtain e' where e': "map_of (lm_buckets (lr_limiter (run_events limiter_exec calls ?s))) c = Some e'" "bk_lastSeen e' = t"
    using tracked_until [OF ok1 assms(5) _ _ assms(6)] e assms(7,9) by fastforce
  have ok2: "limiter_ok (run_events limiter_exec calls ?s)" using assms(5) ok1 by (rule login_budget.inv_run [rotated])
  have wait: "30 * second \<le> t' - t" using assms(8) ok1 by (simp add: RetryAfter_def limiter_ok_def)
  have fields: "lm_burst (sweepLocked t' (lr_limiter (run_events limiter_exec calls ?s))) = 8"
    "lm_refill (sweepLocked t' (lr_limiter (run_events limiter_exec calls ?s))) = 30 * second"
    using ok2 by (simp_all add: limiter_ok_def)
  from ok2 assms(7) show ?thesis
  proof (cases rule: Allow_cases [where c = c])
    case full
    then show ?thesis using sweep_lookup [OF ok2 assms(7), of c] e' assms(9) by simp
  next
    case (known e1)
    with e' have [simp]: "e1 = e'" by simp
    have "1 \<le> fadd (bk_tokens e') (fdiv (Seconds (t' - t)) 30)"
      using wait limiter_okD [OF ok2 e'(1)] by (intro replenish_one) (simp_all add: bucket_ok_def)
    then have "1 \<le> replenished t' (sweepLocked t' (lr_limiter (run_events limiter_exec calls ?s))) e'"
      using known e' by (subst replenished_eq [OF fields]) simp_all
    with known show ?thesis by (simp add: spend_def Let_def)
  next
    case (fresh e1)
    then show ?thesis using sweep_lookup [OF ok2 assms(7), of c] e' assms(9) by simp
  qed
qed

text \<open>A single client that makes attempts at one instant.\<close>

definition lone_client :: "bytes \<Rightarrow> int \<Rightarrow> int \<Rightarrow> limiter_run" where
  "lone_client c n t =
     \<lparr>lr_limiter = \<lparr>lm_buckets = [(c, \<lparr>bk_tokens = of_int n, bk_lastSeen = t\<rparr>)], lm_burst = 8, lm_refill = 30 * second\<rparr>,
      lr_clock = t\<rparr>"

lemma Seconds_0 [simp]: "Seconds 0 = 0"
  by (simp add: Seconds_nonneg)

lemma spend_same_instant:
  assumes "0 \<le> n" and "n \<le> 8" and "lm_burst l = 8" and "lm_refill l = 30 * second"
  shows "spend t c \<lparr>bk_tokens = of_int n, bk_lastSeen = t\<rparr> l =
    (put_bucket c \<lparr>bk_tokens = of_int (if n < 1 then n else n - 1), bk_lastSeen = t\<rparr> l, 1 \<le> n)"
proof -
  have "rnd (of_int n) = of_int n" "rnd (of_int (n - 1)) = of_int (n - 1)"
    using assms(1,2) by (intro rnd_of_int; simp)+
  moreover have "min (of_int n) 8 = (of_int n :: rat)" using assms(2) by simp
  ultimately show ?thesis
    using assms by (simp add: spend_def replenished_def Sub_def fadd_def fdiv_def fsub_def Let_def)
qed

lemma lone_client_attempt:
  assumes "0 \<le> n" and "n \<le> 8"
  shows "Allow t c (lr_limiter (lone_client c n t)) =
    (lr_limiter (lone_client c (if n < 1 then n else n - 1) t), 1 \<le> n)"
  using spend_same_instant [OF assms, of "lr_limiter (lone_client c n t)" t c]
  by (simp add: Allow_def Let_def sweepLocked_def lone_client_def Sub_def limiterSweepAfter_def put_bucket_def)

lemma lone_client_reachable:
  assumes "n \<le> 7"
  shows "reachable limiter_enabled limiter_exec (limiter_start t) (lone_client c (7 - int n) t)"
  using assms
proof (induction n)
  case 0
  have "limiter_exec (AllowCall t c) (limiter_start t) = lone_client c 7 t"
    using spend_same_instant [of 8 NewLoginLimiter t c]
    by (simp add: limiter_start_def NewLoginLimiter_def Allow_def sweepLocked_def maxTrackedClients_def lone_client_def
        defaultBurst_def defaultRefill_def put_bucket_def)
  moreover have "reachable limiter_enabled limiter_exec (limiter_start t) (limiter_exec (AllowCall t c) (limiter_start t))"
    by (intro reachable.step reachable.start) (simp add: limiter_start_def)
  ultimately show ?case by simp
next
  case (Suc n)
  have "limiter_exec (AllowCall t c) (lone_client c (7 - int n) t) = lone_client c (7 - int (Suc n)) t"
    using Suc.prems lone_client_attempt [of "7 - int n" t c] by (simp add: lone_client_def)
  moreover have "reachable limiter_enabled limiter_exec (limiter_start t) (limiter_exec (AllowCall t c) (lone_client c (7 - int n) t))"
    using Suc by (intro reachable.step) (simp_all add: lone_client_def)
  ultimately show ?case by simp
qed

theorem limiter_retry_admits_witness:
  "\<not> snd (Allow 0 (go ''a'') (lr_limiter (lone_client (go ''a'') 0 0))) \<and>
   snd (Allow (30 * second) (go ''a'') (lr_limiter (lone_client (go ''a'') 0 0)))"
proof -
  let ?c = "go ''a''" and ?l = "lr_limiter (lone_client (go ''a'') 0 0)"
  have refused: "Allow 0 ?c ?l = (?l, False)" using lone_client_attempt [of 0 0 ?c] by simp
  have "reachable limiter_enabled limiter_exec (limiter_start 0) (lone_client ?c 0 0)"
    using lone_client_reachable [of 7 0 ?c] by simp
  from limiter_retry_admits [OF this _ refused, of "[]" "30 * second"] refused show ?thesis
    by (simp add: lone_client_def RetryAfter_def limiterSweepAfter_def)
qed

end
