(* ===== verification/Session.thy ===== *)
theory Session
  imports Limiter
begin

text \<open>
  Session tokens and the operator credential: \<^verbatim>\<open>controller/internal/auth/session.go\<close> and
  \<^verbatim>\<open>controller/internal/auth/credential.go\<close>. The cryptographic primitives (HMAC-SHA-256, PBKDF2) and
  the random source are arguments, so every statement holds for all of them; what is used of them
  is named: a derived key and a random slice have the length that was asked for. A wall-clock
  instant is its nanoseconds since 1970, and \<^verbatim>\<open>t.Unix()\<close> its whole seconds.
\<close>

section \<open>Primitives\<close>

record crypto =
  cr_hmac :: "bytes \<Rightarrow> bytes \<Rightarrow> bytes"
  cr_pbkdf2 :: "bytes \<Rightarrow> bytes \<Rightarrow> int \<Rightarrow> nat \<Rightarrow> bytes result"

type_synonym entropy = "nat \<Rightarrow> bytes result"

definition pbkdf2_ok :: "crypto \<Rightarrow> bool" where
  "pbkdf2_ok cr \<longleftrightarrow> (\<forall>password salt iterations n key. cr_pbkdf2 cr password salt iterations n = Inr key \<longrightarrow> length key = n)"

definition entropy_ok :: "entropy \<Rightarrow> bool" where
  "entropy_ok rand \<longleftrightarrow> (\<forall>n bs. rand n = Inr bs \<longrightarrow> length bs = n)"

definition wrap_error :: "string \<Rightarrow> 'a result \<Rightarrow> 'a result" where
  "wrap_error what r = (case r of Inl e \<Rightarrow> Inl (js what @ js '': '' @ e) | Inr x \<Rightarrow> Inr x)"

lemma wrap_error_Inr [simp]: "wrap_error what r = Inr x \<longleftrightarrow> r = Inr x"
  by (cases r) (simp_all add: wrap_error_def)

definition Unix :: "int \<Rightarrow> int" where
  "Unix t = t div second"

section \<open>Sessions\<close>

definition sessionKeyLength :: nat where
  "sessionKeyLength = 32"

definition nonceLength :: nat where
  "nonceLength = 16"

definition ErrInvalidSession :: jsstr where
  "ErrInvalidSession = js ''session is invalid''"

record session_signer =
  sg_key :: bytes
  sg_ttl :: int

definition NewSessionSigner :: "entropy \<Rightarrow> bytes \<Rightarrow> int \<Rightarrow> session_signer result" where
  "NewSessionSigner rand key ttl =
     (if ttl \<le> 0 then Inl (js ''session ttl must be positive'')
      else and_then
        (if key = [] then wrap_error ''generate session key'' (rand sessionKeyLength) else Inr key)
        (\<lambda>key. if length key < sessionKeyLength then Inl (js ''session key must be at least 32 bytes'')
               else Inr \<lparr>sg_key = key, sg_ttl = ttl\<rparr>))"

definition pipe :: byte where
  "pipe = 0x7C"

definition dot :: byte where
  "dot = 0x2E"

definition sign :: "crypto \<Rightarrow> session_signer \<Rightarrow> bytes \<Rightarrow> bytes" where
  "sign cr signer encoded = EncodeToString url_alphabet (cr_hmac cr (sg_key signer) encoded)"

definition Issue :: "crypto \<Rightarrow> entropy \<Rightarrow> session_signer \<Rightarrow> bytes \<Rightarrow> int \<Rightarrow> bytes result" where
  "Issue cr rand signer subject now =
     (if subject = [] then Inl (js ''subject must not be empty'')
      else and_then (wrap_error ''generate nonce'' (rand nonceLength)) (\<lambda>nonce.
        let payload = js_join [pipe]
              [EncodeToString url_alphabet subject, FormatInt (Unix (now + sg_ttl signer)),
               EncodeToString url_alphabet nonce];
            encoded = EncodeToString url_alphabet payload
        in Inr (encoded @ [dot] @ sign cr signer encoded)))"

definition Verify :: "crypto \<Rightarrow> session_signer \<Rightarrow> bytes \<Rightarrow> int \<Rightarrow> bytes result" where
  "Verify cr signer token now =
     (case cut_at dot token of
        None \<Rightarrow> Inl ErrInvalidSession
      | Some (encoded, signature) \<Rightarrow>
          if signature \<noteq> sign cr signer encoded then Inl ErrInvalidSession
          else (case DecodeString url_alphabet encoded of
            None \<Rightarrow> Inl ErrInvalidSession
          | Some raw \<Rightarrow>
              let parts = js_split pipe raw in
              if length parts \<noteq> 3 then Inl ErrInvalidSession
              else (case DecodeString url_alphabet (parts ! 0) of
                None \<Rightarrow> Inl ErrInvalidSession
              | Some subject \<Rightarrow>
                  if subject = [] then Inl ErrInvalidSession
                  else (case ParseInt (parts ! 1) of
                    None \<Rightarrow> Inl ErrInvalidSession
                  | Some expiry \<Rightarrow>
                      if Unix now \<ge> expiry then Inl ErrInvalidSession else Inr subject))))"

section \<open>The credential\<close>

definition hashScheme :: bytes where
  "hashScheme = go ''pbkdf2-sha256''"

definition defaultIterations :: int where
  "defaultIterations = 600000"

definition minIterations :: int where
  "minIterations = 100000"

definition saltLength :: nat where
  "saltLength = 16"

definition keyLength :: nat where
  "keyLength = 32"

definition dollar :: byte where
  "dollar = 0x24"

definition ErrMalformedHash :: jsstr where
  "ErrMalformedHash =
     js ''password hash is malformed; expected pbkdf2-sha256$<iterations>$<base64 salt>$<base64 key>''"

definition HashPassword :: "crypto \<Rightarrow> entropy \<Rightarrow> bytes \<Rightarrow> bytes result" where
  "HashPassword cr rand password =
     (if password = [] then Inl (js ''password must not be empty'')
      else and_then (wrap_error ''generate salt'' (rand saltLength)) (\<lambda>salt.
        and_then (wrap_error ''derive key'' (cr_pbkdf2 cr password salt defaultIterations keyLength)) (\<lambda>key.
          Inr (js_join [dollar]
            [hashScheme, FormatInt defaultIterations, EncodeToString std_alphabet salt,
             EncodeToString std_alphabet key]))))"

record parsed_hash =
  ph_iterations :: int
  ph_salt :: bytes
  ph_key :: bytes

text \<open>A base64 field that must not be empty.\<close>

definition hash_field :: "bytes \<Rightarrow> bytes result" where
  "hash_field s =
     (case DecodeString std_alphabet s of
        None \<Rightarrow> Inl ErrMalformedHash
      | Some bs \<Rightarrow> if bs = [] then Inl ErrMalformedHash else Inr bs)"

definition parseHash :: "bytes \<Rightarrow> parsed_hash result" where
  "parseHash encoded =
     (let parts = js_split dollar encoded in
      if length parts \<noteq> 4 \<or> parts ! 0 \<noteq> hashScheme then Inl ErrMalformedHash
      else (case ParseInt (parts ! 1) of
        None \<Rightarrow> Inl ErrMalformedHash
      | Some iterations \<Rightarrow>
          if iterations < minIterations then Inl ErrMalformedHash
          else and_then (hash_field (parts ! 2)) (\<lambda>salt.
            and_then (hash_field (parts ! 3)) (\<lambda>key.
              Inr \<lparr>ph_iterations = iterations, ph_salt = salt, ph_key = key\<rparr>))))"

record credential =
  cred_username :: bytes
  cred_hash :: parsed_hash

definition NewCredential :: "bytes \<Rightarrow> bytes \<Rightarrow> credential result" where
  "NewCredential username encodedHash =
     (if blank username then Inl (js ''username must not be empty'')
      else and_then (parseHash encodedHash) (\<lambda>parsed. Inr \<lparr>cred_username = username, cred_hash = parsed\<rparr>))"

text \<open>\<^verbatim>\<open>subtle.ConstantTimeCompare\<close> is 1 exactly on equal slices.\<close>

definition Credential_Verify :: "crypto \<Rightarrow> credential \<Rightarrow> bytes \<Rightarrow> bytes \<Rightarrow> bool" where
  "Credential_Verify cr credential username password =
     (case cr_pbkdf2 cr password (ph_salt (cred_hash credential)) (ph_iterations (cred_hash credential))
             (length (ph_key (cred_hash credential))) of
        Inl e \<Rightarrow> False
      | Inr derived \<Rightarrow> derived = ph_key (cred_hash credential) \<and> username = cred_username credential)"

section \<open>Separators\<close>

lemma separators_fresh:
  "dot \<notin> set url_alphabet" "pipe \<notin> set url_alphabet" "dollar \<notin> set std_alphabet" "dollar \<notin> set hashScheme"
  by (simp_all add: dot_def pipe_def dollar_def url_alphabet_def std_alphabet_def b64_common_def hashScheme_def)

lemma fresh_in_text:
  "dot \<notin> set (EncodeToString url_alphabet s)" "pipe \<notin> set (EncodeToString url_alphabet s)"
  "dollar \<notin> set (EncodeToString std_alphabet s)"
  using set_EncodeToString [OF url_alphabet_ok, of s] set_EncodeToString [OF std_alphabet_ok, of s] separators_fresh by auto

lemma set_FormatInt: "b \<in> set (FormatInt i) \<Longrightarrow> b = 0x2D \<or> 48 \<le> unat b \<and> unat b \<le> 57"
proof -
  assume "b \<in> set (FormatInt i)"
  then obtain c where c: "c \<in> set (int_str i)" "b = ucast c" by (auto simp: FormatInt_def narrow_def)
  from set_int_str [OF c(1)] show ?thesis
  proof
    assume "48 \<le> unat c \<and> unat c \<le> 57"
    then have "unat (ucast c :: byte) = unat c" by (simp add: unsigned_ucast_eq take_bit_nat_eq_self)
    with c(2) \<open>48 \<le> unat c \<and> unat c \<le> 57\<close> show ?thesis by simp
  qed (simp add: c(2))
qed

lemma fresh_in_FormatInt: "pipe \<notin> set (FormatInt i)" "dollar \<notin> set (FormatInt i)"
  using set_FormatInt [of pipe i] set_FormatInt [of dollar i] by (auto simp: pipe_def dollar_def)

section \<open>Tokens\<close>

lemma Issue_eq:
  assumes "Issue cr rand signer subject now = Inr token"
  obtains nonce where "rand nonceLength = Inr nonce" and "subject \<noteq> []"
    and "token = (let encoded = EncodeToString url_alphabet (js_join [pipe]
          [EncodeToString url_alphabet subject, FormatInt (Unix (now + sg_ttl signer)), EncodeToString url_alphabet nonce])
        in encoded @ dot # sign cr signer encoded)"
  using assms by (auto simp: Issue_def and_then_eq_Inr Let_def split: if_splits)

lemma Verify_issued:
  assumes "Issue cr rand signer subject now = Inr token" and "int64 (Unix (now + sg_ttl signer))"
  shows "Verify cr signer token t =
    (if Unix t < Unix (now + sg_ttl signer) then Inr subject else Inl ErrInvalidSession)"
proof -
  from assms(1) obtain nonce where n: "subject \<noteq> []"
    and token: "token = (let encoded = EncodeToString url_alphabet (js_join [pipe]
          [EncodeToString url_alphabet subject, FormatInt (Unix (now + sg_ttl signer)), EncodeToString url_alphabet nonce])
        in encoded @ dot # sign cr signer encoded)"
    by (rule Issue_eq)
  let ?parts = "[EncodeToString url_alphabet subject, FormatInt (Unix (now + sg_ttl signer)), EncodeToString url_alphabet nonce]"
  let ?encoded = "EncodeToString url_alphabet (js_join [pipe] ?parts)"
  have "cut_at dot token = Some (?encoded, sign cr signer ?encoded)"
    unfolding token Let_def by (rule cut_at_append [OF fresh_in_text(1)])
  moreover have "DecodeString url_alphabet ?encoded = Some (js_join [pipe] ?parts)"
    by (rule DecodeString_EncodeToString [OF url_alphabet_ok])
  moreover have "js_split pipe (js_join [pipe] ?parts) = ?parts"
    by (rule js_split_join) (simp_all add: fresh_in_text fresh_in_FormatInt)
  ultimately show ?thesis
    using n by (simp add: Verify_def DecodeString_EncodeToString [OF url_alphabet_ok] ParseInt_FormatInt [OF assms(2)] not_le)
qed

text \<open>
  A token verifies as its subject until it expires, and never afterwards. For every key, MAC
  function, nonce and non-empty subject, verifying an issued token at time \<open>t\<close> gives back exactly the
  subject as long as the second of \<open>t\<close> lies before that of the expiry, which is the issue time plus
  the configured lifetime, and the one generic error from then on. The hypothesis is that the
  expiry is a 64-bit number of seconds.
\<close>

theorem Verify_Issue:
  assumes "Issue cr rand signer subject now = Inr token" and "int64 (Unix (now + sg_ttl signer))"
  shows "Verify cr signer token t =
    (if Unix t < Unix (now + sg_ttl signer) then Inr subject else Inl ErrInvalidSession)"
  by (rule Verify_issued [OF assms])

text \<open>
  A MAC for examples: it returns the bytes of the key and the message added up, as one byte, and
  keys are derived by truncating and padding.
\<close>

definition sample_crypto :: crypto where
  "sample_crypto =
     \<lparr>cr_hmac = (\<lambda>key message. [sum_list key + sum_list message]),
      cr_pbkdf2 = (\<lambda>password salt iterations n. Inr (take n (password @ replicate n 0)))\<rparr>"

definition sample_entropy :: entropy where
  "sample_entropy n = Inr (replicate n 7)"

definition sample_signer :: session_signer where
  "sample_signer = \<lparr>sg_key = replicate 32 1, sg_ttl = 3600 * second\<rparr>"

lemma sample_ok: "pbkdf2_ok sample_crypto" "entropy_ok sample_entropy"
  by (auto simp: pbkdf2_ok_def entropy_ok_def sample_crypto_def sample_entropy_def)

lemma sample_issue: "\<exists>token. Issue sample_crypto sample_entropy sample_signer (go ''admin'') 0 = Inr token"
  by (simp add: Issue_def sample_entropy_def wrap_error_def Let_def)

lemma sample_expiry: "Unix (sg_ttl sample_signer) = 3600"
  by (simp add: Unix_def sample_signer_def)

theorem Verify_Issue_witness:
  "\<exists>token. Issue sample_crypto sample_entropy sample_signer (go ''admin'') 0 = Inr token \<and>
     Verify sample_crypto sample_signer token (3599 * second) = Inr (go ''admin'') \<and>
     Verify sample_crypto sample_signer token (3600 * second) = Inl ErrInvalidSession"
proof -
  obtain token where token: "Issue sample_crypto sample_entropy sample_signer (go ''admin'') 0 = Inr token"
    using sample_issue by blast
  have "int64 (Unix (0 + sg_ttl sample_signer))" by (simp add: sample_expiry int64_def)
  note v = Verify_Issue [OF token this]
  show ?thesis
    using token v [of "3599 * second"] v [of "3600 * second"] unfolding add_0 sample_expiry by (auto simp: Unix_def)
qed

text \<open>
  Only signed tokens are accepted: an accepted token is an encoded payload, a dot, and the signer's
  own MAC of that payload; the payload carries the subject and an expiry that has not been reached.
\<close>

lemma Verify_accepts:
  assumes "Verify cr signer token now = Inr subject"
  shows "subject \<noteq> [] \<and> (\<exists>encoded name expiry nonce.
    token = encoded @ dot # sign cr signer encoded \<and>
    DecodeString url_alphabet encoded = Some (js_join [pipe] [name, expiry, nonce]) \<and>
    DecodeString url_alphabet name = Some subject \<and> (\<exists>e. ParseInt expiry = Some e \<and> Unix now < e))"
proof -
  from assms obtain encoded signature raw where cut: "cut_at dot token = Some (encoded, signature)"
    and signature: "signature = sign cr signer encoded" and raw: "DecodeString url_alphabet encoded = Some raw"
    and len: "length (js_split pipe raw) = 3"
    and name: "DecodeString url_alphabet (js_split pipe raw ! 0) = Some subject" "subject \<noteq> []"
    and expiry: "\<exists>e. ParseInt (js_split pipe raw ! 1) = Some e \<and> Unix now < e"
    by (auto simp: Verify_def Let_def split: option.splits prod.splits if_splits)
  from len obtain a b c where parts: "js_split pipe raw = [a, b, c]"
    by (auto simp: numeral_3_eq_3 length_Suc_conv)
  then have "raw = js_join [pipe] [a, b, c]" using js_join_split [of pipe raw] by simp
  moreover have "token = encoded @ dot # sign cr signer encoded"
    using cut unfolding cut_at_Some signature by blast
  ultimately show ?thesis using raw name expiry unfolding parts by auto
qed

section \<open>Signers and hashes\<close>

lemma NewSessionSigner_ok:
  "NewSessionSigner rand key ttl = Inr signer \<Longrightarrow> 0 < sg_ttl signer \<and> 32 \<le> length (sg_key signer) \<and> sg_ttl signer = ttl"
  by (auto simp: NewSessionSigner_def and_then_eq_Inr sessionKeyLength_def split: if_splits)

lemma parseHash_join:
  assumes "int64 iterations" and "minIterations \<le> iterations" and "salt \<noteq> []" and "key \<noteq> []"
  shows "parseHash (js_join [dollar]
      [hashScheme, FormatInt iterations, EncodeToString std_alphabet salt, EncodeToString std_alphabet key]) =
    Inr \<lparr>ph_iterations = iterations, ph_salt = salt, ph_key = key\<rparr>"
proof -
  have "js_split dollar (js_join [dollar]
      [hashScheme, FormatInt iterations, EncodeToString std_alphabet salt, EncodeToString std_alphabet key]) =
    [hashScheme, FormatInt iterations, EncodeToString std_alphabet salt, EncodeToString std_alphabet key]"
    by (rule js_split_join) (simp_all add: fresh_in_text fresh_in_FormatInt separators_fresh)
  with assms show ?thesis
    by (simp add: parseHash_def ParseInt_FormatInt hash_field_def DecodeString_EncodeToString [OF std_alphabet_ok])
qed

text \<open>
  A printed password hash is accepted back as the credential it was made for. The hash that
  \<^verbatim>\<open>HashPassword\<close> prints parses, and the resulting credential accepts the user name with that
  password, and a pair in general exactly when the user name is the same and the password derives
  the same key from the salt.
\<close>

theorem HashPassword_roundtrip:
  assumes "pbkdf2_ok cr" and "entropy_ok rand" and "\<not> blank username" and "HashPassword cr rand password = Inr encoded"
  shows "\<exists>credential salt. NewCredential username encoded = Inr credential \<and> rand 16 = Inr salt \<and>
    Credential_Verify cr credential username password \<and>
    (\<forall>u p. Credential_Verify cr credential u p \<longleftrightarrow>
       u = username \<and> cr_pbkdf2 cr p salt 600000 32 = cr_pbkdf2 cr password salt 600000 32)"
proof -
  from assms(4) obtain salt key where salt: "rand 16 = Inr salt"
    and key: "cr_pbkdf2 cr password salt 600000 32 = Inr key"
    and encoded: "encoded = js_join [dollar]
      [hashScheme, FormatInt 600000, EncodeToString std_alphabet salt, EncodeToString std_alphabet key]"
    by (auto simp: HashPassword_def and_then_eq_Inr saltLength_def keyLength_def defaultIterations_def split: if_splits)
  have len: "length salt = 16" "length key = 32"
    using assms(1,2) salt key by (simp_all add: entropy_ok_def pbkdf2_ok_def)
  then have "salt \<noteq> []" "key \<noteq> []" by auto
  then have "NewCredential username encoded =
      Inr \<lparr>cred_username = username, cred_hash = \<lparr>ph_iterations = 600000, ph_salt = salt, ph_key = key\<rparr>\<rparr>"
    unfolding encoded using assms(3) parseHash_join [of 600000 salt key]
    by (simp add: NewCredential_def int64_def minIterations_def)
  moreover have "Credential_Verify cr \<lparr>cred_username = username, cred_hash = \<lparr>ph_iterations = 600000, ph_salt = salt, ph_key = key\<rparr>\<rparr> u p \<longleftrightarrow>
      u = username \<and> cr_pbkdf2 cr p salt 600000 32 = Inr key" for u p
    using len by (auto simp: Credential_Verify_def split: sum.splits)
  ultimately show ?thesis using salt key by auto
qed

theorem HashPassword_roundtrip_witness:
  "\<exists>encoded credential. HashPassword sample_crypto sample_entropy (go ''secret'') = Inr encoded \<and>
     NewCredential (go ''admin'') encoded = Inr credential \<and>
     Credential_Verify sample_crypto credential (go ''admin'') (go ''secret'')"
proof -
  obtain encoded where h: "HashPassword sample_crypto sample_entropy (go ''secret'') = Inr encoded"
    by (auto simp: HashPassword_def sample_entropy_def sample_crypto_def wrap_error_def)
  from HashPassword_roundtrip [OF sample_ok _ h, of "go ''admin''"] h show ?thesis by auto
qed

end
