(* ===== verification/Http.thy ===== *)
theory Http
  imports Go_Base
begin

text \<open>
  What the controller uses of \<^verbatim>\<open>net/http\<close> and \<^verbatim>\<open>net\<close>: requests and responses as the handlers see
  them, the routing of \<^verbatim>\<open>http.ServeMux\<close> (Go 1.22 patterns with a method, literal segments and the
  trailing slash), cookies, and \<^verbatim>\<open>net.SplitHostPort\<close>. Header and form parsing happen before a
  handler runs: a request holds the parsed cookies, and the form or the error of parsing it.
\<close>

section \<open>Requests and responses\<close>

record http_request =
  hr_method :: bytes
  hr_path :: bytes
  hr_escaped :: bytes
  hr_remote :: bytes
  hr_accept :: bytes
  hr_cookies :: "(bytes \<times> bytes) list"
  hr_query :: "(string \<times> jsstr) list"
  hr_form :: "(bytes \<times> bytes) list result"

record cookie =
  ck_name :: bytes
  ck_value :: bytes
  ck_path :: bytes
  ck_httpOnly :: bool
  ck_secure :: bool
  ck_strict :: bool
  ck_maxAge :: int

datatype 'b body = NoBody | PlainText bytes | Page 'b

record 'b response =
  rs_status :: nat
  rs_headers :: "(bytes \<times> bytes) list"
  rs_cookies :: "cookie list"
  rs_body :: "'b body"

text \<open>
  The header map while a handler runs (\<^verbatim>\<open>Header().Set\<close> replaces a value), \<^verbatim>\<open>http.Redirect\<close> to an
  absolute path, and \<^verbatim>\<open>http.Error\<close>. The short HTML that accompanies a redirect is left out.
\<close>

fun set_header :: "bytes \<Rightarrow> bytes \<Rightarrow> (bytes \<times> bytes) list \<Rightarrow> (bytes \<times> bytes) list" where
  "set_header k v [] = [(k, v)]"
| "set_header k v ((k', v') # hs) = (if k = k' then (k, v) # hs else (k', v') # set_header k v hs)"

definition redirect :: "(bytes \<times> bytes) list \<Rightarrow> cookie list \<Rightarrow> bytes \<Rightarrow> nat \<Rightarrow> 'b response" where
  "redirect headers cookies url status =
     \<lparr>rs_status = status, rs_headers = set_header (go ''Location'') url headers, rs_cookies = cookies, rs_body = NoBody\<rparr>"

definition http_error :: "(bytes \<times> bytes) list \<Rightarrow> bytes \<Rightarrow> nat \<Rightarrow> 'b response" where
  "http_error headers message status =
     \<lparr>rs_status = status,
      rs_headers = set_header (go ''X-Content-Type-Options'') (go ''nosniff'')
        (set_header (go ''Content-Type'') (go ''text/plain; charset=utf-8'') headers),
      rs_cookies = [], rs_body = PlainText (message @ [10])\<rparr>"

lemma map_of_set_header [simp]: "map_of (set_header k v hs) k' = (if k' = k then Some v else map_of hs k')"
  by (induction hs) auto

section \<open>Paths\<close>

definition slash :: byte where
  "slash = 0x2F"

fun clean_segments :: "bytes list \<Rightarrow> bytes list \<Rightarrow> bytes list" where
  "clean_segments acc [] = rev acc"
| "clean_segments acc (seg # segs) =
     (if seg = [] \<or> seg = go ''.'' then clean_segments acc segs
      else if seg = go ''..'' then clean_segments (tl acc) segs
      else clean_segments (seg # acc) segs)"

definition path_clean :: "bytes \<Rightarrow> bytes" where
  "path_clean p = slash # js_join [slash] (clean_segments [] (js_split slash p))"

definition cleanPath :: "bytes \<Rightarrow> bytes" where
  "cleanPath p =
     (if p = [] then [slash]
      else let p1 = (if hd p \<noteq> slash then slash # p else p); np = path_clean p1
           in if last p1 = slash \<and> np \<noteq> [slash] then np @ [slash] else np)"

definition hex_value :: "byte \<Rightarrow> nat option" where
  "hex_value c =
     (let n = unat c in
      if 48 \<le> n \<and> n \<le> 57 then Some (n - 48)
      else if 97 \<le> n \<and> n \<le> 102 then Some (n - 87)
      else if 65 \<le> n \<and> n \<le> 70 then Some (n - 55)
      else None)"

fun unescape :: "bytes \<Rightarrow> bytes option" where
  "unescape [] = Some []"
| "unescape (c # s) =
     (if c \<noteq> 0x25 then map_option ((#) c) (unescape s)
      else case s of
        h # l # rest \<Rightarrow>
          (case (hex_value h, hex_value l) of
             (Some a, Some b) \<Rightarrow> map_option ((#) (of_nat (16 * a + b))) (unescape rest)
           | _ \<Rightarrow> None)
      | _ \<Rightarrow> None)"

definition pathUnescape :: "bytes \<Rightarrow> bytes" where
  "pathUnescape s = (case unescape s of None \<Rightarrow> s | Some t \<Rightarrow> t)"

definition path_segments :: "bytes \<Rightarrow> bytes list" where
  "path_segments path = map pathUnescape (js_split slash (tl path))"

section \<open>Routing\<close>

text \<open>
  A pattern has a method or none, literal segments, and matches either exactly them or, when it
  ends in a slash, everything below. Patterns with the method of the request come first (those for
  GET also serve HEAD), then those without a method; among them a literal match precedes a
  trailing slash. A path that is not in canonical form is redirected before the handler is
  chosen.
\<close>

record pattern =
  pt_method :: "bytes option"
  pt_segments :: "bytes list"
  pt_subtree :: bool

definition pattern_matches :: "pattern \<Rightarrow> bytes \<Rightarrow> bool" where
  "pattern_matches pt path \<longleftrightarrow> path \<noteq> [] \<and>
     (if pt_subtree pt
      then length (pt_segments pt) < length (path_segments path) \<and>
           take (length (pt_segments pt)) (path_segments path) = pt_segments pt
      else path_segments path = pt_segments pt)"

definition pick :: "(pattern \<times> 'h) list \<Rightarrow> bytes option \<Rightarrow> bytes \<Rightarrow> 'h option" where
  "pick routes method path =
     (let fitting = filter (\<lambda>(pt, h). pt_method pt = method \<and> pattern_matches pt path) routes in
      case List.find (\<lambda>(pt, h). \<not> pt_subtree pt) fitting of
        Some (pt, h) \<Rightarrow> Some h
      | None \<Rightarrow> (case fitting of [] \<Rightarrow> None | (pt, h) # _ \<Rightarrow> Some h))"

datatype 'h route = Handle 'h | Moved bytes | BadRequest | MethodNotAllowed | NotFound

definition find_route :: "(pattern \<times> 'h) list \<Rightarrow> bytes \<Rightarrow> bytes \<Rightarrow> 'h route" where
  "find_route routes method path =
     (case pick routes (Some method) path of
        Some h \<Rightarrow> Handle h
      | None \<Rightarrow>
          (case (if method = go ''HEAD'' then pick routes (Some (go ''GET'')) path else None) of
             Some h \<Rightarrow> Handle h
           | None \<Rightarrow>
               (case pick routes None path of
                  Some h \<Rightarrow> Handle h
                | None \<Rightarrow>
                    if list_ex (\<lambda>(pt, h). pattern_matches pt path) routes then MethodNotAllowed else NotFound)))"

definition serve_mux :: "(pattern \<times> 'h) list \<Rightarrow> http_request \<Rightarrow> 'h route" where
  "serve_mux routes rq =
     (if hr_escaped rq = go ''*'' then BadRequest
      else if hr_method rq = go ''CONNECT'' then find_route routes (hr_method rq) (hr_escaped rq)
      else if cleanPath (hr_escaped rq) \<noteq> hr_escaped rq then Moved (cleanPath (hr_escaped rq))
      else find_route routes (hr_method rq) (hr_escaped rq))"

lemma pick_cases:
  assumes "pick routes method path = Some h"
  obtains pt where "(pt, h) \<in> set routes" and "pt_method pt = method" and "pattern_matches pt path"
proof -
  define fitting where "fitting = filter (\<lambda>(pt, h). pt_method pt = method \<and> pattern_matches pt path) routes"
  have pick: "(case List.find (\<lambda>(pt, h). \<not> pt_subtree pt) fitting of
      Some (pt, h) \<Rightarrow> Some h
    | None \<Rightarrow> (case fitting of [] \<Rightarrow> None | (pt, h) # _ \<Rightarrow> Some h)) = Some h"
    using assms unfolding pick_def Let_def fitting_def .
  have "\<exists>pt. (pt, h) \<in> set fitting"
  proof (cases "List.find (\<lambda>(pt, h). \<not> pt_subtree pt) fitting")
    case None
    with pick show ?thesis by (cases fitting) auto
  next
    case (Some r)
    with pick have "r = (fst r, h)" by (cases r) simp
    with find_SomeD [OF Some] show ?thesis by metis
  qed
  then show thesis using that by (auto simp: fitting_def)
qed

lemma find_route_cases:
  assumes "find_route routes method path = Handle h"
  obtains pt where "(pt, h) \<in> set routes" and "pattern_matches pt path"
    and "pt_method pt = None \<or> pt_method pt = Some method \<or> method = go ''HEAD'' \<and> pt_method pt = Some (go ''GET'')"
  using assms unfolding find_route_def
  by (auto split: option.splits if_splits elim!: pick_cases intro: that)

lemma serve_mux_Handle:
  assumes "serve_mux routes rq = Handle h"
  shows "find_route routes (hr_method rq) (hr_escaped rq) = Handle h" and "hr_escaped rq \<noteq> go ''*''"
    and "hr_method rq \<noteq> go ''CONNECT'' \<Longrightarrow> cleanPath (hr_escaped rq) = hr_escaped rq"
  using assms by (auto simp: serve_mux_def split: if_splits)

lemma cleanPath_rooted: "cleanPath p = p \<Longrightarrow> \<exists>s. p = slash # s"
proof -
  have "\<exists>s. cleanPath p = slash # s" by (simp add: cleanPath_def path_clean_def Let_def)
  moreover assume "cleanPath p = p"
  ultimately show ?thesis by simp
qed

text \<open>A path without escapes has the segments of its text; unescaping never removes a slash.\<close>

lemma unescape_slash: "unescape s = Some t \<Longrightarrow> slash \<in> set s \<Longrightarrow> slash \<in> set t"
proof (induction "length s" arbitrary: s t rule: less_induct)
  case less
  from less.prems(2) obtain c s1 where s: "s = c # s1" by (cases s) auto
  show ?case
  proof (cases "c = 0x25")
    case False
    with less.prems s obtain t1 where t: "unescape s1 = Some t1" "t = c # t1" by auto
    with less.hyps [of s1 t1] less.prems(2) s show ?thesis by auto
  next
    case True
    with less.prems(1) s obtain h l rest a b u where r: "s1 = h # l # rest" "hex_value h = Some a" "hex_value l = Some b"
      "unescape rest = Some u" "t = of_nat (16 * a + b) # u"
      by (auto split: list.splits option.splits)
    then have "h \<noteq> slash" "l \<noteq> slash" by (auto simp: hex_value_def slash_def)
    with r s True less.prems(2) have "slash \<in> set rest" by (auto simp: slash_def)
    with less.hyps [of rest u] s r show ?thesis by simp
  qed
qed

lemma single_segment:
  assumes "cleanPath (hr_escaped rq) = hr_escaped rq" and "unescape (hr_escaped rq) = Some (slash # name)" and "slash \<notin> set name"
  shows "path_segments (hr_escaped rq) = [name]"
proof -
  obtain s where s: "hr_escaped rq = slash # s" using cleanPath_rooted [OF assms(1)] by blast
  with assms(2) have u: "unescape s = Some name" by (auto simp: slash_def)
  with assms(3) have "slash \<notin> set s" using unescape_slash by blast
  with u show ?thesis by (simp add: path_segments_def s js_split_none pathUnescape_def)
qed

section \<open>Cookies, forms and addresses\<close>

definition valid_cookie_byte :: "byte \<Rightarrow> bool" where
  "valid_cookie_byte b \<longleftrightarrow> 0x20 \<le> b \<and> b < 0x7F \<and> b \<noteq> 0x22 \<and> b \<noteq> 0x3B \<and> b \<noteq> 0x5C"

definition sanitizeCookieValue :: "bytes \<Rightarrow> bytes" where
  "sanitizeCookieValue v =
     (let kept = filter valid_cookie_byte v in
      if kept \<noteq> [] \<and> (0x20 \<in> set kept \<or> 0x2C \<in> set kept) then [0x22] @ kept @ [0x22] else kept)"

definition form_value :: "(bytes \<times> bytes) list \<Rightarrow> bytes \<Rightarrow> bytes" where
  "form_value form name = (case map_of form name of None \<Rightarrow> [] | Some v \<Rightarrow> v)"

text \<open>\<^verbatim>\<open>net.SplitHostPort\<close>, of which the callers use the host and whether there was an error.\<close>

fun index_of :: "'a \<Rightarrow> 'a list \<Rightarrow> nat option" where
  "index_of c [] = None"
| "index_of c (x # xs) = (if x = c then Some 0 else map_option Suc (index_of c xs))"

definition last_index_of :: "'a \<Rightarrow> 'a list \<Rightarrow> nat option" where
  "last_index_of c xs = map_option (\<lambda>i. length xs - 1 - i) (index_of c (rev xs))"

definition split_host_port :: "bytes \<Rightarrow> (bytes \<times> bytes) option" where
  "split_host_port hostport =
     (case last_index_of 0x3A hostport of
        None \<Rightarrow> None
      | Some i \<Rightarrow>
          let port = drop (i + 1) hostport in
          if hd hostport = 0x5B
          then (case index_of 0x5D hostport of
                  None \<Rightarrow> None
                | Some close \<Rightarrow>
                    if close + 1 \<noteq> i then None
                    else if 0x5B \<in> set (drop 1 hostport) \<or> 0x5D \<in> set (drop (close + 1) hostport) then None
                    else Some (take (close - 1) (drop 1 hostport), port))
          else let host = take i hostport in
               if 0x3A \<in> set host \<or> 0x5B \<in> set hostport \<or> 0x5D \<in> set hostport then None
               else Some (host, port))"

end
