(* ===== verification/Guard.thy ===== *)
theory Guard
  imports Session Http
begin

text \<open>
  The request guard of \<^verbatim>\<open>controller/internal/auth/auth.go\<close>, with the login page of \<^verbatim>\<open>login.go\<close>: it
  owns the credential, the session signer and the login limiter, answers the login and logout
  paths itself, and lets other requests through to the application only with a valid session. A
  response of the guard is \<open>Guarded\<close>; a request that is passed on is answered by the application
  (\<open>Application\<close>), a parameter here. The page template is represented by its only input, the error
  message. What a request finds outside the process (random bytes, the clocks, a failure of the
  template) is the record \<open>auth_env\<close>. Log lines are left out.
\<close>

section \<open>State\<close>

record auth_env =
  ev_crypto :: crypto
  ev_rand :: entropy
  ev_now :: int
  ev_mono :: int
  ev_template :: "jsstr option"

record guard =
  gd_credential :: credential
  gd_signer :: session_signer
  gd_limiter :: limiter
  gd_secureCookie :: bool

datatype page = LoginPage bytes | ErrorJson bytes bytes

datatype 'a answer = Guarded "page response" | Application 'a

definition SessionCookie :: bytes where
  "SessionCookie = go ''nexustier_session''"

definition LoginPath :: bytes where
  "LoginPath = go ''/login''"

definition LogoutPath :: bytes where
  "LogoutPath = go ''/logout''"

definition NewGuard :: "credential \<Rightarrow> session_signer option \<Rightarrow> bool \<Rightarrow> bool \<Rightarrow> guard result" where
  "NewGuard credential signer logger secureCookie =
     (case signer of
        None \<Rightarrow> Inl (js ''session signer is required'')
      | Some sg \<Rightarrow>
          if \<not> logger then Inl (js ''logger is required'')
          else Inr \<lparr>gd_credential = credential, gd_signer = sg, gd_limiter = NewLoginLimiter,
                    gd_secureCookie = secureCookie\<rparr>)"

definition publicPaths :: "bytes list" where
  "publicPaths = [go ''/healthz'', go ''/readyz'', LoginPath, LogoutPath]"

section \<open>Helpers\<close>

definition clientAddress :: "http_request \<Rightarrow> bytes" where
  "clientAddress rq = (case split_host_port (hr_remote rq) of None \<Rightarrow> hr_remote rq | Some (host, port) \<Rightarrow> host)"

text \<open>\<^verbatim>\<open>int(f)\<close> drops the fraction.\<close>

definition float_to_int :: "jsnum \<Rightarrow> int" where
  "float_to_int x = (if x < 0 then \<lceil>x\<rceil> else \<lfloor>x\<rfloor>)"

definition wantsHTML :: "http_request \<Rightarrow> bool" where
  "wantsHTML rq = js_includes (go ''text/html'') (hr_accept rq)"

definition retryAfterSeconds :: "int \<Rightarrow> bytes" where
  "retryAfterSeconds duration =
     (let seconds = float_to_int (Seconds duration) in FormatInt (if seconds < 1 then 1 else seconds))"

definition msgThrottled :: bytes where
  "msgThrottled =
     [0xE5, 0xB0, 0x9D, 0xE8, 0xAF, 0x95, 0xE8, 0xBF, 0x87, 0xE4, 0xBA, 0x8E, 0xE9, 0xA2, 0x91,
      0xE7, 0xB9, 0x81, 0xEF, 0xBC, 0x8C, 0xE8, 0xAF, 0xB7, 0xE7, 0xA8, 0x8D, 0xE5, 0x90, 0x8E,
      0xE5, 0x86, 0x8D, 0xE8, 0xAF, 0x95, 0xE3, 0x80, 0x82]"

definition msgBadForm :: bytes where
  "msgBadForm =
     [0xE8, 0xAF, 0xB7, 0xE6, 0xB1, 0x82, 0xE6, 0xA0, 0xBC, 0xE5, 0xBC, 0x8F, 0xE6, 0x97, 0xA0,
      0xE6, 0x95, 0x88, 0xE3, 0x80, 0x82]"

definition msgRejected :: bytes where
  "msgRejected =
     [0xE7, 0x94, 0xA8, 0xE6, 0x88, 0xB7, 0xE5, 0x90, 0x8D, 0xE6, 0x88, 0x96, 0xE5, 0xAF, 0x86,
      0xE7, 0xA0, 0x81, 0xE9, 0x94, 0x99, 0xE8, 0xAF, 0xAF, 0xE3, 0x80, 0x82]"

definition msgNoSession :: bytes where
  "msgNoSession =
     [0xE6, 0x97, 0xA0, 0xE6, 0xB3, 0x95, 0xE5, 0xBB, 0xBA, 0xE7, 0xAB, 0x8B, 0xE4, 0xBC, 0x9A,
      0xE8, 0xAF, 0x9D, 0xEF, 0xBC, 0x8C, 0xE8, 0xAF, 0xB7, 0xE9, 0x87, 0x8D, 0xE8, 0xAF, 0x95,
      0xE3, 0x80, 0x82]"

definition quoted :: "string \<Rightarrow> bytes" where
  "quoted s = 0x27 # go s @ [0x27]"

definition loginContentSecurityPolicy :: bytes where
  "loginContentSecurityPolicy =
     go ''default-src '' @ quoted ''none'' @ go ''; style-src '' @ quoted ''unsafe-inline'' @ go ''; '' @
     go ''form-action '' @ quoted ''self'' @ go ''; base-uri '' @ quoted ''none'' @ go ''; frame-ancestors '' @ quoted ''none''"

definition renderLogin :: "auth_env \<Rightarrow> (bytes \<times> bytes) list \<Rightarrow> nat \<Rightarrow> bytes \<Rightarrow> page response" where
  "renderLogin env headers status errorMessage =
     (case ev_template env of
        Some e \<Rightarrow> http_error headers (go ''internal error'') 500
      | None \<Rightarrow>
          \<lparr>rs_status = status,
           rs_headers =
             set_header (go ''X-Frame-Options'') (go ''DENY'')
             (set_header (go ''X-Content-Type-Options'') (go ''nosniff'')
             (set_header (go ''Referrer-Policy'') (go ''no-referrer'')
             (set_header (go ''Content-Security-Policy'') loginContentSecurityPolicy
             (set_header (go ''Cache-Control'') (go ''no-store'')
             (set_header (go ''Content-Type'') (go ''text/html; charset=utf-8'') headers))))),
           rs_cookies = [], rs_body = Page (LoginPage errorMessage)\<rparr>)"

section \<open>Handlers\<close>

definition subject :: "auth_env \<Rightarrow> guard \<Rightarrow> http_request \<Rightarrow> bytes" where
  "subject env g rq =
     (case map_of (hr_cookies rq) SessionCookie of
        None \<Rightarrow> []
      | Some value \<Rightarrow>
          if value = [] then []
          else (case Verify (ev_crypto env) (gd_signer g) value (ev_now env) of
            Inl e \<Rightarrow> []
          | Inr name \<Rightarrow> name))"

definition reject :: "http_request \<Rightarrow> page response" where
  "reject rq =
     (if wantsHTML rq then redirect [] [] LoginPath 303
      else \<lparr>rs_status = 401,
            rs_headers = set_header (go ''Cache-Control'') (go ''no-store'')
              (set_header (go ''Content-Type'') (go ''application/json'') []),
            rs_cookies = [],
            rs_body = Page (ErrorJson (go ''unauthenticated'') (go ''a valid session is required''))\<rparr>)"

definition loginForm :: "auth_env \<Rightarrow> guard \<Rightarrow> http_request \<Rightarrow> page response" where
  "loginForm env g rq =
     (if subject env g rq \<noteq> [] then redirect [] [] [slash] 303 else renderLogin env [] 200 [])"

definition session_cookie :: "guard \<Rightarrow> bytes \<Rightarrow> int \<Rightarrow> cookie" where
  "session_cookie g value maxAge =
     \<lparr>ck_name = SessionCookie, ck_value = sanitizeCookieValue value, ck_path = [slash], ck_httpOnly = True,
      ck_secure = gd_secureCookie g, ck_strict = True, ck_maxAge = maxAge\<rparr>"

definition login :: "auth_env \<Rightarrow> guard \<Rightarrow> http_request \<Rightarrow> guard \<times> page response" where
  "login env g rq =
     (let client = clientAddress rq; (l, allowed) = Allow (ev_mono env) client (gd_limiter g);
          g1 = g\<lparr>gd_limiter := l\<rparr>
      in if \<not> allowed
         then (g1, renderLogin env (set_header (go ''Retry-After'') (retryAfterSeconds (RetryAfter l)) []) 429 msgThrottled)
         else (case hr_form rq of
           Inl e \<Rightarrow> (g1, renderLogin env [] 400 msgBadForm)
         | Inr form \<Rightarrow>
             let username = form_value form (go ''username''); password = form_value form (go ''password'') in
             if \<not> Credential_Verify (ev_crypto env) (gd_credential g) username password
             then (g1, renderLogin env [] 401 msgRejected)
             else (case Issue (ev_crypto env) (ev_rand env) (gd_signer g) (cred_username (gd_credential g)) (ev_now env) of
               Inl e \<Rightarrow> (g1, renderLogin env [] 500 msgNoSession)
             | Inr token \<Rightarrow>
                 (g1\<lparr>gd_limiter := Refund client l\<rparr>,
                  redirect [] [session_cookie g token (float_to_int (Seconds (sg_ttl (gd_signer g))))] [slash] 303))))"

definition logout :: "guard \<Rightarrow> http_request \<Rightarrow> page response" where
  "logout g rq = redirect [] [session_cookie g [] (- 1)] LoginPath 303"

datatype guard_handler = LoginFormHandler | LoginHandler | LogoutHandler | CatchAll

definition guard_routes :: "(pattern \<times> guard_handler) list" where
  "guard_routes =
     [(\<lparr>pt_method = Some (go ''GET''), pt_segments = [go ''login''], pt_subtree = False\<rparr>, LoginFormHandler),
      (\<lparr>pt_method = Some (go ''POST''), pt_segments = [go ''login''], pt_subtree = False\<rparr>, LoginHandler),
      (\<lparr>pt_method = Some (go ''POST''), pt_segments = [go ''logout''], pt_subtree = False\<rparr>, LogoutHandler),
      (\<lparr>pt_method = None, pt_segments = [], pt_subtree = True\<rparr>, CatchAll)]"

definition catch_all :: "auth_env \<Rightarrow> (http_request \<Rightarrow> 'a) \<Rightarrow> guard \<Rightarrow> http_request \<Rightarrow> 'a answer" where
  "catch_all env next g rq =
     (if hr_path rq \<in> set publicPaths then Application (next rq)
      else if subject env g rq = [] then Guarded (reject rq)
      else Application (next rq))"

definition Protect :: "auth_env \<Rightarrow> (http_request \<Rightarrow> 'a) \<Rightarrow> guard \<Rightarrow> http_request \<Rightarrow> guard \<times> 'a answer" where
  "Protect env next g rq =
     (case serve_mux guard_routes rq of
        Handle LoginFormHandler \<Rightarrow> (g, Guarded (loginForm env g rq))
      | Handle LoginHandler \<Rightarrow> (case login env g rq of (g1, r) \<Rightarrow> (g1, Guarded r))
      | Handle LogoutHandler \<Rightarrow> (g, Guarded (logout g rq))
      | Handle CatchAll \<Rightarrow> (g, catch_all env next g rq)
      | Moved path \<Rightarrow> (g, Guarded (redirect [] [] path 301))
      | BadRequest \<Rightarrow> (g, Guarded \<lparr>rs_status = 400, rs_headers = [], rs_cookies = [], rs_body = NoBody\<rparr>)
      | MethodNotAllowed \<Rightarrow> (g, Guarded (http_error [] (go ''Method Not Allowed'') 405))
      | NotFound \<Rightarrow> (g, Guarded (http_error [] (go ''404 page not found'') 404)))"

section \<open>Admission\<close>

lemma Protect_Application:
  assumes "Protect env next g rq = (g', Application x)"
  shows "x = next rq" and "g' = g" and "hr_path rq \<in> set publicPaths \<or> subject env g rq \<noteq> []"
    and "serve_mux guard_routes rq = Handle CatchAll"
  using assms
  by (auto simp: Protect_def catch_all_def split: route.splits guard_handler.splits prod.splits if_splits)

lemma subject_session:
  assumes "subject env g rq \<noteq> []"
  obtains token name where "map_of (hr_cookies rq) SessionCookie = Some token"
    and "Verify (ev_crypto env) (gd_signer g) token (ev_now env) = Inr name" and "name \<noteq> []"
  using assms by (auto simp: subject_def split: option.splits sum.splits if_splits)

text \<open>
  Nothing but the public paths is served without a session. When a request reaches the
  application, its path is one of the four public ones, or it carries a session cookie whose
  payload is followed by the guard's own MAC of that payload and names a subject and an expiry
  that lies in the future. The application is then called once with that request and the state of
  the guard does not change. Every other request is answered by the guard itself.
\<close>

theorem protect_requires_session:
  assumes "Protect env next g rq = (g', Application x)"
  shows "x = next rq \<and> g' = g \<and>
    (hr_path rq \<in> {go ''/healthz'', go ''/readyz'', go ''/login'', go ''/logout''} \<or>
     (\<exists>encoded name expiry nonce user e.
        map_of (hr_cookies rq) (go ''nexustier_session'') = Some (encoded @ dot # sign (ev_crypto env) (gd_signer g) encoded) \<and>
        DecodeString url_alphabet encoded = Some (js_join [pipe] [name, expiry, nonce]) \<and>
        DecodeString url_alphabet name = Some user \<and> user \<noteq> [] \<and> ParseInt expiry = Some e \<and> Unix (ev_now env) < e))"
proof (cases "hr_path rq \<in> set publicPaths")
  case True
  with Protect_Application [OF assms] show ?thesis by (auto simp: publicPaths_def LoginPath_def LogoutPath_def)
next
  case False
  with Protect_Application [OF assms] have "subject env g rq \<noteq> []" by blast
  then obtain token name where token: "map_of (hr_cookies rq) SessionCookie = Some token"
    and verified: "Verify (ev_crypto env) (gd_signer g) token (ev_now env) = Inr name" by (rule subject_session)
  from Verify_accepts [OF verified] token Protect_Application(1,2) [OF assms] show ?thesis
    unfolding SessionCookie_def by blast
qed

section \<open>Sessions\<close>

lemma login_keeps:
  "gd_signer (fst (login env g rq)) = gd_signer g" "gd_credential (fst (login env g rq)) = gd_credential g"
  "gd_secureCookie (fst (login env g rq)) = gd_secureCookie g"
  by (simp_all add: login_def Let_def split: prod.splits sum.splits)

lemma Protect_keeps:
  "gd_signer (fst (Protect env next g rq)) = gd_signer g" "gd_credential (fst (Protect env next g rq)) = gd_credential g"
  "gd_secureCookie (fst (Protect env next g rq)) = gd_secureCookie g"
  using login_keeps [of env g rq]
  by (auto simp: Protect_def split: route.splits guard_handler.splits prod.splits)

text \<open>A history of requests, each with what it finds outside the process.\<close>

definition guard_exec :: "auth_env \<times> http_request \<Rightarrow> guard \<Rightarrow> guard" where
  "guard_exec = (\<lambda>(env, rq) g. fst (Protect env (\<lambda>_. ()) g rq))"

lemma run_keeps_signer: "gd_signer (run_events guard_exec history g) = gd_signer g"
  by (induction history arbitrary: g) (simp_all add: guard_exec_def Protect_keeps split: prod.splits)

lemma valid_token_bytes:
  assumes "b \<in> set url_alphabet \<or> b = dot"
  shows "valid_cookie_byte b" and "b \<noteq> 0x20" and "b \<noteq> 0x2C"
proof -
  have "list_all (\<lambda>b. valid_cookie_byte b \<and> b \<noteq> 0x20 \<and> b \<noteq> 0x2C) (dot # url_alphabet)"
    by (simp add: url_alphabet_def b64_common_def valid_cookie_byte_def dot_def)
  with assms show "valid_cookie_byte b" and "b \<noteq> 0x20" and "b \<noteq> 0x2C"
    by (auto simp: list_all_iff)
qed

lemma sanitize_token:
  assumes "Issue cr rand signer name now = Inr token"
  shows "sanitizeCookieValue token = token" and "token \<noteq> []"
proof -
  from assms obtain encoded m where token: "token = EncodeToString url_alphabet encoded @ dot # EncodeToString url_alphabet m"
    by (auto elim!: Issue_eq simp: Let_def sign_def)
  then have "b \<in> set url_alphabet \<or> b = dot" if "b \<in> set token" for b
    using that set_EncodeToString [OF url_alphabet_ok] by auto
  note bytes = valid_token_bytes [OF this]
  have "filter valid_cookie_byte token = token" using bytes(1) by (simp add: filter_id_conv)
  then show "sanitizeCookieValue token = token" using bytes(2,3) by (auto simp: sanitizeCookieValue_def)
  show "token \<noteq> []" using token by simp
qed

lemma renderLogin_cookies [simp]: "rs_cookies (renderLogin env headers status message) = []"
  by (simp add: renderLogin_def http_error_def split: option.splits)

lemma login_cookie:
  assumes "login env g rq = (g1, r)" and "cookie \<in> set (rs_cookies r)"
  obtains token where "Issue (ev_crypto env) (ev_rand env) (gd_signer g) (cred_username (gd_credential g)) (ev_now env) = Inr token"
    and "cookie = session_cookie g token (float_to_int (Seconds (sg_ttl (gd_signer g))))"
  using assms by (auto simp: login_def Let_def redirect_def split: prod.splits sum.splits if_splits)

text \<open>
  C4. The session of a login. The cookie that a login sets is the guard's own, hidden from scripts
  and from other sites, and presenting it afterwards, after any history of further requests
  (logouts included), gets a request for a protected path through to the application exactly until
  the lifetime since the login has passed; from then on it is rejected like a request without a
  session.
\<close>

theorem login_session:
  assumes "serve_mux guard_routes rq = Handle LoginHandler" and "Protect env next g rq = (g1, Guarded r)"
    and "cookie \<in> set (rs_cookies r)" and "int64 (Unix (ev_now env + sg_ttl (gd_signer g)))"
    and "serve_mux guard_routes rq2 = Handle CatchAll" and "hr_path rq2 \<notin> set publicPaths"
    and "map_of (hr_cookies rq2) (ck_name cookie) = Some (ck_value cookie)" and "ev_crypto env2 = ev_crypto env"
  shows "ck_name cookie = SessionCookie \<and> ck_httpOnly cookie \<and> ck_strict cookie \<and>
    Protect env2 next (run_events guard_exec history g1) rq2 =
      (run_events guard_exec history g1,
       if Unix (ev_now env2) < Unix (ev_now env + sg_ttl (gd_signer g)) then Application (next rq2)
       else Guarded (reject rq2))"
proof -
  let ?g2 = "run_events guard_exec history g1"
  from assms(1,2) have l: "login env g rq = (g1, r)" by (auto simp: Protect_def split: prod.splits)
  then obtain token
    where issue: "Issue (ev_crypto env) (ev_rand env) (gd_signer g) (cred_username (gd_credential g)) (ev_now env) = Inr token"
    and cookie: "cookie = session_cookie g token (float_to_int (Seconds (sg_ttl (gd_signer g))))"
    using assms(3) by (rule login_cookie)
  note s = sanitize_token [OF issue]
  have name: "cred_username (gd_credential g) \<noteq> []" using issue by (auto simp: Issue_def)
  have signer: "gd_signer ?g2 = gd_signer g"
    using run_keeps_signer [of history g1] login_keeps(1) [of env g rq] l by simp
  have sent: "map_of (hr_cookies rq2) SessionCookie = Some token"
    using assms(7) s(1) by (simp add: cookie session_cookie_def)
  have "subject env2 ?g2 rq2 =
      (if Unix (ev_now env2) < Unix (ev_now env + sg_ttl (gd_signer g)) then cred_username (gd_credential g) else [])"
    using Verify_issued [OF issue assms(4), of "ev_now env2"] sent s(2)
    by (simp add: subject_def signer assms(8))
  with name assms(5,6) show ?thesis
    by (simp add: Protect_def catch_all_def cookie session_cookie_def)
qed

text \<open>An operator who logs in from one address.\<close>

definition operator_env :: "int \<Rightarrow> auth_env" where
  "operator_env t = \<lparr>ev_crypto = sample_crypto, ev_rand = sample_entropy, ev_now = t, ev_mono = t, ev_template = None\<rparr>"

definition sample_guard :: guard where
  "sample_guard =
     \<lparr>gd_credential = \<lparr>cred_username = go ''admin'',
        cred_hash = \<lparr>ph_iterations = 600000, ph_salt = [1], ph_key = go ''secret''\<rparr>\<rparr>,
      gd_signer = sample_signer, gd_limiter = NewLoginLimiter, gd_secureCookie = True\<rparr>"

definition sample_login :: "bytes \<Rightarrow> http_request" where
  "sample_login password =
     \<lparr>hr_method = go ''POST'', hr_path = go ''/login'', hr_escaped = go ''/login'', hr_remote = go ''10.0.0.7:5123'',
      hr_accept = [], hr_cookies = [], hr_query = [], hr_form = Inr [(go ''username'', go ''admin''), (go ''password'', password)]\<rparr>"

definition sample_get :: "(bytes \<times> bytes) list \<Rightarrow> http_request" where
  "sample_get cookies =
     \<lparr>hr_method = go ''GET'', hr_path = go ''/v1/topology'', hr_escaped = go ''/v1/topology'', hr_remote = go ''10.0.0.7:5123'',
      hr_accept = [], hr_cookies = cookies, hr_query = [], hr_form = Inr []\<rparr>"

lemma sample_routes:
  "serve_mux guard_routes (sample_login password) = Handle LoginHandler"
  "serve_mux guard_routes (sample_get cookies) = Handle CatchAll"
  "hr_path (sample_get cookies) \<notin> set publicPaths"
  "clientAddress (sample_login password) = go ''10.0.0.7''"
  by (simp_all add: serve_mux_def sample_login_def sample_get_def guard_routes_def cleanPath_def path_clean_def slash_def
      find_route_def pick_def pattern_matches_def path_segments_def pathUnescape_def publicPaths_def LoginPath_def LogoutPath_def
      clientAddress_def split_host_port_def last_index_of_def)

lemma sample_fields:
  "gd_limiter sample_guard = NewLoginLimiter" "gd_signer sample_guard = sample_signer"
  "cred_username (gd_credential sample_guard) = go ''admin''"
  "ev_crypto (operator_env t) = sample_crypto" "ev_rand (operator_env t) = sample_entropy"
  "ev_now (operator_env t) = t" "ev_mono (operator_env t) = t"
  "hr_form (sample_login password) = Inr [(go ''username'', go ''admin''), (go ''password'', password)]"
  by (simp_all add: sample_guard_def operator_env_def sample_login_def)

lemma fresh_client_allowed: "snd (Allow t c NewLoginLimiter)"
  using spend_same_instant [of 8 NewLoginLimiter t c]
  by (simp add: Allow_def sweepLocked_def NewLoginLimiter_def maxTrackedClients_def defaultBurst_def defaultRefill_def)

lemma sample_login_cookie:
  "\<exists>g1 r cookie. Protect (operator_env 0) next sample_guard (sample_login (go ''secret'')) = (g1, Guarded r) \<and>
     cookie \<in> set (rs_cookies r)"
proof -
  obtain token where token: "Issue sample_crypto sample_entropy sample_signer (go ''admin'') 0 = Inr token"
    using sample_issue by blast
  have "Credential_Verify sample_crypto (gd_credential sample_guard) (go ''admin'') (go ''secret'')"
    by (simp add: Credential_Verify_def sample_crypto_def sample_guard_def)
  then have "rs_cookies (snd (login (operator_env 0) sample_guard (sample_login (go ''secret'')))) \<noteq> []"
    using token fresh_client_allowed [of 0 "go ''10.0.0.7''"]
    by (simp add: login_def sample_routes(4) sample_fields case_prod_unfold Let_def form_value_def redirect_def del: go_Cons)
       (simp add: redirect_def)
  then show ?thesis
    by (cases "login (operator_env 0) sample_guard (sample_login (go ''secret''))") (auto simp: Protect_def sample_routes neq_Nil_conv)
qed

theorem login_session_witness:
  "\<exists>g1 r cookie. Protect (operator_env 0) id sample_guard (sample_login (go ''secret'')) = (g1, Guarded r) \<and> cookie \<in> set (rs_cookies r) \<and>
     snd (Protect (operator_env (3599 * second)) id g1 (sample_get [(ck_name cookie, ck_value cookie)])) =
       Application (sample_get [(ck_name cookie, ck_value cookie)]) \<and>
     snd (Protect (operator_env (3600 * second)) id g1 (sample_get [(ck_name cookie, ck_value cookie)])) =
       Guarded (reject (sample_get [(ck_name cookie, ck_value cookie)]))"
proof -
  obtain g1 r cookie where l: "Protect (operator_env 0) id sample_guard (sample_login (go ''secret'')) = (g1, Guarded r)"
    and cookie: "cookie \<in> set (rs_cookies r)" using sample_login_cookie by blast
  let ?rq = "sample_get [(ck_name cookie, ck_value cookie)]"
  have expiry: "Unix (ev_now (operator_env 0) + sg_ttl (gd_signer sample_guard)) = 3600"
    using sample_expiry by (simp add: operator_env_def sample_guard_def)
  have i: "int64 (Unix (ev_now (operator_env 0) + sg_ttl (gd_signer sample_guard)))" by (simp add: expiry int64_def)
  have c: "map_of (hr_cookies ?rq) (ck_name cookie) = Some (ck_value cookie)" by (simp add: sample_get_def)
  have "ev_crypto (operator_env t) = ev_crypto (operator_env 0)" for t by (simp add: sample_fields)
  note s = login_session [OF sample_routes(1) l cookie i sample_routes(2,3) c this, where history = "[]"]
  have "Protect (operator_env t) id g1 ?rq = (g1, if Unix t < 3600 then Application ?rq else Guarded (reject ?rq))" for t
    using s [of t] unfolding sample_fields add_0 sample_expiry run_events.simps id_apply by blast
  then have "snd (Protect (operator_env (3599 * second)) id g1 ?rq) = Application ?rq"
    "snd (Protect (operator_env (3600 * second)) id g1 ?rq) = Guarded (reject ?rq)"
    by (simp_all add: Unix_def)
  with l cookie show ?thesis by blast
qed

theorem protect_requires_session_witness:
  "Protect (operator_env 0) id sample_guard (sample_get []\<lparr>hr_path := go ''/healthz'', hr_escaped := go ''/healthz''\<rparr>) =
     (sample_guard, Application (sample_get []\<lparr>hr_path := go ''/healthz'', hr_escaped := go ''/healthz''\<rparr>)) \<and>
   hr_path (sample_get []\<lparr>hr_path := go ''/healthz'', hr_escaped := go ''/healthz''\<rparr>) \<in>
     {go ''/healthz'', go ''/readyz'', go ''/login'', go ''/logout''}"
proof -
  let ?rq = "sample_get []\<lparr>hr_path := go ''/healthz'', hr_escaped := go ''/healthz''\<rparr>"
  have "Protect (operator_env 0) id sample_guard ?rq = (sample_guard, Application ?rq)"
    by (simp add: Protect_def catch_all_def serve_mux_def sample_get_def guard_routes_def cleanPath_def path_clean_def slash_def
      find_route_def pick_def pattern_matches_def path_segments_def pathUnescape_def publicPaths_def)
  from protect_requires_session [OF this] this show ?thesis by (simp add: sample_get_def)
qed

section \<open>Guessing\<close>

text \<open>A guard with the latest reading of the monotonic clock, and requests in the order of that clock.\<close>

record guard_run =
  gr_guard :: guard
  gr_clock :: int

definition guard_enabled :: "auth_env \<times> http_request \<Rightarrow> guard_run \<Rightarrow> bool" where
  "guard_enabled e s \<longleftrightarrow> gr_clock s \<le> ev_mono (fst e)"

definition guard_step :: "auth_env \<times> http_request \<Rightarrow> guard_run \<Rightarrow> guard_run" where
  "guard_step e s = \<lparr>gr_guard = guard_exec e (gr_guard s), gr_clock = ev_mono (fst e)\<rparr>"

definition guard_start :: "credential \<Rightarrow> session_signer \<Rightarrow> bool \<Rightarrow> int \<Rightarrow> guard_run" where
  "guard_start credential signer secure t =
     \<lparr>gr_guard = \<lparr>gd_credential = credential, gd_signer = signer, gd_limiter = NewLoginLimiter, gd_secureCookie = secure\<rparr>,
      gr_clock = t\<rparr>"

text \<open>
  A login attempt of a client, and an attempt that was let through by the limiter and did not end in
  a session: a wrong guess.
\<close>

definition login_attempt :: "bytes \<Rightarrow> auth_env \<times> http_request \<Rightarrow> bool" where
  "login_attempt c e \<longleftrightarrow> serve_mux guard_routes (snd e) = Handle LoginHandler \<and> clientAddress (snd e) = c"

definition let_through :: "auth_env \<times> http_request \<Rightarrow> guard \<Rightarrow> bool" where
  "let_through e g = snd (Allow (ev_mono (fst e)) (clientAddress (snd e)) (gd_limiter g))"

definition wrong_guess :: "bytes \<Rightarrow> auth_env \<times> http_request \<Rightarrow> guard_run \<Rightarrow> bool" where
  "wrong_guess c e s \<longleftrightarrow> login_attempt c e \<and> let_through e (gr_guard s) \<and>
     rs_cookies (snd (login (fst e) (gr_guard s) (snd e))) = []"

definition limiter_of :: "guard_run \<Rightarrow> limiter_run" where
  "limiter_of s = \<lparr>lr_limiter = gd_limiter (gr_guard s), lr_clock = gr_clock s\<rparr>"

lemma login_limiter:
  "gd_limiter (fst (login env g rq)) =
     (if snd (Allow (ev_mono env) (clientAddress rq) (gd_limiter g)) \<and> rs_cookies (snd (login env g rq)) \<noteq> []
      then Refund (clientAddress rq) (fst (Allow (ev_mono env) (clientAddress rq) (gd_limiter g)))
      else fst (Allow (ev_mono env) (clientAddress rq) (gd_limiter g)))"
  by (simp add: login_def Let_def redirect_def split: prod.splits sum.splits)

lemma guard_limiter:
  "gd_limiter (guard_exec e g) =
     (if serve_mux guard_routes (snd e) = Handle LoginHandler then gd_limiter (fst (login (fst e) g (snd e)))
      else gd_limiter g)"
  by (cases e) (auto simp: guard_exec_def Protect_def split: route.splits guard_handler.splits prod.splits)

text \<open>A request takes the limiter through the calls it makes.\<close>

lemma limiter_of_step:
  assumes "guard_enabled e s"
  obtains (login) c where "login_attempt c e" "\<not> wrong_guess c e s" "let_through e (gr_guard s)"
      "limiter_of (guard_step e s) = limiter_exec (RefundCall c) (limiter_exec (AllowCall (ev_mono (fst e)) c) (limiter_of s))"
  | (attempt) c where "login_attempt c e" "wrong_guess c e s \<longleftrightarrow> let_through e (gr_guard s)"
      "limiter_of (guard_step e s) = limiter_exec (AllowCall (ev_mono (fst e)) c) (limiter_of s)"
  | (other) "\<And>c. \<not> login_attempt c e" "limiter_of (guard_step e s) = (limiter_of s)\<lparr>lr_clock := ev_mono (fst e)\<rparr>"
proof (cases "serve_mux guard_routes (snd e) = Handle LoginHandler")
  case False
  then show thesis by (intro other) (simp_all add: login_attempt_def limiter_of_def guard_step_def guard_limiter)
next
  case True
  let ?c = "clientAddress (snd e)"
  have a: "login_attempt ?c e" using True by (simp add: login_attempt_def)
  show thesis
  proof (cases "let_through e (gr_guard s) \<and> rs_cookies (snd (login (fst e) (gr_guard s) (snd e))) \<noteq> []")
    case True
    with a \<open>serve_mux guard_routes (snd e) = Handle LoginHandler\<close> show thesis
      by (intro login [OF a])
        (simp_all add: wrong_guess_def limiter_of_def guard_step_def guard_limiter login_limiter let_through_def)
  next
    case False
    with a \<open>serve_mux guard_routes (snd e) = Handle LoginHandler\<close> show thesis
      by (intro attempt [OF a])
        (auto simp: wrong_guess_def limiter_of_def guard_step_def guard_limiter login_limiter let_through_def)
  qed
qed

definition guard_credit :: "bytes \<Rightarrow> auth_env \<times> http_request \<Rightarrow> guard_run \<Rightarrow> rat" where
  "guard_credit c e s = worth (ev_mono (fst e) - gr_clock s) + (if login_attempt c e then 1 / 2 ^ 45 else 0)"

lemma login_attempt_unique: "login_attempt c e \<Longrightarrow> login_attempt c' e \<longleftrightarrow> c' = c"
  by (auto simp: login_attempt_def)

lemma limiter_of_clock [simp]: "lr_clock (limiter_of s) = gr_clock s"
  by (simp add: limiter_of_def)

lemma let_through_admits:
  "login_attempt c e \<Longrightarrow> admits c' (AllowCall (ev_mono (fst e)) c) (limiter_of s) \<longleftrightarrow> c' = c \<and> let_through e (gr_guard s)"
  by (auto simp: login_attempt_def let_through_def limiter_of_def)

lemma guard_step_ok:
  assumes "limiter_ok (limiter_of s)" and "guard_enabled e s"
  shows "limiter_ok (limiter_of (guard_step e s))"
  using assms(2)
proof (cases rule: limiter_of_step)
  case (login c)
  then show ?thesis using assms by (auto intro!: limiter_exec_ok simp: guard_enabled_def simp del: limiter_exec.simps)
next
  case (attempt c)
  then show ?thesis using assms by (auto intro!: limiter_exec_ok simp: guard_enabled_def simp del: limiter_exec.simps)
next
  case other
  then show ?thesis using assms by (auto simp: limiter_ok_def bucket_ok_def guard_enabled_def)
qed

lemma guard_budget_step:
  assumes "limiter_ok (limiter_of s)" and "guard_enabled e s"
  shows "of_bool (wrong_guess c e s) + budget c (limiter_of (guard_step e s)) \<le> budget c (limiter_of s) + guard_credit c e s"
  using assms(2)
proof (cases rule: limiter_of_step)
  case (login c')
  let ?call = "AllowCall (ev_mono (fst e)) c'" and ?s1 = "limiter_exec (AllowCall (ev_mono (fst e)) c') (limiter_of s)"
  have enabled: "limiter_enabled ?call (limiter_of s)" using assms(2) by (simp add: guard_enabled_def)
  note ok1 = limiter_exec_ok [OF assms(1) enabled]
  have "of_bool (admits c ?call (limiter_of s)) + budget c ?s1 \<le> budget c (limiter_of s) + earned c ?call (limiter_of s)"
    by (rule budget_step [OF assms(1) enabled])
  moreover have "budget c (limiter_exec (RefundCall c') ?s1) \<le> budget c ?s1 + earned c (RefundCall c') ?s1"
    using budget_step [OF ok1, of "RefundCall c'" c] by (simp del: limiter_exec.simps)
  moreover have "\<not> wrong_guess c e s" using login(1,2) login_attempt_unique [OF login(1)] by (auto simp: wrong_guess_def)
  ultimately show ?thesis
    using let_through_admits [OF login(1), of c s] login(3)
    by (simp add: login(4) guard_credit_def login_attempt_unique [OF login(1)] del: limiter_exec.simps admits.simps split: if_splits)
next
  case (attempt c')
  let ?call = "AllowCall (ev_mono (fst e)) c'"
  have enabled: "limiter_enabled ?call (limiter_of s)" using assms(2) by (simp add: guard_enabled_def)
  have "wrong_guess c e s \<longleftrightarrow> admits c ?call (limiter_of s)"
    using attempt(1,2) let_through_admits [OF attempt(1), of c s] login_attempt_unique [OF attempt(1), of c]
    by (auto simp: wrong_guess_def)
  with budget_step [OF assms(1) enabled, of c] show ?thesis
    by (cases "admits c ?call (limiter_of s)")
      (simp_all add: attempt(3) guard_credit_def login_attempt_unique [OF attempt(1)] del: limiter_exec.simps admits.simps split: if_splits)
next
  case other
  have "gr_clock s \<le> ev_mono (fst e)" using assms(2) by (simp add: guard_enabled_def)
  from budget_of_later [OF this] worth_nonneg [of "ev_mono (fst e) - gr_clock s"] this other show ?thesis
    by (auto simp: budget_def guard_credit_def wrong_guess_def split: option.splits)
qed

interpretation guard_budget: amortized guard_enabled guard_step "guard_start credential signer secure t" "\<lambda>s. limiter_ok (limiter_of s)"
    "\<lambda>e s. of_bool (wrong_guess c e s)" "guard_credit c" "\<lambda>s. budget c (limiter_of s)" for credential signer secure t c
proof unfold_locales
  show "limiter_ok (limiter_of (guard_start credential signer secure t))"
    using limiter_ok_start [of t] by (simp add: limiter_of_def guard_start_def limiter_start_def)
qed (intro guard_step_ok guard_budget_step login_budget.potential_nonneg; assumption)+

lemma total_guard_credit:
  "total (guard_credit c) guard_step history s =
     worth (gr_clock (run_events guard_step history s) - gr_clock s) + of_nat (length (filter (login_attempt c) history)) / 2 ^ 45"
proof (induction history arbitrary: s)
  case (Cons e history)
  let ?u = "gr_clock (run_events guard_step history (guard_step e s))"
  have "worth (?u - gr_clock s) = worth (?u - ev_mono (fst e)) + worth (ev_mono (fst e) - gr_clock s)"
    using worth_add [of "?u - ev_mono (fst e)" "ev_mono (fst e) - gr_clock s"] by simp
  moreover have "gr_clock (guard_step e s) = ev_mono (fst e)" by (simp add: guard_step_def)
  ultimately show ?case using Cons [of "guard_step e s"] by (simp add: guard_credit_def add_divide_distrib)
qed simp

definition wrong_guesses :: "bytes \<Rightarrow> (auth_env \<times> http_request) list \<Rightarrow> guard_run \<Rightarrow> nat" where
  "wrong_guesses c history s = total (\<lambda>e s. if wrong_guess c e s then 1 else 0) guard_step history s"

lemma total_wrong_guess: "total (\<lambda>e s. of_bool (wrong_guess c e s)) guard_step history s = (of_nat (wrong_guesses c history s) :: rat)"
  by (induction history arbitrary: s) (simp_all add: wrong_guesses_def)

text \<open>
  C5. Passwords cannot be guessed faster than the limiter allows. From the start of a guard, in any
  history of requests in clock order, the login attempts of one address that were examined and did
  not end in a session number at most 8 plus one for every 30 seconds elapsed; rounding adds less
  than \<open>2\<^sup>-\<^sup>4\<^sup>5\<close> per attempt. Successful logins, logouts, requests of other clients and waiting for the
  entry to be swept do not raise the bound.
\<close>

theorem guess_rate_bound:
  assumes "trace_ok guard_enabled guard_step history (guard_start credential signer secure t)"
  shows "of_nat (wrong_guesses c history (guard_start credential signer secure t)) \<le>
    8 + of_int (gr_clock (run_events guard_step history (guard_start credential signer secure t)) - t) / of_int (30 * second) +
    (of_nat (length (filter (login_attempt c) history)) / 2 ^ 45 :: rat)"
proof -
  have "budget c (limiter_of (guard_start credential signer secure t)) = 8"
    by (simp add: budget_def limiter_of_def guard_start_def NewLoginLimiter_def)
  with guard_budget.gain_bounded [OF assms, of c] show ?thesis
    unfolding total_wrong_guess total_guard_credit worth_def by (simp add: guard_start_def)
qed

theorem guess_rate_bound_witness:
  "(of_nat (wrong_guesses (go ''10.0.0.7'') [(operator_env 0, sample_login (go ''guess''))]
      (guard_start (gd_credential sample_guard) sample_signer True 0)) :: rat) \<le> 9"
proof -
  let ?s = "guard_start (gd_credential sample_guard) sample_signer True 0" and ?h = "[(operator_env 0, sample_login (go ''guess''))]"
  have "trace_ok guard_enabled guard_step ?h ?s" by (simp add: guard_enabled_def sample_fields guard_start_def)
  from guess_rate_bound [OF this, of "go ''10.0.0.7''"] show ?thesis
    by (simp add: guard_step_def sample_fields login_attempt_def sample_routes)
qed

end
