(* ===== verification/Retention.thy ===== *)
theory Retention
  imports Database "HOL-Library.Multiset"
begin

text \<open>
  The retention cleaner of \<^verbatim>\<open>controller/internal/retention/cleaner.go\<close>. Its \<^verbatim>\<open>Store\<close> interface is a
  record of two operations on a store state; \<^verbatim>\<open>cleanup\<close> calls each in a loop until a batch comes
  back short. A loop that never ends is the value \<^term>\<open>None\<close>. The locale \<open>batch_store\<close> states what
  the loop relies on, and the PostgreSQL store, modelled on the two statements, interprets it.

  A table is the list of its rows; a row of the samples table is found again by its place
  (\<^verbatim>\<open>ctid\<close>), a run by its primary key. Each statement meets an outcome of its own, given by the
  environment: an error or none, and the time of \<^verbatim>\<open>now()\<close>.
\<close>

section \<open>The cleaner\<close>

record 's store =
  st_delete :: "int \<Rightarrow> int \<Rightarrow> 's \<Rightarrow> 's \<times> int result"
  st_prune :: "int \<Rightarrow> int \<Rightarrow> 's \<Rightarrow> 's \<times> int result"

record cleaner_status =
  cs_running :: bool
  cs_lastStartedAt :: int
  cs_lastCompletedAt :: int
  cs_lastDeletedSamples :: int
  cs_totalDeletedSamples :: "64 word"
  cs_lastPrunedPayloads :: int
  cs_totalPrunedPayloads :: "64 word"
  cs_lastError :: jsstr

record cleaner =
  cl_retention :: int
  cl_interval :: int
  cl_batchSize :: int
  cl_status :: cleaner_status

definition NewCleaner :: "int \<Rightarrow> int \<Rightarrow> int \<Rightarrow> cleaner" where
  "NewCleaner metricRetention cleanupInterval batchSize =
     \<lparr>cl_retention = metricRetention, cl_interval = cleanupInterval, cl_batchSize = batchSize,
      cl_status = \<lparr>cs_running = False, cs_lastStartedAt = 0, cs_lastCompletedAt = 0, cs_lastDeletedSamples = 0,
        cs_totalDeletedSamples = 0, cs_lastPrunedPayloads = 0, cs_totalPrunedPayloads = 0, cs_lastError = []\<rparr>\<rparr>"

definition cleanup_begin :: "int \<Rightarrow> cleaner \<Rightarrow> cleaner" where
  "cleanup_begin startedAt c = c\<lparr>cl_status := (cl_status c)\<lparr>cs_running := True, cs_lastStartedAt := startedAt\<rparr>\<rparr>"

definition cleanup_end :: "int \<Rightarrow> int \<Rightarrow> int \<Rightarrow> jsstr option \<Rightarrow> cleaner \<Rightarrow> cleaner" where
  "cleanup_end completedAt deleted pruned cleanupError c =
     c\<lparr>cl_status := (cl_status c)
        \<lparr>cs_running := False, cs_lastCompletedAt := completedAt, cs_lastDeletedSamples := deleted,
         cs_lastPrunedPayloads := pruned,
         cs_totalDeletedSamples := cs_totalDeletedSamples (cl_status c) + of_int deleted,
         cs_totalPrunedPayloads := cs_totalPrunedPayloads (cl_status c) + of_int pruned,
         cs_lastError := (case cleanupError of None \<Rightarrow> [] | Some e \<Rightarrow> e)\<rparr>\<rparr>"

text \<open>The loop over batches: the error it stopped at, the number of rows handled, the store.\<close>

partial_function (option) run_batches ::
  "('s \<Rightarrow> 's \<times> int result) \<Rightarrow> int \<Rightarrow> int \<Rightarrow> 's \<Rightarrow> (jsstr option \<times> int \<times> 's) option" where
  "run_batches op batchSize handled s =
     (case op s of
        (s1, Inl e) \<Rightarrow> Some (Some e, handled, s1)
      | (s1, Inr rows) \<Rightarrow>
          if rows < batchSize then Some (None, handled + rows, s1)
          else run_batches op batchSize (handled + rows) s1)"

text \<open>The body of \<^verbatim>\<open>cleanup\<close> between the two updates of the status: error, deleted, pruned, store.\<close>

definition cleanup_work :: "'s store \<Rightarrow> int \<Rightarrow> cleaner \<Rightarrow> 's \<Rightarrow> (jsstr option \<times> int \<times> int \<times> 's) option" where
  "cleanup_work store startedAt c s =
     (let cutoff = startedAt - cl_retention c in
      case run_batches (st_delete store cutoff (cl_batchSize c)) (cl_batchSize c) 0 s of
        None \<Rightarrow> None
      | Some (Some e, deleted, s1) \<Rightarrow> Some (Some e, deleted, 0, s1)
      | Some (None, deleted, s1) \<Rightarrow>
          (case run_batches (st_prune store cutoff (cl_batchSize c)) (cl_batchSize c) 0 s1 of
             None \<Rightarrow> None
           | Some (cleanupError, pruned, s2) \<Rightarrow> Some (cleanupError, deleted, pruned, s2)))"

definition cleanup :: "'s store \<Rightarrow> int \<Rightarrow> int \<Rightarrow> cleaner \<times> 's \<Rightarrow> (cleaner \<times> 's) option" where
  "cleanup store startedAt completedAt = (\<lambda>(c, s).
     case cleanup_work store startedAt (cleanup_begin startedAt c) s of
       None \<Rightarrow> None
     | Some (cleanupError, deleted, pruned, s1) \<Rightarrow>
         Some (cleanup_end completedAt deleted pruned cleanupError (cleanup_begin startedAt c), s1))"

text \<open>
  \<^verbatim>\<open>Run\<close>: one pass at the start, then one per tick until the context is done. The argument lists
  the start and end times of the passes that take place.
\<close>

fun cleaner_run :: "'s store \<Rightarrow> (int \<times> int) list \<Rightarrow> cleaner \<times> 's \<Rightarrow> (cleaner \<times> 's) option" where
  "cleaner_run store [] cs = Some cs"
| "cleaner_run store ((startedAt, completedAt) # passes) cs =
     (case cleanup store startedAt completedAt cs of None \<Rightarrow> None | Some cs1 \<Rightarrow> cleaner_run store passes cs1)"

section \<open>The PostgreSQL store\<close>

record payload_row =
  pr_completed_at :: int
  pr_raw_payload :: "jsstr option"
  pr_raw_payload_sha256 :: "jsstr option"
  pr_payload_pruned_at :: "int option"

record retention_db =
  rd_samples :: "sample_row list"
  rd_runs :: "(128 word \<times> payload_row) list"
  rd_calls :: nat
  rd_outcome :: "nat \<Rightarrow> jsstr option \<times> int"

text \<open>\<^verbatim>\<open>WHERE ctid IN (SELECT ctid ... WHERE observed_at < $1 ORDER BY observed_at LIMIT $2)\<close>\<close>

definition sample_victims :: "int \<Rightarrow> int \<Rightarrow> sample_row list \<Rightarrow> nat list" where
  "sample_victims cutoff limit rows =
     map fst (take (nat limit) (sort_key (\<lambda>(ctid, r). sr_observed_at r)
       (filter (\<lambda>(ctid, r). sr_observed_at r < cutoff) (List.enumerate 0 rows))))"

definition DeleteMetricSamplesBefore :: "int \<Rightarrow> int \<Rightarrow> retention_db \<Rightarrow> retention_db \<times> int result" where
  "DeleteMetricSamplesBefore cutoff limit db =
     (let db1 = db\<lparr>rd_calls := Suc (rd_calls db)\<rparr> in
      case fst (rd_outcome db (rd_calls db)) of
        Some e \<Rightarrow> (db1, Inl (js ''delete expired metric samples: '' @ e))
      | None \<Rightarrow>
          let victims = sample_victims cutoff limit (rd_samples db)
          in (db1\<lparr>rd_samples := map snd (filter (\<lambda>(ctid, r). ctid \<notin> set victims) (List.enumerate 0 (rd_samples db)))\<rparr>,
              Inr (int (length victims))))"

definition payload_due :: "int \<Rightarrow> payload_row \<Rightarrow> bool" where
  "payload_due cutoff r \<longleftrightarrow>
     pr_completed_at r < cutoff \<and> pr_payload_pruned_at r = None \<and> pr_raw_payload_sha256 r \<noteq> None"

definition payload_victims :: "int \<Rightarrow> int \<Rightarrow> (128 word \<times> payload_row) list \<Rightarrow> 128 word list" where
  "payload_victims cutoff limit rows =
     map fst (take (nat limit) (sort_key (\<lambda>(cid, r). pr_completed_at r) (sort_key fst
       (filter (\<lambda>(cid, r). payload_due cutoff r) rows))))"

definition prune_payload :: "int \<Rightarrow> payload_row \<Rightarrow> payload_row" where
  "prune_payload now r = r\<lparr>pr_raw_payload := None, pr_payload_pruned_at := Some now\<rparr>"

definition PruneCollectionPayloadsBefore :: "int \<Rightarrow> int \<Rightarrow> retention_db \<Rightarrow> retention_db \<times> int result" where
  "PruneCollectionPayloadsBefore cutoff limit db =
     (let db1 = db\<lparr>rd_calls := Suc (rd_calls db)\<rparr> in
      case rd_outcome db (rd_calls db) of
        (Some e, now) \<Rightarrow> (db1, Inl (js ''prune expired collection payloads: '' @ e))
      | (None, now) \<Rightarrow>
          let victims = payload_victims cutoff limit (rd_runs db)
          in (db1\<lparr>rd_runs := map (\<lambda>(cid, r). (cid, if cid \<in> set victims then prune_payload now r else r)) (rd_runs db)\<rparr>,
              Inr (int (length (filter (\<lambda>(cid, r). cid \<in> set victims) (rd_runs db))))))"

definition PostgreSQLStore :: "retention_db store" where
  "PostgreSQLStore = \<lparr>st_delete = DeleteMetricSamplesBefore, st_prune = PruneCollectionPayloadsBefore\<rparr>"

section \<open>The loop over batches\<close>

text \<open>
  What the loop relies on: a successful call handles as many pending rows as the batch allows, and
  \<open>keeps\<close> is what every call respects.
\<close>

locale batch_store =
  fixes op :: "int \<Rightarrow> 's \<Rightarrow> 's \<times> int result"
    and pending :: "'s \<Rightarrow> nat"
    and keeps :: "'s \<Rightarrow> 's \<Rightarrow> bool"
  assumes handled: "keeps s s \<Longrightarrow> 0 < batch \<Longrightarrow> op batch s = (s1, Inr n) \<Longrightarrow> n = int (min (nat batch) (pending s)) \<and> pending s1 = pending s - nat n"
    and failed: "keeps s s \<Longrightarrow> 0 < batch \<Longrightarrow> op batch s = (s1, Inl e) \<Longrightarrow> pending s1 = pending s \<and> e \<noteq> []"
    and keeps_step: "keeps s s \<Longrightarrow> 0 < batch \<Longrightarrow> op batch s = (s1, r) \<Longrightarrow> keeps s s1 \<and> keeps s1 s1"
    and keeps_trans: "keeps s s1 \<Longrightarrow> keeps s1 s2 \<Longrightarrow> keeps s s2"
begin

lemma run_batches_returns:
  assumes "keeps s s" and "0 < batch"
  shows "\<exists>err s1. run_batches (op batch) batch n s = Some (err, n + int (pending s) - int (pending s1), s1) \<and>
    keeps s s1 \<and> keeps s1 s1 \<and> pending s1 \<le> pending s \<and> (err = None \<longrightarrow> pending s1 = 0) \<and> err \<noteq> Some []"
  using assms(1)
proof (induction "pending s" arbitrary: s n rule: less_induct)
  case less
  obtain s1 r where op: "op batch s = (s1, r)" by fastforce
  note k = keeps_step [OF less.prems assms(2) op]
  show ?case
  proof (cases r)
    case (Inl e)
    then show ?thesis
      using failed [OF less.prems assms(2)] op k by (subst run_batches.simps) auto
  next
    case (Inr m)
    with handled [OF less.prems assms(2)] op
    have m: "m = int (min (nat batch) (pending s))" "pending s1 = pending s - nat m" by blast+
    show ?thesis
    proof (cases "m < batch")
      case True
      then have "m = int (pending s)" using m(1) by (simp add: min_def split: if_splits)
      with True m(2) op Inr k show ?thesis by (subst run_batches.simps) auto
    next
      case False
      then have mb: "m = batch" "nat batch \<le> pending s" using m(1) assms(2) by (auto simp: min_def split: if_splits)
      then have "pending s1 < pending s" using m(2) assms(2) by linarith
      from less.hyps [OF this, of "n + m"] k obtain err s2
        where s2: "run_batches (op batch) batch (n + m) s1 = Some (err, n + m + int (pending s1) - int (pending s2), s2)"
        and rest: "keeps s1 s2" "keeps s2 s2" "pending s2 \<le> pending s1" "err = None \<longrightarrow> pending s2 = 0" "err \<noteq> Some []" by blast
      have sum: "n + m + int (pending s1) = n + int (pending s)" using m mb assms(2) by simp
      have "run_batches (op batch) batch n s = run_batches (op batch) batch (n + m) s1"
        using False op Inr by (subst run_batches.simps) simp
      then have "run_batches (op batch) batch n s = Some (err, n + int (pending s) - int (pending s2), s2)"
        by (simp only: s2 sum)
      moreover have "keeps s s2" using k rest(1) keeps_trans by blast
      moreover have "pending s2 \<le> pending s" using rest(3) m(2) by simp
      ultimately show ?thesis using rest(2,4,5) by blast
    qed
  qed
qed

end

section \<open>The statements\<close>

lemma length_filter_key:
  assumes "distinct (map f xs)" and "distinct vs" and "set vs \<subseteq> f ` set xs"
  shows "length (filter (\<lambda>x. f x \<in> set vs) xs) = length vs"
    and "length (filter (\<lambda>x. f x \<notin> set vs) xs) = length xs - length vs"
proof -
  have "map f (filter (\<lambda>x. f x \<in> set vs) xs) = filter (\<lambda>y. y \<in> set vs) (map f xs)"
    by (simp add: filter_map comp_def)
  then have "distinct (map f (filter (\<lambda>x. f x \<in> set vs) xs))"
    and "set (map f (filter (\<lambda>x. f x \<in> set vs) xs)) = set vs"
    using assms(1,3) by auto
  then show 1: "length (filter (\<lambda>x. f x \<in> set vs) xs) = length vs"
    using distinct_card assms(2) by (metis length_map)
  show "length (filter (\<lambda>x. f x \<notin> set vs) xs) = length xs - length vs"
    using sum_length_filter_compl [of "\<lambda>x. f x \<in> set vs" xs] 1 by simp
qed

lemma distinct_map_take: "distinct (map f xs) \<Longrightarrow> distinct (map f (take n xs))"
  by (simp flip: take_map)

lemma map_snd_filter_enumerate: "map snd (filter (\<lambda>x. P (snd x)) (List.enumerate n rows)) = filter P rows"
  by (induction rows arbitrary: n) auto

lemma distinct_fst_enumerate: "distinct (map fst (List.enumerate n rows))"
  by simp

definition expired :: "int \<Rightarrow> sample_row \<Rightarrow> bool" where
  "expired cutoff r \<longleftrightarrow> sr_observed_at r < cutoff"

lemma sample_victims_facts:
  fixes cutoff limit rows
  defines "V \<equiv> sample_victims cutoff limit rows"
  defines "E \<equiv> filter (\<lambda>x. expired cutoff (snd x)) (List.enumerate 0 rows)"
  shows "distinct V" and "set V \<subseteq> fst ` set E" and "length V = min (nat limit) (length (filter (expired cutoff) rows))"
proof -
  let ?S = "sort_key (\<lambda>(ctid, r). sr_observed_at r) E"
  have V: "V = map fst (take (nat limit) ?S)"
    by (simp add: V_def E_def sample_victims_def expired_def case_prod_unfold)
  have dE: "distinct (map fst E)" unfolding E_def by (intro distinct_map_filter distinct_fst_enumerate)
  have "mset (map fst ?S) = mset (map fst E)" by simp
  then have "distinct (map fst ?S)" using dE mset_eq_imp_distinct_iff by blast
  then show "distinct V" unfolding V by (rule distinct_map_take)
  show "set V \<subseteq> fst ` set E" unfolding V using set_take_subset [of "nat limit" ?S] by auto
  have "length E = length (filter (expired cutoff) rows)"
    unfolding E_def map_snd_filter_enumerate [of "expired cutoff" 0 rows, symmetric] by simp
  then show "length V = min (nat limit) (length (filter (expired cutoff) rows))" unfolding V by (simp add: min.commute)
qed

lemma remaining_samples:
  fixes cutoff limit rows
  defines "V \<equiv> sample_victims cutoff limit rows"
  defines "rows1 \<equiv> map snd (filter (\<lambda>(ctid, r). ctid \<notin> set V) (List.enumerate 0 rows))"
  shows "filter (\<lambda>r. \<not> expired cutoff r) rows1 = filter (\<lambda>r. \<not> expired cutoff r) rows"
    and "length (filter (expired cutoff) rows1) = length (filter (expired cutoff) rows) - length V"
proof -
  let ?E = "List.enumerate 0 rows"
  let ?X = "filter (\<lambda>x. expired cutoff (snd x)) ?E"
  note v = sample_victims_facts [of cutoff limit rows, folded V_def]
  have dX: "distinct (map fst ?X)" by (intro distinct_map_filter distinct_fst_enumerate)
  have outside: "fst x \<notin> set V" if x: "x \<in> set ?E" "\<not> expired cutoff (snd x)" for x
  proof
    assume "fst x \<in> set V"
    then obtain y where y: "y \<in> set ?E" "expired cutoff (snd y)" "fst y = fst x" using v(2) by auto
    have "inj_on fst (set ?E)" using distinct_fst_enumerate [of 0 rows] by (simp only: distinct_map)
    with y x show False by (metis inj_onD)
  qed
  have "filter (\<lambda>r. \<not> expired cutoff r) rows1 =
      map snd (filter (\<lambda>x. fst x \<notin> set V \<and> \<not> expired cutoff (snd x)) ?E)"
    by (simp add: rows1_def filter_map comp_def case_prod_unfold)
  also have "filter (\<lambda>x. fst x \<notin> set V \<and> \<not> expired cutoff (snd x)) ?E = filter (\<lambda>x. \<not> expired cutoff (snd x)) ?E"
    using outside by (intro filter_cong) auto
  finally show "filter (\<lambda>r. \<not> expired cutoff r) rows1 = filter (\<lambda>r. \<not> expired cutoff r) rows"
    by (simp only: map_snd_filter_enumerate [of "\<lambda>r. \<not> expired cutoff r"])
  have "length (filter (expired cutoff) rows1) = length (filter (\<lambda>x. fst x \<notin> set V) ?X)"
    by (simp add: rows1_def filter_map comp_def case_prod_unfold conj_commute)
  also have "\<dots> = length ?X - length V" by (rule length_filter_key(2) [OF dX v(1,2)])
  also have "length ?X = length (filter (expired cutoff) rows)"
    unfolding map_snd_filter_enumerate [of "expired cutoff" 0 rows, symmetric] by simp
  finally show "length (filter (expired cutoff) rows1) = length (filter (expired cutoff) rows) - length V" .
qed

definition samples_kept :: "int \<Rightarrow> retention_db \<Rightarrow> retention_db \<Rightarrow> bool" where
  "samples_kept cutoff db db1 \<longleftrightarrow>
     filter (\<lambda>r. \<not> expired cutoff r) (rd_samples db1) = filter (\<lambda>r. \<not> expired cutoff r) (rd_samples db) \<and>
     rd_runs db1 = rd_runs db"

interpretation sample_store: batch_store "DeleteMetricSamplesBefore cutoff"
    "\<lambda>db. length (filter (expired cutoff) (rd_samples db))" "samples_kept cutoff" for cutoff
proof unfold_locales
  fix batch db db1 n
  assume b: "0 < batch" and "DeleteMetricSamplesBefore cutoff batch db = (db1, Inr n)"
  then have n: "n = int (length (sample_victims cutoff batch (rd_samples db)))"
    and db1: "rd_samples db1 = map snd (filter (\<lambda>(ctid, r). ctid \<notin> set (sample_victims cutoff batch (rd_samples db)))
      (List.enumerate 0 (rd_samples db)))"
    by (auto simp: DeleteMetricSamplesBefore_def Let_def split: option.splits)
  show "n = int (min (nat batch) (length (filter (expired cutoff) (rd_samples db)))) \<and>
      length (filter (expired cutoff) (rd_samples db1)) = length (filter (expired cutoff) (rd_samples db)) - nat n"
    unfolding n db1 remaining_samples(2) sample_victims_facts(3) by simp
qed (auto simp: DeleteMetricSamplesBefore_def Let_def samples_kept_def remaining_samples(1) split: option.splits)

definition pruned_or_same :: "int \<Rightarrow> payload_row \<Rightarrow> payload_row \<Rightarrow> bool" where
  "pruned_or_same cutoff r r1 \<longleftrightarrow> r1 = r \<or> payload_due cutoff r \<and> (\<exists>now. r1 = prune_payload now r)"

definition payloads_kept :: "int \<Rightarrow> retention_db \<Rightarrow> retention_db \<Rightarrow> bool" where
  "payloads_kept cutoff db db1 \<longleftrightarrow>
     distinct (map fst (rd_runs db)) \<and> rd_samples db1 = rd_samples db \<and>
     list_all2 (\<lambda>x y. fst y = fst x \<and> pruned_or_same cutoff (snd x) (snd y)) (rd_runs db) (rd_runs db1)"

lemma prune_not_due [simp]: "\<not> payload_due cutoff (prune_payload now r)"
  by (simp add: payload_due_def prune_payload_def)

lemma due_if: "payload_due cutoff (if b then prune_payload now r else r) \<longleftrightarrow> \<not> b \<and> payload_due cutoff r"
  by simp

lemma pruned_or_same_trans: "pruned_or_same cutoff r r1 \<Longrightarrow> pruned_or_same cutoff r1 r2 \<Longrightarrow> pruned_or_same cutoff r r2"
  by (auto simp: pruned_or_same_def)

lemma payloads_kept_refl: "payloads_kept cutoff db db \<longleftrightarrow> distinct (map fst (rd_runs db))"
  by (auto simp: payloads_kept_def pruned_or_same_def intro!: list.rel_refl)

lemma payloads_kept_keys: "payloads_kept cutoff db db1 \<Longrightarrow> map fst (rd_runs db1) = map fst (rd_runs db)"
  by (auto simp: payloads_kept_def list_all2_conv_all_nth intro: nth_equalityI)

lemma payload_victims_facts:
  fixes cutoff limit rows
  defines "V \<equiv> payload_victims cutoff limit rows"
  assumes "distinct (map fst rows)"
  shows "distinct V" and "set V \<subseteq> fst ` set (filter (\<lambda>x. payload_due cutoff (snd x)) rows)"
    and "length V = min (nat limit) (length (filter (\<lambda>x. payload_due cutoff (snd x)) rows))"
proof -
  let ?D = "filter (\<lambda>x. payload_due cutoff (snd x)) rows"
  let ?S = "sort_key (\<lambda>(cid, r). pr_completed_at r) (sort_key fst ?D)"
  have V: "V = map fst (take (nat limit) ?S)" by (simp add: V_def payload_victims_def case_prod_unfold)
  have "mset (map fst ?S) = mset (map fst ?D)" by simp
  moreover have "distinct (map fst ?D)" using assms(2) by (rule distinct_map_filter)
  ultimately have "distinct (map fst ?S)" using mset_eq_imp_distinct_iff by blast
  then show "distinct V" unfolding V by (rule distinct_map_take)
  show "set V \<subseteq> fst ` set ?D" unfolding V using set_take_subset [of "nat limit" ?S] by auto
  show "length V = min (nat limit) (length ?D)" unfolding V by (simp add: min.commute)
qed

lemma remaining_payloads:
  fixes cutoff limit now rows
  defines "V \<equiv> payload_victims cutoff limit rows"
  defines "rows1 \<equiv> map (\<lambda>(cid, r). (cid, if cid \<in> set V then prune_payload now r else r)) rows"
  assumes d: "distinct (map fst rows)"
  shows "length (filter (\<lambda>(cid, r). cid \<in> set V) rows) = length V"
    and "length (filter (\<lambda>x. payload_due cutoff (snd x)) rows1) = length (filter (\<lambda>x. payload_due cutoff (snd x)) rows) - length V"
    and "list_all2 (\<lambda>x y. fst y = fst x \<and> pruned_or_same cutoff (snd x) (snd y)) rows rows1"
proof -
  let ?D = "filter (\<lambda>x. payload_due cutoff (snd x)) rows"
  note v = payload_victims_facts [OF d, of cutoff limit, folded V_def]
  have "set V \<subseteq> fst ` set rows" using v(2) by auto
  from length_filter_key(1) [OF d v(1) this] show "length (filter (\<lambda>(cid, r). cid \<in> set V) rows) = length V"
    by (simp add: case_prod_unfold)
  have "length (filter (\<lambda>x. payload_due cutoff (snd x)) rows1) = length (filter (\<lambda>x. fst x \<notin> set V) ?D)"
    by (simp add: rows1_def filter_map comp_def case_prod_unfold due_if conj_commute)
  also have "\<dots> = length ?D - length V"
    using d by (intro length_filter_key(2) v distinct_map_filter)
  finally show "length (filter (\<lambda>x. payload_due cutoff (snd x)) rows1) = length ?D - length V" .
  have "payload_due cutoff r" if row: "(cid, r) \<in> set rows" "cid \<in> set V" for cid r
  proof -
    obtain x where "x \<in> set rows" "payload_due cutoff (snd x)" "fst x = cid" using v(2) row(2) by auto
    moreover have "inj_on fst (set rows)" using d by (simp add: distinct_map)
    ultimately show ?thesis using row(1) by (metis fst_conv inj_onD snd_conv)
  qed
  then show "list_all2 (\<lambda>x y. fst y = fst x \<and> pruned_or_same cutoff (snd x) (snd y)) rows rows1"
    by (auto simp: rows1_def list_all2_conv_all_nth pruned_or_same_def case_prod_unfold) (metis nth_mem prod.collapse)
qed

interpretation payload_store: batch_store "PruneCollectionPayloadsBefore cutoff"
    "\<lambda>db. length (filter (\<lambda>x. payload_due cutoff (snd x)) (rd_runs db))" "payloads_kept cutoff" for cutoff
proof unfold_locales
  fix batch db db1 n
  assume d: "payloads_kept cutoff db db" and b: "0 < batch" and "PruneCollectionPayloadsBefore cutoff batch db = (db1, Inr n)"
  moreover obtain err now where "rd_outcome db (rd_calls db) = (err, now)" by fastforce
  ultimately have n: "n = int (length (filter (\<lambda>(cid, r). cid \<in> set (payload_victims cutoff batch (rd_runs db))) (rd_runs db)))"
    and db1: "rd_runs db1 = map (\<lambda>(cid, r). (cid, if cid \<in> set (payload_victims cutoff batch (rd_runs db))
      then prune_payload now r else r)) (rd_runs db)"
    by (auto simp: PruneCollectionPayloadsBefore_def Let_def split: option.splits)
  have d: "distinct (map fst (rd_runs db))" using d by (simp add: payloads_kept_refl)
  show "n = int (min (nat batch) (length (filter (\<lambda>x. payload_due cutoff (snd x)) (rd_runs db)))) \<and>
      length (filter (\<lambda>x. payload_due cutoff (snd x)) (rd_runs db1)) =
      length (filter (\<lambda>x. payload_due cutoff (snd x)) (rd_runs db)) - nat n"
    unfolding n db1 remaining_payloads(1,2) [OF d] payload_victims_facts(3) [OF d] by simp
next
  fix batch db db1 r
  assume d: "payloads_kept cutoff db db" and "PruneCollectionPayloadsBefore cutoff batch db = (db1, r)"
  moreover from d have "distinct (map fst (rd_runs db))" by (simp add: payloads_kept_refl)
  note remaining_payloads(3) [OF this, of cutoff batch]
  ultimately have "payloads_kept cutoff db db1"
    by (auto simp: PruneCollectionPayloadsBefore_def Let_def payloads_kept_def split: option.splits prod.splits)
  with d show "payloads_kept cutoff db db1 \<and> payloads_kept cutoff db1 db1"
    using payloads_kept_keys [of cutoff db db1] by (simp add: payloads_kept_refl)
next
  fix db db1 db2
  assume a: "payloads_kept cutoff db db1" and b: "payloads_kept cutoff db1 db2"
  have "list_all2 (\<lambda>x z. fst z = fst x \<and> pruned_or_same cutoff (snd x) (snd z)) (rd_runs db) (rd_runs db2)"
    using a b unfolding payloads_kept_def
    by (auto simp: list_all2_conv_all_nth) (blast intro: pruned_or_same_trans)
  with a b show "payloads_kept cutoff db db2" by (simp add: payloads_kept_def)
qed (auto simp: PruneCollectionPayloadsBefore_def Let_def split: option.splits prod.splits)

section \<open>A cleanup\<close>

lemma length_expired: "length (filter (expired cutoff) rows) + length (filter (\<lambda>r. \<not> expired cutoff r) rows) = length rows"
  by (rule sum_length_filter_compl)

lemma cleanup_work_returns:
  assumes "0 < cl_batchSize c" and "distinct (map fst (rd_runs db))"
    and cutoff_def: "cutoff = startedAt - cl_retention c"
  shows "\<exists>err deleted pruned db1. cleanup_work PostgreSQLStore startedAt c db = Some (err, deleted, pruned, db1) \<and>
    filter (\<lambda>r. \<not> expired cutoff r) (rd_samples db1) = filter (\<lambda>r. \<not> expired cutoff r) (rd_samples db) \<and>
    list_all2 (\<lambda>x y. fst y = fst x \<and> pruned_or_same cutoff (snd x) (snd y)) (rd_runs db) (rd_runs db1) \<and>
    deleted = int (length (filter (expired cutoff) (rd_samples db))) - int (length (filter (expired cutoff) (rd_samples db1))) \<and>
    pruned = int (length (filter (\<lambda>x. payload_due cutoff (snd x)) (rd_runs db))) -
      int (length (filter (\<lambda>x. payload_due cutoff (snd x)) (rd_runs db1))) \<and>
    (err = None \<longrightarrow> filter (expired cutoff) (rd_samples db1) = [] \<and> filter (\<lambda>x. payload_due cutoff (snd x)) (rd_runs db1) = []) \<and>
    err \<noteq> Some []"
proof -
  have "samples_kept cutoff db db" by (simp add: samples_kept_def)
  from sample_store.run_batches_returns [OF this assms(1), of 0] obtain err1 db1
    where run1: "run_batches (DeleteMetricSamplesBefore cutoff (cl_batchSize c)) (cl_batchSize c) 0 db =
        Some (err1, int (length (filter (expired cutoff) (rd_samples db))) - int (length (filter (expired cutoff) (rd_samples db1))), db1)"
    and kept1: "samples_kept cutoff db db1" and done1: "err1 = None \<longrightarrow> filter (expired cutoff) (rd_samples db1) = []" "err1 \<noteq> Some []"
    by auto
  have same: "list_all2 (\<lambda>x y. fst y = fst x \<and> pruned_or_same cutoff (snd x) (snd y)) (rd_runs db) (rd_runs db)"
    using payloads_kept_refl [of cutoff db] assms(2) by (simp add: payloads_kept_def)
  show ?thesis
  proof (cases err1)
    case (Some e)
    then show ?thesis
      using run1 kept1 same done1 unfolding cleanup_work_def PostgreSQLStore_def cutoff_def [symmetric]
      by (simp add: samples_kept_def)
  next
    case None
    have d: "payloads_kept cutoff db1 db1" using kept1 assms(2) by (simp add: payloads_kept_refl samples_kept_def)
    from payload_store.run_batches_returns [OF d assms(1), of 0] obtain err2 db2
      where run2: "run_batches (PruneCollectionPayloadsBefore cutoff (cl_batchSize c)) (cl_batchSize c) 0 db1 =
          Some (err2, int (length (filter (\<lambda>x. payload_due cutoff (snd x)) (rd_runs db1))) -
            int (length (filter (\<lambda>x. payload_due cutoff (snd x)) (rd_runs db2))), db2)"
      and kept2: "payloads_kept cutoff db1 db2"
      and done2: "err2 = None \<longrightarrow> filter (\<lambda>x. payload_due cutoff (snd x)) (rd_runs db2) = []" "err2 \<noteq> Some []"
      by auto
    then show ?thesis
      using None run1 kept1 done1 unfolding cleanup_work_def PostgreSQLStore_def cutoff_def [symmetric]
      by (simp add: samples_kept_def payloads_kept_def)
  qed
qed

text \<open>
  C14. A cleanup ends and does exactly its work. With a positive batch size, for any tables and any
  pattern of database errors, the loops return. The samples that are not older than the cutoff stay,
  in order; every run is unchanged, or it was due and only its payload was replaced; the counters are
  the numbers of rows removed and pruned, added to the 64-bit totals. When the status shows no
  error, no expired sample and no payload due for pruning is left.
\<close>

theorem cleanup_exact:
  assumes "0 < cl_batchSize c" and "distinct (map fst (rd_runs db))" and "cutoff = startedAt - cl_retention c"
  shows "\<exists>c1 db1. cleanup PostgreSQLStore startedAt completedAt (c, db) = Some (c1, db1) \<and>
    filter (\<lambda>r. cutoff \<le> sr_observed_at r) (rd_samples db1) = filter (\<lambda>r. cutoff \<le> sr_observed_at r) (rd_samples db) \<and>
    list_all2 (\<lambda>(cid, r) (cid1, r1). cid1 = cid \<and>
        (r1 = r \<or> payload_due cutoff r \<and> (\<exists>now. r1 = r\<lparr>pr_raw_payload := None, pr_payload_pruned_at := Some now\<rparr>)))
      (rd_runs db) (rd_runs db1) \<and>
    \<not> cs_running (cl_status c1) \<and>
    cs_lastDeletedSamples (cl_status c1) = int (length (rd_samples db)) - int (length (rd_samples db1)) \<and>
    cs_totalDeletedSamples (cl_status c1) = cs_totalDeletedSamples (cl_status c) + of_int (cs_lastDeletedSamples (cl_status c1)) \<and>
    cs_lastPrunedPayloads (cl_status c1) =
      int (length (filter (\<lambda>(cid, r). payload_due cutoff r) (rd_runs db))) - int (length (filter (\<lambda>(cid, r). payload_due cutoff r) (rd_runs db1))) \<and>
    cs_totalPrunedPayloads (cl_status c1) = cs_totalPrunedPayloads (cl_status c) + of_int (cs_lastPrunedPayloads (cl_status c1)) \<and>
    (cs_lastError (cl_status c1) = [] \<longrightarrow>
       rd_samples db1 = filter (\<lambda>r. cutoff \<le> sr_observed_at r) (rd_samples db) \<and>
       (\<forall>(cid, r) \<in> set (rd_runs db1). \<not> payload_due cutoff r))"
proof -
  have eqf: "(\<lambda>r. \<not> expired cutoff r) = (\<lambda>r. cutoff \<le> sr_observed_at r)" by (auto simp: expired_def)
  let ?c = "cleanup_begin startedAt c"
  have c: "cl_batchSize ?c = cl_batchSize c" "cl_retention ?c = cl_retention c" by (simp_all add: cleanup_begin_def)
  obtain err deleted pruned db1 where w: "cleanup_work PostgreSQLStore startedAt ?c db = Some (err, deleted, pruned, db1)"
    and fresh: "filter (\<lambda>r. cutoff \<le> sr_observed_at r) (rd_samples db1) = filter (\<lambda>r. cutoff \<le> sr_observed_at r) (rd_samples db)"
    and runs: "list_all2 (\<lambda>x y. fst y = fst x \<and> pruned_or_same cutoff (snd x) (snd y)) (rd_runs db) (rd_runs db1)"
    and counts: "deleted = int (length (filter (expired cutoff) (rd_samples db))) - int (length (filter (expired cutoff) (rd_samples db1)))"
      "pruned = int (length (filter (\<lambda>x. payload_due cutoff (snd x)) (rd_runs db))) - int (length (filter (\<lambda>x. payload_due cutoff (snd x)) (rd_runs db1)))"
    and "err = None \<longrightarrow> filter (expired cutoff) (rd_samples db1) = [] \<and> filter (\<lambda>x. payload_due cutoff (snd x)) (rd_runs db1) = []"
      "err \<noteq> Some []"
    using cleanup_work_returns [of ?c db cutoff startedAt] assms unfolding c eqf by blast
  note ends = this(6,7)
  have deleted: "deleted = int (length (rd_samples db)) - int (length (rd_samples db1))"
    using length_expired [of cutoff "rd_samples db"] length_expired [of cutoff "rd_samples db1"] fresh counts(1) unfolding eqf by simp
  have rows: "rd_samples db1 = filter (\<lambda>r. cutoff \<le> sr_observed_at r) (rd_samples db)" if "err = None"
    using ends(1) that fresh by (simp add: filter_empty_conv expired_def not_less flip: fresh)
  have "cleanup PostgreSQLStore startedAt completedAt (c, db) = Some (cleanup_end completedAt deleted pruned err ?c, db1)"
    by (simp add: cleanup_def w)
  with fresh runs deleted counts(2) rows ends show ?thesis
    by (intro exI conjI) (auto simp: cleanup_end_def cleanup_begin_def case_prod_unfold pruned_or_same_def prune_payload_def
        filter_empty_conv split: option.splits)
qed

definition sample_at :: "int \<Rightarrow> sample_row" where
  "sample_at t = \<lparr>sr_collection_id = 1, sr_instance_id = 2, sr_metric_name = [], sr_labels_hash = [], sr_labels = [], sr_value = 0, sr_observed_at = t\<rparr>"

definition sample_retention_db :: retention_db where
  "sample_retention_db =
     \<lparr>rd_samples = [sample_at 5, sample_at 50, sample_at 7],
      rd_runs = [(1, \<lparr>pr_completed_at = 5, pr_raw_payload = Some [], pr_raw_payload_sha256 = Some [], pr_payload_pruned_at = None\<rparr>)],
      rd_calls = 0, rd_outcome = (\<lambda>n. (None, 60))\<rparr>"

theorem cleanup_exact_witness:
  "\<exists>c1 db1. cleanup PostgreSQLStore 60 61 (NewCleaner 40 10 1, sample_retention_db) = Some (c1, db1) \<and>
     filter (\<lambda>r. 20 \<le> sr_observed_at r) (rd_samples db1) = [sample_at 50] \<and> \<not> cs_running (cl_status c1)"
  using cleanup_exact [of "NewCleaner 40 10 1" sample_retention_db 20 60 61]
  by (auto simp: NewCleaner_def sample_retention_db_def sample_at_def)

text \<open>
  With a batch size of zero every batch is full, and the loop would not end; the configuration
  admits positive batch sizes only.
\<close>

lemma run_batches_full_diverges:
  assumes "\<And>s. I s \<Longrightarrow> \<exists>s1 n. op s = (s1, Inr n) \<and> batch \<le> n \<and> I s1" and "I s"
  shows "run_batches op batch n s = None"
proof -
  let ?P = "\<lambda>op' b (n :: int) s r. I s \<longrightarrow> op' = op \<longrightarrow> b = batch \<longrightarrow> False"
  have "I s \<longrightarrow> op = op \<longrightarrow> batch = batch \<longrightarrow> False" if "run_batches op batch n s = Some r" for r
  proof (rule run_batches.raw_induct [where P = ?P, OF _ that], intro impI)
    fix f op' b n s r
    assume ih: "\<And>op' b n s r. f op' b n s = Some r \<Longrightarrow> I s \<longrightarrow> op' = op \<longrightarrow> b = batch \<longrightarrow> False"
      and body: "(case op' s of (s1, Inl e) \<Rightarrow> Some (Some e, n, s1)
        | (s1, Inr rows) \<Rightarrow> if rows < b then Some (None, n + rows, s1) else f op' b (n + rows) s1) = Some r"
      and s: "I s" "op' = op" "b = batch"
    obtain s1 m where m: "op s = (s1, Inr m)" "batch \<le> m" "I s1" using assms(1) [OF s(1)] by blast
    with body s have "f op batch (n + m) s1 = Some r" by simp
    from ih [OF this] m(3) show False by simp
  qed
  with assms(2) show ?thesis by (metis option.exhaust)
qed

lemma zero_batch_diverges:
  assumes "\<forall>k. fst (rd_outcome db k) = None" and "cl_batchSize c = 0"
  shows "cleanup PostgreSQLStore startedAt completedAt (c, db) = None"
proof -
  let ?I = "\<lambda>db. \<forall>k. fst (rd_outcome db k) = None"
  have "run_batches (DeleteMetricSamplesBefore cutoff 0) 0 0 db = None" for cutoff
  proof (rule run_batches_full_diverges [of ?I])
    show "\<exists>s1 n. DeleteMetricSamplesBefore cutoff 0 s = (s1, Inr n) \<and> 0 \<le> n \<and> ?I s1" if "?I s" for s
      using that by (simp add: DeleteMetricSamplesBefore_def Let_def)
  qed (rule assms(1))
  then show ?thesis using assms(2) by (simp add: cleanup_def cleanup_work_def cleanup_begin_def PostgreSQLStore_def)
qed

end
