(* ===== verification/Poller.thy ===== *)
theory Poller
  imports Go_Base
begin

text \<open>
  The polling worker of \<^verbatim>\<open>controller/internal/poller/worker.go\<close>. Its two interfaces, the fetcher of
  snapshots and the ingester, are arguments: the result of a fetch, and an operation on the state
  behind the ingester. \<open>collect\<close> is one pass with every update of the status; \<open>worker_run\<close> is the
  sequence of passes of \<^verbatim>\<open>Run\<close>. The status is shown to be a function of the outcomes so far.
\<close>

section \<open>The worker\<close>

record poller_status =
  ps_running :: bool
  ps_lastAttemptAt :: "int option"
  ps_lastSuccessAt :: "int option"
  ps_lastCollectionID :: "128 word"
  ps_lastCollectionState :: jsstr
  ps_lastError :: jsstr
  ps_consecutiveFailures :: "64 word"

record worker =
  wk_interval :: int
  wk_jitter :: int
  wk_requestTimeout :: int
  wk_status :: poller_status

definition NewWorker :: "int \<Rightarrow> int \<Rightarrow> int \<Rightarrow> worker" where
  "NewWorker interval jitter requestTimeout =
     \<lparr>wk_interval = interval, wk_jitter = jitter, wk_requestTimeout = requestTimeout,
      wk_status = \<lparr>ps_running = False, ps_lastAttemptAt = None, ps_lastSuccessAt = None, ps_lastCollectionID = 0,
        ps_lastCollectionState = [], ps_lastError = [], ps_consecutiveFailures = 0\<rparr>\<rparr>"

definition recordFailure :: "string \<Rightarrow> jsstr \<Rightarrow> worker \<Rightarrow> worker" where
  "recordFailure operation err w =
     w\<lparr>wk_status := (wk_status w)\<lparr>ps_lastError := js operation @ js '': '' @ err,
        ps_consecutiveFailures := ps_consecutiveFailures (wk_status w) + 1\<rparr>\<rparr>"

definition recordSuccess :: "int \<Rightarrow> 128 word \<Rightarrow> bool \<Rightarrow> worker \<Rightarrow> worker" where
  "recordSuccess now collectionID inserted w =
     w\<lparr>wk_status := (wk_status w)\<lparr>ps_lastSuccessAt := Some now, ps_lastCollectionID := collectionID,
        ps_lastCollectionState := (if inserted then js ''ingested'' else js ''duplicate''),
        ps_lastError := [], ps_consecutiveFailures := 0\<rparr>\<rparr>"

definition set_running :: "bool \<Rightarrow> worker \<Rightarrow> worker" where
  "set_running b w = w\<lparr>wk_status := (wk_status w)\<lparr>ps_running := b\<rparr>\<rparr>"

definition begin_attempt :: "int \<Rightarrow> worker \<Rightarrow> worker" where
  "begin_attempt now w =
     w\<lparr>wk_status := (wk_status w)\<lparr>ps_running := True, ps_lastAttemptAt := Some now\<rparr>\<rparr>"

text \<open>
  One pass: the times at its start and at its success, the fetched snapshot or the error, and the
  ingester as an operation that also changes the state behind it.
\<close>

definition collect ::
  "('s \<Rightarrow> 128 word) \<Rightarrow> ('s \<Rightarrow> 'd \<Rightarrow> 'd \<times> bool result) \<Rightarrow> int \<times> int \<times> 's result \<Rightarrow> worker \<times> 'd \<Rightarrow> worker \<times> 'd" where
  "collect collectionID ingest = (\<lambda>(startedAt, succeededAt, fetched) (w, d).
     let w1 = begin_attempt startedAt w in
     case fetched of
       Inl err \<Rightarrow> (set_running False (recordFailure ''fetch topology'' err w1), d)
     | Inr snapshot \<Rightarrow>
         (case ingest snapshot d of
            (d1, Inl err) \<Rightarrow> (set_running False (recordFailure ''ingest topology'' err w1), d1)
          | (d1, Inr inserted) \<Rightarrow>
              (set_running False (recordSuccess succeededAt (collectionID snapshot) inserted w1), d1)))"

text \<open>
  The pause before the next pass: the interval, moved by a random amount when there is a jitter.
  Durations are 64-bit, and \<^verbatim>\<open>rand.Int64N\<close> panics (\<open>None\<close>) unless its bound is positive. The random
  number is an argument.
\<close>

definition wrap64 :: "int \<Rightarrow> int" where
  "wrap64 i = (i + 2 ^ 63) mod 2 ^ 64 - 2 ^ 63"

definition next_wait :: "(int \<Rightarrow> int) \<Rightarrow> worker \<Rightarrow> int option" where
  "next_wait int64n w =
     (if wk_jitter w > 0
      then let span = wrap64 (2 * wk_jitter w) in
           if span \<le> 0 then None
           else Some (wrap64 (wrap64 (wk_interval w - wk_jitter w) + int64n span))
      else Some (wk_interval w))"

fun worker_run ::
  "('s \<Rightarrow> 128 word) \<Rightarrow> ('s \<Rightarrow> 'd \<Rightarrow> 'd \<times> bool result) \<Rightarrow> (int \<times> int \<times> 's result) list \<Rightarrow> worker \<times> 'd \<Rightarrow> worker \<times> 'd" where
  "worker_run collectionID ingest [] wd = wd"
| "worker_run collectionID ingest (p # passes) wd = worker_run collectionID ingest passes (collect collectionID ingest p wd)"

section \<open>Specification: the status as a function of the outcomes\<close>

datatype outcome_of_pass = PassFailed int jsstr | PassSucceeded int int "128 word" bool

fun pass_failed :: "outcome_of_pass \<Rightarrow> bool" where
  "pass_failed (PassFailed t e) = True"
| "pass_failed (PassSucceeded t u cid b) = False"

fun pass_started :: "outcome_of_pass \<Rightarrow> int" where
  "pass_started (PassFailed t e) = t"
| "pass_started (PassSucceeded t u cid b) = t"

text \<open>The outcome of one pass, with its complete error message.\<close>

definition pass_outcome :: "('s \<Rightarrow> 128 word) \<Rightarrow> ('s \<Rightarrow> 'd \<Rightarrow> 'd \<times> bool result) \<Rightarrow> int \<times> int \<times> 's result \<Rightarrow> 'd \<Rightarrow> outcome_of_pass" where
  "pass_outcome collectionID ingest = (\<lambda>(startedAt, succeededAt, fetched) d.
     case fetched of
       Inl err \<Rightarrow> PassFailed startedAt (js ''fetch topology: '' @ err)
     | Inr snapshot \<Rightarrow>
         (case snd (ingest snapshot d) of
            Inl err \<Rightarrow> PassFailed startedAt (js ''ingest topology: '' @ err)
          | Inr inserted \<Rightarrow> PassSucceeded startedAt succeededAt (collectionID snapshot) inserted))"

fun outcomes ::
  "('s \<Rightarrow> 128 word) \<Rightarrow> ('s \<Rightarrow> 'd \<Rightarrow> 'd \<times> bool result) \<Rightarrow> (int \<times> int \<times> 's result) list \<Rightarrow> 'd \<Rightarrow> outcome_of_pass list" where
  "outcomes collectionID ingest [] d = []"
| "outcomes collectionID ingest (p # passes) d =
     pass_outcome collectionID ingest p d #
     outcomes collectionID ingest passes (case snd (snd p) of Inl e \<Rightarrow> d | Inr s \<Rightarrow> fst (ingest s d))"

text \<open>The status that a history of outcomes, latest first, calls for.\<close>

definition status_of :: "outcome_of_pass list \<Rightarrow> poller_status" where
  "status_of latest =
     (let success = List.find (\<lambda>p. \<not> pass_failed p) latest in
      \<lparr>ps_running = False,
       ps_lastAttemptAt = (case latest of [] \<Rightarrow> None | p # _ \<Rightarrow> Some (pass_started p)),
       ps_lastSuccessAt = (case success of Some (PassSucceeded t u cid b) \<Rightarrow> Some u | _ \<Rightarrow> None),
       ps_lastCollectionID = (case success of Some (PassSucceeded t u cid b) \<Rightarrow> cid | _ \<Rightarrow> 0),
       ps_lastCollectionState =
         (case success of Some (PassSucceeded t u cid b) \<Rightarrow> if b then js ''ingested'' else js ''duplicate'' | _ \<Rightarrow> []),
       ps_lastError = (case latest of PassFailed t e # _ \<Rightarrow> e | _ \<Rightarrow> []),
       ps_consecutiveFailures = of_nat (length (takeWhile pass_failed latest))\<rparr>)"

section \<open>Properties\<close>

lemma collect_status:
  assumes "wk_status w = status_of latest"
  shows "wk_status (fst (collect collectionID ingest p (w, d))) = status_of (pass_outcome collectionID ingest p d # latest)"
proof -
  obtain t u fetched where p: "p = (t, u, fetched)" by (metis surj_pair)
  show ?thesis
  proof (cases fetched)
    case (Inl e)
    then show ?thesis
      using assms by (simp add: p collect_def pass_outcome_def set_running_def recordFailure_def begin_attempt_def status_of_def Let_def js_append)
  next
    case (Inr s)
    obtain d1 r where r: "ingest s d = (d1, r)" by fastforce
    show ?thesis
      using assms Inr r by (cases r)
        (simp_all add: p collect_def pass_outcome_def set_running_def recordFailure_def recordSuccess_def begin_attempt_def
          status_of_def Let_def)
  qed
qed

lemma collect_ingester:
  "snd (collect collectionID ingest p (w, d)) = (case snd (snd p) of Inl e \<Rightarrow> d | Inr s \<Rightarrow> fst (ingest s d))"
  by (auto simp: collect_def Let_def split: prod.splits sum.splits)

lemma worker_run_status:
  assumes "wk_status w = status_of latest"
  shows "wk_status (fst (worker_run collectionID ingest passes (w, d))) =
    status_of (rev (outcomes collectionID ingest passes d) @ latest)"
  using assms
proof (induction passes arbitrary: w d latest)
  case (Cons p passes)
  obtain w1 d1 where c: "collect collectionID ingest p (w, d) = (w1, d1)" by fastforce
  have "wk_status w1 = status_of (pass_outcome collectionID ingest p d # latest)"
    using collect_status [OF Cons.prems, of collectionID ingest p d] c by simp
  from Cons.IH [OF this, of d1] collect_ingester [of collectionID ingest p w d] c show ?case by simp
qed simp

text \<open>
  C33. The reported status is exactly the history. After any number of passes with any fetch and
  ingest results, the status is the one that the outcomes call for: not running, the time of the
  latest attempt, time, identifier and kind of the latest success, the message of the latest attempt
  if that failed and none otherwise, and the number of failures since the latest success (modulo
  \<open>2\<^sup>6\<^sup>4\<close>).
\<close>

theorem poller_status_exact:
  "wk_status (fst (worker_run collectionID ingest passes (NewWorker interval jitter timeout, d))) =
     status_of (rev (outcomes collectionID ingest passes d))"
proof -
  have "wk_status (NewWorker interval jitter timeout) = status_of []"
    by (simp add: NewWorker_def status_of_def)
  from worker_run_status [OF this] show ?thesis by simp
qed

text \<open>The pause stays within the jitter around the interval.\<close>

lemma wrap64_id: "- (2 ^ 63) \<le> i \<Longrightarrow> i < 2 ^ 63 \<Longrightarrow> wrap64 i = i"
  by (simp add: wrap64_def)

text \<open>
  The pause for durations of 64 bits: the span of the jitter wraps from \<open>2\<^sup>6\<^sup>2\<close> on, and then the random
  source is called with a negative bound and panics. Otherwise the pause lies within the jitter around
  the interval, if their sum does not wrap.
\<close>

lemma next_wait_exact:
  assumes "0 \<le> wk_jitter w" and "wk_jitter w < wk_interval w" and "wk_interval w < 2 ^ 63"
    and "\<And>n. 0 < n \<Longrightarrow> 0 \<le> int64n n \<and> int64n n < n"
  shows "case next_wait int64n w of
      None \<Rightarrow> 2 ^ 62 \<le> wk_jitter w
    | Some d \<Rightarrow> wk_jitter w < 2 ^ 62 \<and> (wk_interval w + wk_jitter w \<le> 2 ^ 63 \<longrightarrow>
        wk_interval w - wk_jitter w \<le> d \<and> d \<le> wk_interval w + wk_jitter w \<and> 0 < d)"
proof -
  consider "wk_jitter w = 0" | "0 < wk_jitter w" "wk_jitter w < 2 ^ 62" | "2 ^ 62 \<le> wk_jitter w" using assms(1) by linarith
  then show ?thesis
  proof cases
    case 1
    then show ?thesis using assms(2) by (simp add: next_wait_def)
  next
    case 2
    have span: "wrap64 (2 * wk_jitter w) = 2 * wk_jitter w" using 2 by (intro wrap64_id) simp_all
    have diff: "wrap64 (wk_interval w - wk_jitter w) = wk_interval w - wk_jitter w" using assms(1-3) by (intro wrap64_id) simp_all
    have r: "0 \<le> int64n (2 * wk_jitter w)" "int64n (2 * wk_jitter w) < 2 * wk_jitter w"
      using 2(1) assms(4) [of "2 * wk_jitter w"] by simp_all
    have "wrap64 (wk_interval w - wk_jitter w + int64n (2 * wk_jitter w)) = wk_interval w - wk_jitter w + int64n (2 * wk_jitter w)"
      if "wk_interval w + wk_jitter w \<le> 2 ^ 63" using that assms(1-3) r by (intro wrap64_id) simp_all
    with span diff r 2 assms(2) show ?thesis by (simp add: next_wait_def Let_def)
  next
    case 3
    have "wrap64 (2 * wk_jitter w) = wrap64 (2 * wk_jitter w - 2 ^ 64)" 
      unfolding wrap64_def using minus_mod_self2 [of "2 * wk_jitter w + 2 ^ 63" "2 ^ 64"] by (simp only: diff_add_eq)
    also have "\<dots> = 2 * wk_jitter w - 2 ^ 64" using 3 assms(2,3) by (intro wrap64_id) simp_all
    finally have "wrap64 (2 * wk_jitter w) < 0" using assms(2,3) by simp
    with 3 show ?thesis by (simp add: next_wait_def Let_def)
  qed
qed

end
