(* ===== verification/Api.thy ===== *)
theory Api
  imports Read_Model Guard Retention Poller
begin

text \<open>
  The HTTP interface of the controller, \<^verbatim>\<open>controller/internal/api/api.go\<close>, with the static handler
  of \<^verbatim>\<open>webui/handler.go\<close> and the build identity of \<^verbatim>\<open>buildinfo/buildinfo.go\<close>, and the request path as
  the process wires it: the guard in front of the API. A JSON body is represented by the value
  that is encoded; the embedded files are arguments. The readiness probe's answer from the
  database and the faults of its queries are arguments of a request, too.
\<close>

section \<open>Build identity\<close>

definition stamp_value :: "jsstr \<Rightarrow> (jsstr \<times> jsstr) list \<Rightarrow> jsstr \<Rightarrow> jsstr" where
  "stamp_value key settings old =
     fold (\<lambda>(k, v) current. if k = key \<and> current = [] then v else current) settings old"

definition fillFromModuleStamp :: "(jsstr \<times> jsstr) list option \<Rightarrow> jsstr \<times> jsstr \<Rightarrow> jsstr \<times> jsstr" where
  "fillFromModuleStamp stamp = (\<lambda>(commit, builtAt).
     case stamp of
       None \<Rightarrow> (commit, builtAt)
     | Some settings \<Rightarrow>
         (stamp_value (js ''vcs.revision'') settings commit, stamp_value (js ''vcs.time'') settings builtAt))"

definition Current :: "jsstr \<Rightarrow> jsstr \<Rightarrow> jsstr \<Rightarrow> jsstr \<Rightarrow> jsstr \<Rightarrow> (jsstr \<times> jsstr) list option \<Rightarrow> build_info" where
  "Current version commit buildTime goVersion platform stamp =
     (let (commit1, builtAt1) =
            (if commit = [] \<or> buildTime = [] then fillFromModuleStamp stamp (commit, buildTime) else (commit, buildTime))
      in \<lparr>bi_version = (if version = [] then js ''dev'' else version),
          bi_commit = Some (if commit1 = [] then js ''unknown'' else commit1),
          bi_built_at = (if builtAt1 = [] then js ''unknown'' else builtAt1),
          bi_go_version = goVersion, bi_platform = platform\<rparr>)"

text \<open>
  The hash of a commit is ASCII, so its bytes are its characters. The parser of timestamps is an argument
  and the zero time another.
\<close>

definition ShortCommit :: "build_info \<Rightarrow> jsstr" where
  "ShortCommit info =
     (let commit = (case bi_commit info of None \<Rightarrow> [] | Some c \<Rightarrow> c) in if length commit < 7 then commit else take 7 commit)"

definition BuiltAtTime :: "(jsstr \<Rightarrow> 't result) \<Rightarrow> 't \<Rightarrow> build_info \<Rightarrow> 't \<times> bool" where
  "BuiltAtTime parse zero info = (case parse (bi_built_at info) of Inl e \<Rightarrow> (zero, False) | Inr t \<Rightarrow> (t, True))"

section \<open>Responses\<close>

datatype api_page =
    HealthPage int
  | ReadyPage
  | BuildPage build_info
  | TelemetryPage poller_status
  | RetentionPage cleaner_status
  | TopologyPage topology_json
  | ErrorPage jsstr jsstr
  | AssetPage bytes

definition writeJSON :: "nat \<Rightarrow> api_page \<Rightarrow> api_page response" where
  "writeJSON status val =
     \<lparr>rs_status = status,
      rs_headers = set_header (go ''Cache-Control'') (go ''no-store'')
        (set_header (go ''Content-Type'') (go ''application/json'') []),
      rs_cookies = [], rs_body = Page val\<rparr>"

definition writeError :: "nat \<Rightarrow> string \<Rightarrow> jsstr \<Rightarrow> api_page response" where
  "writeError status code message = writeJSON status (ErrorPage (js code) message)"

section \<open>The server\<close>

record server =
  sv_codec :: codec
  sv_database :: database
  sv_worker :: worker
  sv_retention :: cleaner
  sv_started :: int
  sv_build :: build_info
  sv_index :: bytes
  sv_script :: bytes
  sv_css :: bytes

record api_env =
  ae_now :: int
  ae_ping :: "jsstr option"
  ae_faults :: faults

definition health :: "server \<Rightarrow> api_page response" where
  "health sv = writeJSON 200 (HealthPage (sv_started sv))"

definition ready :: "api_env \<Rightarrow> api_page response" where
  "ready env =
     (case ae_ping env of
        Some e \<Rightarrow> writeJSON 503 (ErrorPage (js ''database_unavailable'') (js ''controller database is unavailable''))
      | None \<Rightarrow> writeJSON 200 ReadyPage)"

definition buildIdentity :: "server \<Rightarrow> api_page response" where
  "buildIdentity sv = writeJSON 200 (BuildPage (sv_build sv))"

definition telemetryStatus :: "server \<Rightarrow> api_page response" where
  "telemetryStatus sv = writeJSON 200 (TelemetryPage (wk_status (sv_worker sv)))"

definition retentionStatus :: "server \<Rightarrow> api_page response" where
  "retentionStatus sv = writeJSON 200 (RetentionPage (cl_status (sv_retention sv)))"

definition topology_response :: "api_env \<Rightarrow> server \<Rightarrow> http_request \<Rightarrow> api_page response" where
  "topology_response env sv rq =
     (case topologyQuery (sv_codec sv) (hr_query rq) of
        Inl e \<Rightarrow> writeError 400 ''invalid_query'' e
      | Inr query \<Rightarrow>
          (case CurrentTopology (sv_codec sv) (ae_now env) (ae_faults env) (sv_database sv) query of
             Inl e \<Rightarrow> writeError 503 ''topology_unavailable'' (js ''current topology is unavailable'')
           | Inr topology \<Rightarrow> writeJSON 200 (TopologyPage topology)))"

definition webui_policy :: bytes where
  "webui_policy =
     go ''default-src '' @ quoted ''self'' @ go ''; img-src '' @ quoted ''self'' @ go '' data:; style-src '' @ quoted ''self'' @
     go '' '' @ quoted ''unsafe-inline'' @ go ''; script-src '' @ quoted ''self'' @ go ''; connect-src '' @ quoted ''self'' @
     go ''; object-src '' @ quoted ''none'' @ go ''; base-uri '' @ quoted ''none'' @ go ''; frame-ancestors '' @ quoted ''none''"

definition webui_headers :: "(bytes \<times> bytes) list" where
  "webui_headers =
     set_header (go ''Cache-Control'') (go ''no-store'')
     (set_header (go ''X-Frame-Options'') (go ''DENY'')
     (set_header (go ''X-Content-Type-Options'') (go ''nosniff'')
     (set_header (go ''Referrer-Policy'') (go ''no-referrer'')
     (set_header (go ''Content-Security-Policy'') webui_policy []))))"

definition asset :: "string \<Rightarrow> bytes \<Rightarrow> api_page response" where
  "asset contentType contents =
     \<lparr>rs_status = 200, rs_headers = set_header (go ''Content-Type'') (go contentType) webui_headers, rs_cookies = [],
      rs_body = Page (AssetPage contents)\<rparr>"

definition webui :: "server \<Rightarrow> http_request \<Rightarrow> api_page response" where
  "webui sv rq =
     (if hr_path rq = go ''/'' then asset ''text/html; charset=utf-8'' (sv_index sv)
      else if hr_path rq = go ''/app.css'' then asset ''text/css; charset=utf-8'' (sv_css sv)
      else if hr_path rq = go ''/app.js'' then asset ''text/javascript; charset=utf-8'' (sv_script sv)
      else http_error webui_headers (go ''404 page not found'') 404)"

datatype api_handler = Health | Ready | Build | Telemetry | Topology | Retain | Webui

definition api_routes :: "(pattern \<times> api_handler) list" where
  "api_routes =
     map (\<lambda>(segments, subtree, h). (\<lparr>pt_method = Some (go ''GET''), pt_segments = map go segments, pt_subtree = subtree\<rparr>, h))
       [([''healthz''], False, Health), ([''readyz''], False, Ready), ([''v1'', ''build''], False, Build),
        ([''v1'', ''telemetry'', ''status''], False, Telemetry), ([''v1'', ''topology''], False, Topology),
        ([''v1'', ''retention'', ''status''], False, Retain), ([], True, Webui)]"

fun api_handle :: "api_handler \<Rightarrow> api_env \<Rightarrow> server \<Rightarrow> http_request \<Rightarrow> api_page response" where
  "api_handle Health env sv rq = health sv"
| "api_handle Ready env sv rq = ready env"
| "api_handle Build env sv rq = buildIdentity sv"
| "api_handle Telemetry env sv rq = telemetryStatus sv"
| "api_handle Topology env sv rq = topology_response env sv rq"
| "api_handle Retain env sv rq = retentionStatus sv"
| "api_handle Webui env sv rq = webui sv rq"

definition api_serve :: "api_env \<Rightarrow> server \<Rightarrow> http_request \<Rightarrow> api_page response" where
  "api_serve env sv rq =
     (case serve_mux api_routes rq of
        Handle h \<Rightarrow> api_handle h env sv rq
      | Moved path \<Rightarrow> redirect [] [] path 301
      | BadRequest \<Rightarrow> \<lparr>rs_status = 400, rs_headers = [], rs_cookies = [], rs_body = NoBody\<rparr>
      | MethodNotAllowed \<Rightarrow> http_error [] (go ''Method Not Allowed'') 405
      | NotFound \<Rightarrow> http_error [] (go ''404 page not found'') 404)"

text \<open>The handler of the process: the API behind the guard.\<close>

definition controller_serve ::
  "auth_env \<Rightarrow> api_env \<Rightarrow> server \<Rightarrow> guard \<Rightarrow> http_request \<Rightarrow> guard \<times> api_page response answer" where
  "controller_serve auth env sv g rq = Protect auth (api_serve env sv) g rq"

section \<open>What is public\<close>

text \<open>Answers that carry data of the installation or files of the console.\<close>

fun page_has_data :: "api_page \<Rightarrow> bool" where
  "page_has_data (HealthPage t) = False"
| "page_has_data ReadyPage = False"
| "page_has_data (ErrorPage code message) = False"
| "page_has_data (BuildPage info) = True"
| "page_has_data (TelemetryPage st) = True"
| "page_has_data (RetentionPage st) = True"
| "page_has_data (TopologyPage page) = True"
| "page_has_data (AssetPage contents) = True"

fun body_has_data :: "api_page body \<Rightarrow> bool" where
  "body_has_data NoBody = False"
| "body_has_data (PlainText message) = False"
| "body_has_data (Page p) = page_has_data p"

lemma no_data_bodies [simp]:
  "\<not> body_has_data (rs_body (redirect headers cookies url status))"
  "\<not> body_has_data (rs_body (http_error headers message status))"
  "\<not> body_has_data (rs_body (health sv))" "\<not> body_has_data (rs_body (ready env))"
  by (simp_all add: redirect_def http_error_def health_def ready_def writeJSON_def split: option.splits)

lemma api_route_cases:
  assumes "(pt, h) \<in> set api_routes" and "pattern_matches pt path" and "path_segments path = [name]"
  shows "h = Health \<or> h = Ready \<or> h = Webui"
  using assms by (auto simp: api_routes_def pattern_matches_def)

lemma api_methods: "(pt, h) \<in> set api_routes \<Longrightarrow> pt_method pt = Some (go ''GET'')"
  by (auto simp: api_routes_def)

lemma public_paths_split:
  assumes "p \<in> set publicPaths"
  obtains name where "p = slash # name" and "slash \<notin> set name" and "p \<noteq> go ''/''" and "p \<noteq> go ''/app.css''" and "p \<noteq> go ''/app.js''"
proof -
  have "list_all (\<lambda>p. hd p = slash \<and> p \<noteq> [] \<and> slash \<notin> set (tl p) \<and> p \<noteq> go ''/'' \<and> p \<noteq> go ''/app.css'' \<and> p \<noteq> go ''/app.js'') publicPaths"
    by (simp add: publicPaths_def LoginPath_def LogoutPath_def slash_def)
  with assms have "hd p = slash \<and> p \<noteq> [] \<and> slash \<notin> set (tl p) \<and> p \<noteq> go ''/'' \<and> p \<noteq> go ''/app.css'' \<and> p \<noteq> go ''/app.js''"
    unfolding list_all_iff by blast
  then show thesis using that [of "tl p"] by (metis list.collapse)
qed

lemma public_answer_no_data:
  assumes "serve_mux guard_routes rq = Handle CatchAll" and "hr_path rq \<in> set publicPaths"
    and "unescape (hr_escaped rq) = Some (hr_path rq)"
  shows "\<not> body_has_data (rs_body (api_serve env sv rq))"
proof (cases "serve_mux api_routes rq")
  case (Handle h)
  note f = serve_mux_Handle [OF Handle]
  from f(1) obtain pt where pt: "(pt, h) \<in> set api_routes" "pattern_matches pt (hr_escaped rq)"
    and m: "pt_method pt = None \<or> pt_method pt = Some (hr_method rq) \<or> hr_method rq = go ''HEAD'' \<and> pt_method pt = Some (go ''GET'')"
    by (rule find_route_cases)
  have "hr_method rq \<noteq> go ''CONNECT''" using m api_methods [OF pt(1)] by auto
  note clean = f(3) [OF this]
  from assms(2) obtain name where name: "hr_path rq = slash # name" "slash \<notin> set name"
    and no_asset: "hr_path rq \<noteq> go ''/''" "hr_path rq \<noteq> go ''/app.css''" "hr_path rq \<noteq> go ''/app.js''"
    by (rule public_paths_split)
  have "path_segments (hr_escaped rq) = [name]" using clean assms(3) name by (intro single_segment) simp_all
  from api_route_cases [OF pt this] have "h = Health \<or> h = Ready \<or> h = Webui" .
  moreover have "webui sv rq = http_error webui_headers (go ''404 page not found'') 404"
    unfolding webui_def using no_asset by (simp only: if_False)
  ultimately show ?thesis using Handle by (auto simp: api_serve_def)
qed (simp_all add: api_serve_def)

text \<open>
  C3. No data without a session, end to end. With the guard in front of the API, an answer that
  carries topology, build, telemetry or retention data or a file of the console goes only to a
  request with a session cookie signed by the guard and not yet expired; the public paths reveal
  the probes alone. The hypothesis says that the escaped and the decoded path of the request
  belong together.
\<close>

theorem controller_data_requires_session:
  assumes "controller_serve auth env sv g rq = (g', Application r)" and "body_has_data (rs_body r)"
    and "unescape (hr_escaped rq) = Some (hr_path rq)"
  shows "\<exists>encoded name expiry nonce user e.
    map_of (hr_cookies rq) (go ''nexustier_session'') = Some (encoded @ dot # sign (ev_crypto auth) (gd_signer g) encoded) \<and>
    DecodeString url_alphabet encoded = Some (js_join [pipe] [name, expiry, nonce]) \<and>
    DecodeString url_alphabet name = Some user \<and> user \<noteq> [] \<and> ParseInt expiry = Some e \<and> Unix (ev_now auth) < e"
proof -
  note a = Protect_Application [OF assms(1) [unfolded controller_serve_def]]
  have "hr_path rq \<notin> set publicPaths"
    using public_answer_no_data [OF a(4) _ assms(3), of env sv] a(1) assms(2) by auto
  with a(3) have "subject auth g rq \<noteq> []" by blast
  then obtain token name where token: "map_of (hr_cookies rq) SessionCookie = Some token"
    and verified: "Verify (ev_crypto auth) (gd_signer g) token (ev_now auth) = Inr name" by (rule subject_session)
  from Verify_accepts [OF verified] token show ?thesis unfolding SessionCookie_def by blast
qed

definition status_request :: "bytes \<Rightarrow> http_request" where
  "status_request token =
     (sample_get [(SessionCookie, token)])\<lparr>hr_path := go ''/v1/telemetry/status'', hr_escaped := go ''/v1/telemetry/status''\<rparr>"

lemma status_request_routes:
  "serve_mux guard_routes (status_request token) = Handle CatchAll"
  "serve_mux api_routes (status_request token) = Handle Telemetry"
  "hr_path (status_request token) \<notin> set publicPaths"
  "unescape (hr_escaped (status_request token)) = Some (hr_path (status_request token))"
  by (simp_all add: serve_mux_def status_request_def sample_get_def guard_routes_def api_routes_def cleanPath_def path_clean_def
      slash_def find_route_def pick_def pattern_matches_def path_segments_def pathUnescape_def publicPaths_def LoginPath_def
      LogoutPath_def)

theorem controller_data_requires_session_witness:
  "\<forall>env sv. \<exists>token r encoded. controller_serve (operator_env 0) env sv sample_guard (status_request token) = (sample_guard, Application r) \<and>
     body_has_data (rs_body r) \<and> token = encoded @ dot # sign sample_crypto sample_signer encoded"
proof (intro allI)
  fix env sv
  obtain token where token: "Issue sample_crypto sample_entropy sample_signer (go ''admin'') 0 = Inr token"
    using sample_issue by blast
  have cookies: "hr_cookies (status_request token) = [(SessionCookie, token)]"
    by (simp add: status_request_def sample_get_def)
  have "Verify sample_crypto sample_signer token 0 = Inr (go ''admin'')"
    by (subst Verify_issued [OF token]) (simp_all add: sample_expiry int64_def, simp add: Unix_def)
  then have "subject (operator_env 0) sample_guard (status_request token) = go ''admin''"
    using sanitize_token(2) [OF token] by (simp add: subject_def cookies sample_fields)
  then have served: "controller_serve (operator_env 0) env sv sample_guard (status_request token) =
      (sample_guard, Application (telemetryStatus sv))"
    using status_request_routes [of token]
    by (simp add: controller_serve_def Protect_def catch_all_def api_serve_def)
  have data: "body_has_data (rs_body (telemetryStatus sv))" by (simp add: telemetryStatus_def writeJSON_def)
  from controller_data_requires_session [OF served data status_request_routes(4)] served data
  show "\<exists>token r encoded. controller_serve (operator_env 0) env sv sample_guard (status_request token) = (sample_guard, Application r) \<and>
     body_has_data (rs_body r) \<and> token = encoded @ dot # sign sample_crypto sample_signer encoded"
    unfolding cookies sample_fields by (auto simp: SessionCookie_def)
qed

text \<open>The answer of the topology endpoint is what the console's model of it receives.\<close>

lemma topology_response_outcome:
  "currentTopology (sv_codec sv) (ae_now env) (ae_faults env) (sv_database sv) (hr_query rq) =
     (case rs_body (topology_response env sv rq) of
        Page (TopologyPage page) \<Rightarrow> Body page
      | _ \<Rightarrow> HttpStatus (rs_status (topology_response env sv rq)))"
  by (simp add: currentTopology_def topology_response_def writeError_def writeJSON_def split: sum.splits)

end
