(* ===== verification/Config.thy ===== *)
theory Config
  imports Guard Retention Poller
begin

text \<open>
  The configuration of the controller, \<^verbatim>\<open>controller/internal/config/config.go\<close>, and the choice of
  the request guard in \<^verbatim>\<open>newProtector\<close> of \<^verbatim>\<open>cmd/nexustier-controller/main.go\<close>. The environment
  variables, the duration, URL and IP address parsers are the record \<open>sysenv\<close>; nothing is assumed of
  them. Durations are nanoseconds. What loads is shown to satisfy what the other components rely
  on, and an instance that can be reached from other hosts never comes up unguarded unless told to.
\<close>

section \<open>Settings\<close>

record sysenv =
  se_getenv :: "string \<Rightarrow> bytes"
  se_ParseDuration :: "bytes \<Rightarrow> int result"
  se_urlParse :: "bytes \<Rightarrow> (bytes \<times> bytes) result"
  se_ip_loopback :: "bytes \<Rightarrow> bool"

record config =
  cf_GatewayURL :: bytes
  cf_DatabaseURL :: bytes
  cf_ListenAddress :: bytes
  cf_PollInterval :: int
  cf_PollJitter :: int
  cf_RequestTimeout :: int
  cf_ShutdownTimeout :: int
  cf_MetricRetention :: int
  cf_CleanupInterval :: int
  cf_CleanupBatchSize :: int
  cf_AuthMode :: bytes
  cf_AuthUsername :: bytes
  cf_AuthPasswordHash :: bytes
  cf_SessionKey :: bytes
  cf_SessionTTL :: int
  cf_SecureCookie :: bool

definition AuthModeAuto :: bytes where
  "AuthModeAuto = go ''auto''"

definition AuthModeRequired :: bytes where
  "AuthModeRequired = go ''required''"

definition AuthModeDisabled :: bytes where
  "AuthModeDisabled = go ''disabled''"

section \<open>Environment variables\<close>

definition env_or :: "sysenv \<Rightarrow> string \<Rightarrow> bytes \<Rightarrow> bytes" where
  "env_or se name fallback = (if se_getenv se name \<noteq> [] then se_getenv se name else fallback)"

definition boolEnv :: "sysenv \<Rightarrow> string \<Rightarrow> bool \<Rightarrow> bool result" where
  "boolEnv se name fallback =
     (if se_getenv se name = [] then Inr fallback
      else case parse_bool (widen (se_getenv se name)) of
        None \<Rightarrow> Inl (js ''parse '' @ js name @ js '': must be true or false'')
      | Some b \<Rightarrow> Inr b)"

definition durationEnv :: "sysenv \<Rightarrow> string \<Rightarrow> int \<Rightarrow> int result" where
  "durationEnv se name fallback =
     (if se_getenv se name = [] then Inr fallback
      else case se_ParseDuration se (se_getenv se name) of
        Inl e \<Rightarrow> Inl (js ''parse '' @ js name @ js '': '' @ e)
      | Inr d \<Rightarrow> Inr d)"

definition positiveIntEnv :: "sysenv \<Rightarrow> string \<Rightarrow> int \<Rightarrow> int result" where
  "positiveIntEnv se name fallback =
     (if se_getenv se name = [] then Inr fallback
      else case ParseInt (se_getenv se name) of
        None \<Rightarrow> Inl (js ''parse '' @ js name @ js '': must be a positive integer'')
      | Some n \<Rightarrow> if n \<le> 0 then Inl (js ''parse '' @ js name @ js '': must be a positive integer'') else Inr n)"

definition parseURL :: "sysenv \<Rightarrow> bytes \<Rightarrow> string \<Rightarrow> unit result" where
  "parseURL se val kind =
     (case se_urlParse se val of
        Inl e \<Rightarrow> Inl (js ''parse '' @ js kind @ js '' URL: '' @ e)
      | Inr (scheme, host) \<Rightarrow>
          if scheme = [] \<or> host = [] then Inl (js kind @ js '' URL must be absolute'') else Inr ())"

section \<open>Authentication settings\<close>

definition isLoopbackAddress :: "sysenv \<Rightarrow> bytes \<Rightarrow> bool" where
  "isLoopbackAddress se address =
     (let host = (case split_host_port address of None \<Rightarrow> address | Some (host, port) \<Rightarrow> host) in
      if host = [] then False
      else if host = go ''localhost'' then True
      else se_ip_loopback se host)"

definition AuthRequired :: "sysenv \<Rightarrow> config \<Rightarrow> bool" where
  "AuthRequired se config =
     (if cf_AuthMode config = AuthModeDisabled then False
      else if cf_AuthMode config = AuthModeRequired then True
      else \<not> isLoopbackAddress se (cf_ListenAddress config))"

definition validateAuth :: "sysenv \<Rightarrow> config \<Rightarrow> unit result" where
  "validateAuth se config =
     (if cf_AuthMode config \<notin> {AuthModeAuto, AuthModeRequired, AuthModeDisabled}
      then Inl (js ''NEXUSTIER_CONTROLLER_AUTH_MODE must be auto, required, or disabled'')
      else if cf_SessionTTL config \<le> 0 then Inl (js ''NEXUSTIER_CONTROLLER_SESSION_TTL must be positive'')
      else if \<not> AuthRequired se config then Inr ()
      else if cf_AuthPasswordHash config = []
      then Inl (js ''NEXUSTIER_CONTROLLER_AUTH_PASSWORD_HASH is required when listening on '' @ widen (cf_ListenAddress config) @
             js ''; generate one with `nexustier-controller -hash-password`, or set '' @
             js ''NEXUSTIER_CONTROLLER_AUTH_MODE=disabled if the listener is already behind a trusted proxy'')
      else if blank (cf_AuthUsername config) then Inl (js ''NEXUSTIER_CONTROLLER_AUTH_USERNAME must not be empty'')
      else Inr ())"

section \<open>Loading\<close>

definition default_config :: "sysenv \<Rightarrow> config" where
  "default_config se =
     \<lparr>cf_GatewayURL = env_or se ''NEXUSTIER_CONTROLLER_GATEWAY_URL'' (go ''http://127.0.0.1:11211''),
      cf_DatabaseURL = se_getenv se ''NEXUSTIER_CONTROLLER_DATABASE_URL'',
      cf_ListenAddress = env_or se ''NEXUSTIER_CONTROLLER_LISTEN_ADDR'' (go ''127.0.0.1:8080''),
      cf_PollInterval = 15 * second, cf_PollJitter = 3 * second, cf_RequestTimeout = 20 * second,
      cf_ShutdownTimeout = 10 * second, cf_MetricRetention = 720 * 3600 * second, cf_CleanupInterval = 6 * 3600 * second,
      cf_CleanupBatchSize = 10000,
      cf_AuthMode = env_or se ''NEXUSTIER_CONTROLLER_AUTH_MODE'' AuthModeAuto,
      cf_AuthUsername = env_or se ''NEXUSTIER_CONTROLLER_AUTH_USERNAME'' (go ''admin''),
      cf_AuthPasswordHash = se_getenv se ''NEXUSTIER_CONTROLLER_AUTH_PASSWORD_HASH'',
      cf_SessionKey = se_getenv se ''NEXUSTIER_CONTROLLER_SESSION_KEY'',
      cf_SessionTTL = 12 * 3600 * second, cf_SecureCookie = True\<rparr>"

definition require :: "bool \<Rightarrow> string \<Rightarrow> unit result" where
  "require b message = (if b then Inr () else Inl (js message))"

definition Load :: "sysenv \<Rightarrow> config result" where
  "Load se =
     (let config = default_config se in
      and_then (require (cf_DatabaseURL config \<noteq> []) ''NEXUSTIER_CONTROLLER_DATABASE_URL is required'') (\<lambda>_.
      and_then (durationEnv se ''NEXUSTIER_CONTROLLER_POLL_INTERVAL'' (cf_PollInterval config)) (\<lambda>pollInterval.
      and_then (durationEnv se ''NEXUSTIER_CONTROLLER_POLL_JITTER'' (cf_PollJitter config)) (\<lambda>pollJitter.
      and_then (durationEnv se ''NEXUSTIER_CONTROLLER_REQUEST_TIMEOUT'' (cf_RequestTimeout config)) (\<lambda>requestTimeout.
      and_then (durationEnv se ''NEXUSTIER_CONTROLLER_SHUTDOWN_TIMEOUT'' (cf_ShutdownTimeout config)) (\<lambda>shutdownTimeout.
      and_then (durationEnv se ''NEXUSTIER_CONTROLLER_METRIC_RETENTION'' (cf_MetricRetention config)) (\<lambda>metricRetention.
      and_then (durationEnv se ''NEXUSTIER_CONTROLLER_CLEANUP_INTERVAL'' (cf_CleanupInterval config)) (\<lambda>cleanupInterval.
      and_then (positiveIntEnv se ''NEXUSTIER_CONTROLLER_CLEANUP_BATCH_SIZE'' (cf_CleanupBatchSize config)) (\<lambda>batchSize.
      and_then (require (\<not> (pollInterval \<le> 0 \<or> requestTimeout \<le> 0 \<or> shutdownTimeout \<le> 0 \<or> metricRetention \<le> 0 \<or> cleanupInterval \<le> 0))
        ''poll interval, request timeout, shutdown timeout, metric retention, and cleanup interval must be positive'') (\<lambda>_.
      and_then (require (\<not> (pollJitter < 0 \<or> pollJitter \<ge> pollInterval))
        ''poll jitter must be non-negative and less than poll interval'') (\<lambda>_.
      and_then (parseURL se (cf_GatewayURL config) ''gateway'') (\<lambda>_.
      and_then (parseURL se (cf_DatabaseURL config) ''database'') (\<lambda>_.
      and_then (durationEnv se ''NEXUSTIER_CONTROLLER_SESSION_TTL'' (cf_SessionTTL config)) (\<lambda>sessionTTL.
      and_then (boolEnv se ''NEXUSTIER_CONTROLLER_SECURE_COOKIE'' (cf_SecureCookie config)) (\<lambda>secureCookie.
      let config = config\<lparr>cf_PollInterval := pollInterval, cf_PollJitter := pollJitter, cf_RequestTimeout := requestTimeout,
        cf_ShutdownTimeout := shutdownTimeout, cf_MetricRetention := metricRetention, cf_CleanupInterval := cleanupInterval,
        cf_CleanupBatchSize := batchSize, cf_SessionTTL := sessionTTL, cf_SecureCookie := secureCookie\<rparr>
      in and_then (validateAuth se config) (\<lambda>_. Inr config))))))))))))))))"

text \<open>\<open>None\<close> is the pass-through that \<^verbatim>\<open>newProtector\<close> returns when no authentication is required.\<close>

definition newProtector :: "sysenv \<Rightarrow> entropy \<Rightarrow> config \<Rightarrow> guard option result" where
  "newProtector se rand settings =
     (if \<not> AuthRequired se settings then Inr None
      else and_then
        (case NewCredential (cf_AuthUsername settings) (cf_AuthPasswordHash settings) of
           Inl e \<Rightarrow>
             if e = ErrMalformedHash
             then Inl (js ''operator credential: '' @ e @
               js ''; expected pbkdf2-sha256$<iterations>$<salt>$<key>, and in a Compose .env file the value '' @
               js ''must be wrapped in single quotes so $ is not interpolated'')
             else Inl (js ''operator credential: '' @ e)
         | Inr credential \<Rightarrow> Inr credential) (\<lambda>credential.
        and_then (wrap_error ''session signer'' (NewSessionSigner rand (cf_SessionKey settings) (cf_SessionTTL settings))) (\<lambda>signer.
        and_then (wrap_error ''session guard'' (NewGuard credential (Some signer) True (cf_SecureCookie settings))) (\<lambda>g.
          Inr (Some g)))))"

section \<open>Properties\<close>

lemma require_Inr [simp]: "require b message = Inr u \<longleftrightarrow> b"
  by (simp add: require_def)

lemma positiveIntEnv_pos: "positiveIntEnv se name fallback = Inr n \<Longrightarrow> 0 < fallback \<Longrightarrow> 0 < n"
  by (auto simp: positiveIntEnv_def split: if_splits option.splits)

lemma validateAuth_Inr:
  "validateAuth se config = Inr u \<Longrightarrow>
     cf_AuthMode config \<in> {AuthModeAuto, AuthModeRequired, AuthModeDisabled} \<and> 0 < cf_SessionTTL config \<and>
     (AuthRequired se config \<longrightarrow> cf_AuthPasswordHash config \<noteq> [] \<and> \<not> blank (cf_AuthUsername config))"
  by (auto simp: validateAuth_def split: if_splits)

lemma Load_Inr:
  assumes "Load se = Inr cfg"
  shows "0 < cf_PollInterval cfg" and "0 \<le> cf_PollJitter cfg" and "cf_PollJitter cfg < cf_PollInterval cfg"
    and "0 < cf_RequestTimeout cfg" and "0 < cf_ShutdownTimeout cfg" and "0 < cf_MetricRetention cfg"
    and "0 < cf_CleanupInterval cfg" and "0 < cf_CleanupBatchSize cfg" and "validateAuth se cfg = Inr ()"
  using assms by (auto simp: Load_def Let_def and_then_eq_Inr default_config_def dest!: positiveIntEnv_pos)

text \<open>
  A configuration that loads is one the components can run on, and it fails closed. All
  durations and the batch size are positive and the jitter is smaller than the interval, whatever
  the environment holds. The process runs without a guard only when authentication was disabled
  explicitly or the mode is automatic and the listener is a loopback address; in every other case
  there is a user name and a password hash, and the guard that is built uses exactly that user, a
  key of at least 32 bytes and the configured positive lifetime, with a fresh limiter.
\<close>

theorem configuration_fails_closed:
  assumes "Load se = Inr cfg"
  shows "0 < cf_PollInterval cfg \<and> 0 \<le> cf_PollJitter cfg \<and> cf_PollJitter cfg < cf_PollInterval cfg \<and>
    0 < cf_RequestTimeout cfg \<and> 0 < cf_ShutdownTimeout cfg \<and> 0 < cf_MetricRetention cfg \<and>
    0 < cf_CleanupInterval cfg \<and> 0 < cf_CleanupBatchSize cfg \<and>
    (case newProtector se rand cfg of
       Inl e \<Rightarrow> AuthRequired se cfg
     | Inr None \<Rightarrow> cf_AuthMode cfg = go ''disabled'' \<or> cf_AuthMode cfg = go ''auto'' \<and> isLoopbackAddress se (cf_ListenAddress cfg)
     | Inr (Some g) \<Rightarrow> AuthRequired se cfg \<and> cred_username (gd_credential g) = cf_AuthUsername cfg \<and>
         \<not> blank (cf_AuthUsername cfg) \<and> parseHash (cf_AuthPasswordHash cfg) = Inr (cred_hash (gd_credential g)) \<and>
         32 \<le> length (sg_key (gd_signer g)) \<and> sg_ttl (gd_signer g) = cf_SessionTTL cfg \<and> 0 < cf_SessionTTL cfg \<and>
         gd_limiter g = NewLoginLimiter)"
proof -
  note v = validateAuth_Inr [OF Load_Inr(9) [OF assms(1)]]
  have "case newProtector se rand cfg of
       Inl e \<Rightarrow> AuthRequired se cfg
     | Inr None \<Rightarrow> cf_AuthMode cfg = go ''disabled'' \<or> cf_AuthMode cfg = go ''auto'' \<and> isLoopbackAddress se (cf_ListenAddress cfg)
     | Inr (Some g) \<Rightarrow> AuthRequired se cfg \<and> cred_username (gd_credential g) = cf_AuthUsername cfg \<and>
         \<not> blank (cf_AuthUsername cfg) \<and> parseHash (cf_AuthPasswordHash cfg) = Inr (cred_hash (gd_credential g)) \<and>
         32 \<le> length (sg_key (gd_signer g)) \<and> sg_ttl (gd_signer g) = cf_SessionTTL cfg \<and> 0 < cf_SessionTTL cfg \<and>
         gd_limiter g = NewLoginLimiter"
  proof (cases "newProtector se rand cfg")
    case (Inl e)
    then show ?thesis by (auto simp: newProtector_def split: if_splits)
  next
    case (Inr p)
    show ?thesis
    proof (cases p)
      case None
      with Inr v show ?thesis
        by (auto simp: newProtector_def and_then_eq_Inr AuthRequired_def AuthModeAuto_def AuthModeDisabled_def split: if_splits)
    next
      case (Some g)
      with Inr obtain credential signer where "AuthRequired se cfg"
        and "NewCredential (cf_AuthUsername cfg) (cf_AuthPasswordHash cfg) = Inr credential"
        and signer: "NewSessionSigner rand (cf_SessionKey cfg) (cf_SessionTTL cfg) = Inr signer"
        and "NewGuard credential (Some signer) True (cf_SecureCookie cfg) = Inr g"
        by (auto simp: newProtector_def and_then_eq_Inr split: if_splits sum.splits)
      with Inr Some v NewSessionSigner_ok [OF signer] show ?thesis
        by (auto simp: NewGuard_def NewCredential_def and_then_eq_Inr split: if_splits)
    qed
  qed
  with Load_Inr [OF assms(1)] show ?thesis by simp
qed

definition sample_sysenv :: sysenv where
  "sample_sysenv =
     \<lparr>se_getenv = (\<lambda>name. if name = ''NEXUSTIER_CONTROLLER_DATABASE_URL'' then go ''postgres://db'' else []),
      se_ParseDuration = (\<lambda>s. Inl []), se_urlParse = (\<lambda>s. Inr (s, s)),
      se_ip_loopback = (\<lambda>host. host = go ''127.0.0.1'')\<rparr>"

lemma sample_getenv:
  "se_getenv sample_sysenv ''NEXUSTIER_CONTROLLER_GATEWAY_URL'' = []"
  "se_getenv sample_sysenv ''NEXUSTIER_CONTROLLER_LISTEN_ADDR'' = []"
  "se_getenv sample_sysenv ''NEXUSTIER_CONTROLLER_POLL_INTERVAL'' = []"
  "se_getenv sample_sysenv ''NEXUSTIER_CONTROLLER_POLL_JITTER'' = []"
  "se_getenv sample_sysenv ''NEXUSTIER_CONTROLLER_REQUEST_TIMEOUT'' = []"
  "se_getenv sample_sysenv ''NEXUSTIER_CONTROLLER_SHUTDOWN_TIMEOUT'' = []"
  "se_getenv sample_sysenv ''NEXUSTIER_CONTROLLER_METRIC_RETENTION'' = []"
  "se_getenv sample_sysenv ''NEXUSTIER_CONTROLLER_CLEANUP_INTERVAL'' = []"
  "se_getenv sample_sysenv ''NEXUSTIER_CONTROLLER_CLEANUP_BATCH_SIZE'' = []"
  "se_getenv sample_sysenv ''NEXUSTIER_CONTROLLER_AUTH_MODE'' = []"
  "se_getenv sample_sysenv ''NEXUSTIER_CONTROLLER_AUTH_USERNAME'' = []"
  "se_getenv sample_sysenv ''NEXUSTIER_CONTROLLER_SESSION_TTL'' = []"
  "se_getenv sample_sysenv ''NEXUSTIER_CONTROLLER_SECURE_COOKIE'' = []"
  "se_getenv sample_sysenv ''NEXUSTIER_CONTROLLER_DATABASE_URL'' = go ''postgres://db''"
  by (simp_all add: sample_sysenv_def)

lemma sample_config: "\<exists>cfg. Load sample_sysenv = Inr cfg"
proof -
  have "map_option fst (split_host_port (go ''127.0.0.1:8080'')) = Some (go ''127.0.0.1'')"
    by (simp add: split_host_port_def last_index_of_def)
  then have loopback: "isLoopbackAddress sample_sysenv (go ''127.0.0.1:8080'')"
    by (auto simp: isLoopbackAddress_def sample_sysenv_def split: option.splits)
  have url: "parseURL sample_sysenv u kind = Inr ()" if "u \<noteq> []" for u kind
    using that by (simp add: parseURL_def sample_sysenv_def)
  have "validateAuth sample_sysenv (default_config sample_sysenv) = Inr ()"
    using loopback by (simp add: validateAuth_def default_config_def env_or_def sample_getenv AuthRequired_def AuthModeAuto_def
        AuthModeRequired_def AuthModeDisabled_def del: go_Cons)
      (simp add: second_def)
  then show ?thesis
    by (simp add: Load_def require_def durationEnv_def positiveIntEnv_def boolEnv_def sample_getenv url default_config_def env_or_def
        second_def del: go_Cons) (simp add: url)
qed

theorem configuration_fails_closed_witness:
  "\<exists>cfg. Load sample_sysenv = Inr cfg \<and> 0 < cf_CleanupBatchSize cfg \<and> cf_PollJitter cfg < cf_PollInterval cfg"
  using sample_config configuration_fails_closed [of sample_sysenv _ sample_entropy] by blast

end
