(* ===== verification/Snapshot.thy ===== *)
theory Snapshot
  imports Database
begin

text \<open>
  The gateway's snapshot as the controller receives it: the types and \<^verbatim>\<open>Validate\<close> of
  \<^verbatim>\<open>controller/internal/gatewayclient/types.go\<close> and \<^verbatim>\<open>FetchTopology\<close> of \<^verbatim>\<open>client.go\<close>. Integers keep their
  width, so that the conversion of a timestamp to a signed number can wrap; \<open>Validate\<close> is shown to
  rule that out. A slice that may arrive as JSON \<^verbatim>\<open>null\<close> and whose nilness matters to the database is
  an option. An error carries the data its message is formatted from.
\<close>

section \<open>The types\<close>

record telemetry_error =
  te_code :: jsstr
  te_operation :: jsstr
  te_message :: jsstr

record metric =
  mt_name :: jsstr
  mt_value :: "64 word"
  mt_labels :: "(jsstr \<times> jsstr) list option"

record snapshot_peer =
  sp_peer_id :: "32 word"
  sp_ipv4 :: "jsstr option"
  sp_hostname :: jsstr
  sp_next_hop_peer_id :: "32 word"
  sp_direct :: bool
  sp_path_cost :: "32 word"
  sp_latency_ms :: "jsnum option"
  sp_loss_rate :: "jsnum option"
  sp_rx_bytes :: "64 word option"
  sp_tx_bytes :: "64 word option"
  sp_tunnel_protocols :: "jsstr list option"
  sp_version :: jsstr

record snapshot_node =
  nd_peer_id :: "32 word"
  nd_ipv4 :: jsstr
  nd_hostname :: jsstr
  nd_proxy_cidrs :: "jsstr list option"
  nd_listeners :: "jsstr list option"
  nd_version :: jsstr

record snapshot_instance =
  si_instance_id :: uuid
  si_observed_at_ms :: "64 word"
  si_node :: "snapshot_node option"
  si_peers :: "snapshot_peer list"
  si_metrics :: "metric list"
  si_errors :: "telemetry_error list"

record snapshot_device =
  sd_os_type :: jsstr
  sd_os_version :: jsstr
  sd_distribution :: jsstr

record session =
  se_machine_id :: uuid
  se_remote_url :: jsstr
  se_hostname :: jsstr
  se_easytier_version :: jsstr
  se_report_time :: jsstr
  se_connected_at_ms :: "64 word"
  se_last_heartbeat_at_ms :: "64 word"
  se_running_instance_ids :: "uuid list"
  se_device :: "snapshot_device option"

record snapshot_machine =
  sm_session :: session
  sm_observed_at_ms :: "64 word"
  sm_instances :: "snapshot_instance list"
  sm_errors :: "telemetry_error list"

record snapshot =
  sn_schema_version :: jsstr
  sn_collection_id :: uuid
  sn_started_at_ms :: "64 word"
  sn_completed_at_ms :: "64 word"
  sn_collected_at_ms :: "64 word"
  sn_machines :: "snapshot_machine list"
  sn_errors :: "telemetry_error list"

section \<open>Validation\<close>

definition SchemaVersion :: jsstr where
  "SchemaVersion = js ''nexustier.topology.v1''"

definition maxTimestampMS :: "64 word" where
  "maxTimestampMS = 253402300799999"

datatype timestamp_field = StartedAt | CompletedAt | ConnectedAt nat | LastHeartbeatAt nat

datatype validation_error =
    UnsupportedSchema jsstr
  | NilCollection
  | StartedAfterCompleted
  | CollectedNotCompleted
  | TimestampRange timestamp_field
  | NilMachine nat
  | MachineObservedLate nat
  | NilInstance nat nat
  | InstanceObservedLate nat nat

definition validateTimestamp :: "timestamp_field \<Rightarrow> 64 word \<Rightarrow> validation_error option" where
  "validateTimestamp field v = (if v > maxTimestampMS then Some (TimestampRange field) else None)"

text \<open>A check that passes goes on to the next one.\<close>

definition or_else :: "'a option \<Rightarrow> 'a option \<Rightarrow> 'a option" where
  "or_else a b = (case a of Some e \<Rightarrow> Some e | None \<Rightarrow> b)"

fun validate_instances :: "64 word \<Rightarrow> nat \<Rightarrow> nat \<Rightarrow> snapshot_instance list \<Rightarrow> validation_error option" where
  "validate_instances completed mi ii [] = None"
| "validate_instances completed mi ii (i # xs) =
     (if si_instance_id i = 0 then Some (NilInstance mi ii)
      else if si_observed_at_ms i > completed then Some (InstanceObservedLate mi ii)
      else validate_instances completed mi (Suc ii) xs)"

fun validate_machines :: "64 word \<Rightarrow> nat \<Rightarrow> snapshot_machine list \<Rightarrow> validation_error option" where
  "validate_machines completed mi [] = None"
| "validate_machines completed mi (m # ms) =
     (if se_machine_id (sm_session m) = 0 then Some (NilMachine mi)
      else if sm_observed_at_ms m > completed then Some (MachineObservedLate mi)
      else or_else (validateTimestamp (ConnectedAt mi) (se_connected_at_ms (sm_session m)))
          (or_else (validateTimestamp (LastHeartbeatAt mi) (se_last_heartbeat_at_ms (sm_session m)))
          (or_else (validate_instances completed mi 0 (sm_instances m))
             (validate_machines completed (Suc mi) ms))))"

definition Validate :: "snapshot \<Rightarrow> validation_error option" where
  "Validate s =
     (if sn_schema_version s \<noteq> SchemaVersion then Some (UnsupportedSchema (sn_schema_version s))
      else if sn_collection_id s = 0 then Some NilCollection
      else if sn_started_at_ms s > sn_completed_at_ms s then Some StartedAfterCompleted
      else if sn_collected_at_ms s \<noteq> sn_completed_at_ms s then Some CollectedNotCompleted
      else or_else (validateTimestamp StartedAt (sn_started_at_ms s))
          (or_else (validateTimestamp CompletedAt (sn_completed_at_ms s))
             (validate_machines (sn_completed_at_ms s) 0 (sn_machines s))))"

section \<open>Fetching\<close>

text \<open>
  The transport and the JSON decoder are arguments. The decoder reads the first value of a body as
  a snapshot and leaves the rest of the input; what comes next is the end of the input, another
  value, or an error.
\<close>

datatype trailing = EndOfInput | AnotherValue | Malformed jsstr

record reply =
  rp_status :: nat
  rp_status_text :: jsstr
  rp_body :: bytes

record decoder =
  dc_snapshot :: "bytes \<Rightarrow> (snapshot \<times> bytes) result"
  dc_next :: "bytes \<Rightarrow> trailing"
  dc_text :: "bytes \<Rightarrow> jsstr"

datatype fetch_error =
    CreateRequest jsstr
  | TransportFailed jsstr
  | UnexpectedStatus jsstr jsstr
  | DecodeFailed jsstr
  | TrailingValue
  | TrailingMalformed jsstr
  | InvalidResponse validation_error

text \<open>\<^verbatim>\<open>strings.TrimSpace\<close>: white space as \<^verbatim>\<open>unicode.IsSpace\<close> has it.\<close>

definition go_space :: "code_unit \<Rightarrow> bool" where
  "go_space c \<longleftrightarrow>
     c \<in> {9, 10, 11, 12, 13, 32, 0x85, 0xA0, 0x1680, 0x2028, 0x2029, 0x202F, 0x205F, 0x3000} \<or> 0x2000 \<le> c \<and> c \<le> 0x200A"

definition TrimSpace :: "jsstr \<Rightarrow> jsstr" where
  "TrimSpace s = rev (dropWhile go_space (rev (dropWhile go_space s)))"

definition maxTopologyResponseBytes :: nat where
  "maxTopologyResponseBytes = 16 * 2 ^ 20"

definition ensureJSONEOF :: "decoder \<Rightarrow> bytes \<Rightarrow> fetch_error option" where
  "ensureJSONEOF dc rest =
     (case dc_next dc rest of
        EndOfInput \<Rightarrow> None
      | AnotherValue \<Rightarrow> Some TrailingValue
      | Malformed e \<Rightarrow> Some (TrailingMalformed e))"

definition FetchTopology :: "decoder \<Rightarrow> unit result \<Rightarrow> reply result \<Rightarrow> fetch_error + snapshot" where
  "FetchTopology dc request response =
     (case request of
        Inl e \<Rightarrow> Inl (CreateRequest e)
      | Inr _ \<Rightarrow>
     (case response of
        Inl e \<Rightarrow> Inl (TransportFailed e)
      | Inr r \<Rightarrow>
          if rp_status r \<noteq> 200
          then Inl (UnexpectedStatus (rp_status_text r) (TrimSpace (dc_text dc (take (4 * 2 ^ 10) (rp_body r)))))
          else (case dc_snapshot dc (take (maxTopologyResponseBytes + 1) (rp_body r)) of
            Inl e \<Rightarrow> Inl (DecodeFailed e)
          | Inr (s, rest) \<Rightarrow>
              (case ensureJSONEOF dc rest of
                 Some e \<Rightarrow> Inl e
               | None \<Rightarrow> (case Validate s of Some e \<Rightarrow> Inl (InvalidResponse e) | None \<Rightarrow> Inr s)))))"

section \<open>Specification of a valid snapshot\<close>

definition valid_instance :: "64 word \<Rightarrow> snapshot_instance \<Rightarrow> bool" where
  "valid_instance completed i \<longleftrightarrow> si_instance_id i \<noteq> 0 \<and> si_observed_at_ms i \<le> completed"

definition valid_machine :: "64 word \<Rightarrow> snapshot_machine \<Rightarrow> bool" where
  "valid_machine completed m \<longleftrightarrow>
     se_machine_id (sm_session m) \<noteq> 0 \<and> sm_observed_at_ms m \<le> completed \<and>
     se_connected_at_ms (sm_session m) \<le> maxTimestampMS \<and> se_last_heartbeat_at_ms (sm_session m) \<le> maxTimestampMS \<and>
     list_all (valid_instance completed) (sm_instances m)"

definition valid_snapshot :: "snapshot \<Rightarrow> bool" where
  "valid_snapshot s \<longleftrightarrow>
     sn_schema_version s = SchemaVersion \<and> sn_collection_id s \<noteq> 0 \<and> sn_started_at_ms s \<le> sn_completed_at_ms s \<and>
     sn_collected_at_ms s = sn_completed_at_ms s \<and> sn_completed_at_ms s \<le> maxTimestampMS \<and>
     list_all (valid_machine (sn_completed_at_ms s)) (sn_machines s)"

lemma or_else_None [simp]: "or_else a b = None \<longleftrightarrow> a = None \<and> b = None"
  by (simp add: or_else_def split: option.splits)

lemma validateTimestamp_None [simp]: "validateTimestamp field v = None \<longleftrightarrow> v \<le> maxTimestampMS"
  by (auto simp: validateTimestamp_def not_less)

lemma validate_instances_None [simp]:
  "validate_instances completed mi ii xs = None \<longleftrightarrow> list_all (valid_instance completed) xs"
  by (induction xs arbitrary: ii) (auto simp: valid_instance_def not_less)

lemma validate_machines_None [simp]:
  "validate_machines completed mi ms = None \<longleftrightarrow> list_all (valid_machine completed) ms"
  by (induction ms arbitrary: mi) (auto simp: valid_machine_def not_less)

lemma Validate_None: "Validate s = None \<longleftrightarrow> valid_snapshot s"
  by (auto simp: Validate_def valid_snapshot_def not_less)

section \<open>Timestamps\<close>

text \<open>
  \<^verbatim>\<open>time.UnixMilli(int64(value))\<close>: the unsigned number is read as a signed one, in nanoseconds here.
\<close>

definition millis :: "64 word \<Rightarrow> int" where
  "millis v = sint v * 1000000"

lemma sint_small: "v \<le> maxTimestampMS \<Longrightarrow> sint v = uint v"
proof -
  assume "v \<le> maxTimestampMS"
  then have "uint v \<le> 253402300799999" by (simp add: word_le_def maxTimestampMS_def)
  moreover have "- (2 ^ 63) \<le> uint v" by (rule order_trans [OF _ uint_ge_0]) simp
  ultimately have "signed_take_bit 63 (uint v) = uint v" by (simp add: signed_take_bit_int_eq_self_iff)
  then show ?thesis by (simp add: sint_uint)
qed

lemma millis_exact: "v \<le> maxTimestampMS \<Longrightarrow> millis v = uint v * 1000000"
  by (simp add: millis_def sint_small)

lemma millis_le:
  assumes "v \<le> w" and "w \<le> maxTimestampMS"
  shows "millis v \<le> millis w"
proof -
  have "v \<le> maxTimestampMS" using assms by (rule order_trans)
  with assms show ?thesis by (simp add: millis_exact word_le_def)
qed

lemma millis_wraps: "millis (2 ^ 63) < 0"
  by (simp add: millis_def)

lemma FetchTopology_valid: "FetchTopology dc request response = Inr s \<Longrightarrow> valid_snapshot s"
  by (auto simp: FetchTopology_def Validate_None split: sum.splits if_splits option.splits)

definition snapshot_times :: "snapshot \<Rightarrow> (64 word) list" where
  "snapshot_times s =
     [sn_started_at_ms s, sn_completed_at_ms s, sn_collected_at_ms s] @
     concat (map (\<lambda>m. [sm_observed_at_ms m, se_connected_at_ms (sm_session m), se_last_heartbeat_at_ms (sm_session m)] @
       map si_observed_at_ms (sm_instances m)) (sn_machines s))"

text \<open>
  C23. Validation and the timestamps. A snapshot passes exactly when it has the schema, a collection
  identifier, start and completion in order and in range, and when every machine and instance in
  it has an identifier and was observed by the completion; then no timestamp of it wraps when it is
  turned into a time. What the client returns has passed, it came with status 200 and as the only
  value of the body.
\<close>

theorem fetched_snapshot_valid:
  assumes "FetchTopology dc request response = Inr s"
  shows "(\<exists>r rest. response = Inr r \<and> rp_status r = 200 \<and>
      dc_snapshot dc (take (maxTopologyResponseBytes + 1) (rp_body r)) = Inr (s, rest) \<and> dc_next dc rest = EndOfInput) \<and>
    valid_snapshot s \<and> (\<forall>v \<in> set (snapshot_times s). millis v = uint v * 1000000 \<and> 0 \<le> millis v \<and> v \<le> maxTimestampMS)"
proof -
  have v: "valid_snapshot s" using assms by (rule FetchTopology_valid)
  then have "v \<le> maxTimestampMS" if "v \<in> set (snapshot_times s)" for v
    using that by (auto simp: snapshot_times_def valid_snapshot_def valid_machine_def valid_instance_def list_all_iff
        intro: order_trans)
  with v show ?thesis
    using assms
    by (auto simp: FetchTopology_def ensureJSONEOF_def millis_exact split: sum.splits if_splits option.splits trailing.splits)
qed

definition empty_snapshot :: "uuid \<Rightarrow> 64 word \<Rightarrow> snapshot" where
  "empty_snapshot cid t =
     \<lparr>sn_schema_version = SchemaVersion, sn_collection_id = cid, sn_started_at_ms = t, sn_completed_at_ms = t,
      sn_collected_at_ms = t, sn_machines = [], sn_errors = []\<rparr>"

theorem fetched_snapshot_valid_witness:
  "FetchTopology \<lparr>dc_snapshot = \<lambda>b. Inr (empty_snapshot 1 5, drop 2 b), dc_next = \<lambda>b. if b = [] then EndOfInput else AnotherValue,
      dc_text = widen\<rparr> (Inr ()) (Inr \<lparr>rp_status = 200, rp_status_text = [], rp_body = [0x7B, 0x7D]\<rparr>) = Inr (empty_snapshot 1 5) \<and>
   valid_snapshot (empty_snapshot 1 5)"
proof -
  let ?dc = "\<lparr>dc_snapshot = \<lambda>b. Inr (empty_snapshot 1 5, drop 2 b), dc_next = \<lambda>b. if b = [] then EndOfInput else AnotherValue,
      dc_text = widen\<rparr>"
  have "FetchTopology ?dc (Inr ()) (Inr \<lparr>rp_status = 200, rp_status_text = [], rp_body = [0x7B, 0x7D]\<rparr>) = Inr (empty_snapshot 1 5)"
    by (simp add: FetchTopology_def ensureJSONEOF_def maxTopologyResponseBytes_def empty_snapshot_def Validate_def
        validateTimestamp_def maxTimestampMS_def or_else_def)
  from this fetched_snapshot_valid [OF this] show ?thesis by blast
qed

end
