(* ===== verification/Ingest.thy ===== *)
theory Ingest
  imports Snapshot Retention Event_System
begin

text \<open>
  The ingestion of a snapshot, \<^verbatim>\<open>controller/internal/ingest/store.go\<close>: one transaction that records the
  collection run and brings the tables of machines, instances, nodes, links, samples and errors up
  to date. Each SQL statement is a function of the database that may violate a constraint; a
  statement may also fail for reasons of the driver, which an argument decides, and then everything
  is rolled back. JSON encoding, SHA-256 and the equality of \<^verbatim>\<open>jsonb\<close> values are arguments too.
\<close>

section \<open>Errors and the environment\<close>

datatype db_error = Driver jsstr | ForeignKey | UniqueKey | NotNull | CheckFailed

datatype statement =
    InsertRun | VerifyDuplicate | InsertError jsstr | UpsertMachine uuid | UpsertInstance uuid | UpsertNode uuid
  | UpsertPeer "32 word" uuid | RemoveStalePeers uuid | InsertMetric jsstr uuid | MarkInstances uuid
  | MarkMachines | MarkInstancesOfMachines

datatype ingest_error =
    InvalidSnapshot validation_error
  | EncodePayload jsstr
  | EncodeLabels jsstr jsstr
  | BeginFailed jsstr
  | StatementFailed statement db_error
  | PayloadReused uuid
  | CommitFailed bool jsstr

text \<open>
  A commit is acknowledged, or it fails and is rolled back, or it takes place and the
  acknowledgement is lost.
\<close>

datatype commit_outcome = Committed | RolledBack jsstr | Unacknowledged jsstr

record pg =
  pg_now :: int
  pg_begin :: "jsstr option"
  pg_fault :: "nat \<Rightarrow> jsstr option"
  pg_commit :: commit_outcome
  pg_marshal :: "snapshot \<Rightarrow> jsstr result"
  pg_marshal_labels :: "(jsstr \<times> jsstr) list option \<Rightarrow> jsstr result"
  pg_sha256 :: "jsstr \<Rightarrow> jsstr"
  pg_jsonb_eq :: "jsstr option \<Rightarrow> jsstr \<Rightarrow> bool"

text \<open>The ingestion in progress: the state of the transaction, statements so far, \<^verbatim>\<open>errorIndex\<close>.\<close>

record tx =
  tx_db :: database
  tx_calls :: nat
  tx_errorIndex :: nat

definition tx_exec :: "pg \<Rightarrow> statement \<Rightarrow> (database \<Rightarrow> db_error + database) \<Rightarrow> tx \<Rightarrow> ingest_error + tx" where
  "tx_exec env st f t =
     (case pg_fault env (tx_calls t) of
        Some e \<Rightarrow> Inl (StatementFailed st (Driver e))
      | None \<Rightarrow> (case f (tx_db t) of
          Inl e \<Rightarrow> Inl (StatementFailed st e)
        | Inr db \<Rightarrow> Inr (t\<lparr>tx_db := db, tx_calls := Suc (tx_calls t)\<rparr>)))"

fun each :: "('a \<Rightarrow> 's \<Rightarrow> 'e + 's) \<Rightarrow> 'a list \<Rightarrow> 's \<Rightarrow> 'e + 's" where
  "each f [] s = Inr s"
| "each f (x # xs) s = and_then (f x s) (each f xs)"

text \<open>
  \<^verbatim>\<open>INSERT ... ON CONFLICT (key) DO UPDATE SET ... WHERE\<close> the row is older: by the time of
  observation, then by the completion of the collection, as the order on pairs has it.
\<close>

definition upsert ::
  "('r \<Rightarrow> int \<times> int) \<Rightarrow> ('r \<Rightarrow> 'r \<Rightarrow> 'r) \<Rightarrow> bool \<Rightarrow> 'k :: linorder \<Rightarrow> 'r \<Rightarrow> ('k, 'r) RBT.rbt \<Rightarrow> db_error + ('k, 'r) RBT.rbt" where
  "upsert stamp merge refs k new t =
     (case RBT.lookup t k of
        None \<Rightarrow> if refs then Inr (RBT.insert k new t) else Inl ForeignKey
      | Some old \<Rightarrow>
          if stamp old < stamp new then if refs then Inr (RBT.insert k (merge old new) t) else Inl ForeignKey
          else Inr t)"

section \<open>Helpers\<close>

definition countErrors :: "snapshot \<Rightarrow> nat" where
  "countErrors s =
     length (sn_errors s) +
     sum_list (map (\<lambda>m. length (sm_errors m) + sum_list (map (\<lambda>i. length (si_errors i)) (sm_instances m))) (sn_machines s))"

definition hasOperationError :: "telemetry_error list \<Rightarrow> string \<Rightarrow> bool" where
  "hasOperationError errors operation = list_ex (\<lambda>e. te_operation e = js operation) errors"

text \<open>\<^verbatim>\<open>decimalString\<close> and the conversion to \<^verbatim>\<open>numeric(20, 0)\<close> that the parameter undergoes.\<close>

definition decimalString :: "64 word option \<Rightarrow> nat option" where
  "decimalString v = map_option unat v"

section \<open>Errors\<close>

definition insert_error ::
  "uuid \<Rightarrow> nat \<Rightarrow> string \<Rightarrow> uuid option \<Rightarrow> uuid option \<Rightarrow> telemetry_error \<Rightarrow> database \<Rightarrow> db_error + database" where
  "insert_error cid idx scope machineValue instanceValue e db =
     (if has_key (db_errors db) (cid, idx) then Inl UniqueKey
      else if \<not> has_key (db_runs db) cid then Inl ForeignKey
      else Inr (db\<lparr>db_errors := RBT.insert (cid, idx)
        \<lparr>ec_scope = js scope, ec_machine_id = machineValue, ec_instance_id = instanceValue, ec_code = te_code e,
         ec_operation = te_operation e, ec_message = te_message e\<rparr> (db_errors db)\<rparr>))"

definition insertErrors ::
  "pg \<Rightarrow> uuid \<Rightarrow> string \<Rightarrow> uuid \<Rightarrow> uuid \<Rightarrow> telemetry_error list \<Rightarrow> tx \<Rightarrow> ingest_error + tx" where
  "insertErrors env cid scope mid iid errors =
     each (\<lambda>e t.
       let machineValue = (if mid \<noteq> 0 then Some mid else None);
           instanceValue = (if iid \<noteq> 0 then Some iid else None)
       in and_then (tx_exec env (InsertError (js scope)) (insert_error cid (tx_errorIndex t) scope machineValue instanceValue e) t)
            (\<lambda>t1. Inr (t1\<lparr>tx_errorIndex := Suc (tx_errorIndex t1)\<rparr>))) errors"

section \<open>Machines\<close>

definition session_row :: "int \<Rightarrow> uuid \<Rightarrow> int \<Rightarrow> snapshot_machine \<Rightarrow> machine_rec" where
  "session_row now cid completedAt m =
     (let s = sm_session m in
      \<lparr>mc_remote_url = se_remote_url s, mc_hostname = se_hostname s, mc_easytier_version = se_easytier_version s,
       mc_report_time = se_report_time s, mc_connected_at = millis (se_connected_at_ms s),
       mc_last_heartbeat_at = millis (se_last_heartbeat_at_ms s), mc_os_type = map_option sd_os_type (se_device s),
       mc_os_version = map_option sd_os_version (se_device s), mc_distribution = map_option sd_distribution (se_device s),
       mc_active = True, mc_disappeared_at = None, mc_last_observed_at = millis (sm_observed_at_ms m),
       mc_last_collection_completed_at = completedAt, mc_last_collection_id = cid, mc_updated_at = now\<rparr>)"

definition machine_stamp :: "machine_rec \<Rightarrow> int \<times> int" where
  "machine_stamp r = (mc_last_observed_at r, mc_last_collection_completed_at r)"

definition upsertMachine :: "pg \<Rightarrow> uuid \<Rightarrow> int \<Rightarrow> snapshot_machine \<Rightarrow> tx \<Rightarrow> ingest_error + tx" where
  "upsertMachine env cid completedAt m =
     tx_exec env (UpsertMachine (se_machine_id (sm_session m))) (\<lambda>db.
       and_then (upsert machine_stamp (\<lambda>old new. new) (has_key (db_runs db) cid) (se_machine_id (sm_session m))
           (session_row (pg_now env) cid completedAt m) (db_machines db))
         (\<lambda>t. Inr (db\<lparr>db_machines := t\<rparr>)))"

section \<open>Instances\<close>

definition instance_row :: "int \<Rightarrow> uuid \<Rightarrow> int \<Rightarrow> uuid \<Rightarrow> snapshot_instance \<Rightarrow> instance_rec" where
  "instance_row now cid completedAt mid i =
     \<lparr>ic_machine_id = mid, ic_active = True, ic_disappeared_at = None, ic_last_observed_at = millis (si_observed_at_ms i),
      ic_last_collection_completed_at = completedAt, ic_last_collection_id = cid, ic_updated_at = now\<rparr>"

definition instance_stamp :: "instance_rec \<Rightarrow> int \<times> int" where
  "instance_stamp r = (ic_last_observed_at r, ic_last_collection_completed_at r)"

definition upsertInstance :: "pg \<Rightarrow> uuid \<Rightarrow> int \<Rightarrow> uuid \<Rightarrow> snapshot_instance \<Rightarrow> tx \<Rightarrow> ingest_error + tx" where
  "upsertInstance env cid completedAt mid i =
     tx_exec env (UpsertInstance (si_instance_id i)) (\<lambda>db.
       and_then (upsert instance_stamp (\<lambda>old new. new) (has_key (db_machines db) mid \<and> has_key (db_runs db) cid)
           (si_instance_id i) (instance_row (pg_now env) cid completedAt mid i) (db_instances db))
         (\<lambda>t. Inr (db\<lparr>db_instances := t\<rparr>)))"

definition node_stamp :: "node_rec \<Rightarrow> int \<times> int" where
  "node_stamp r = (nc_last_observed_at r, nc_last_collection_completed_at r)"

definition node_row ::
  "int \<Rightarrow> uuid \<Rightarrow> int \<Rightarrow> snapshot_instance \<Rightarrow> snapshot_node \<Rightarrow> jsstr list \<Rightarrow> jsstr list \<Rightarrow> node_rec" where
  "node_row now cid completedAt i node cidrs listeners =
     \<lparr>nc_peer_id = uint (nd_peer_id node), nc_ipv4 = nd_ipv4 node, nc_hostname = nd_hostname node,
      nc_proxy_cidrs = cidrs, nc_listeners = listeners, nc_easytier_version = nd_version node,
      nc_last_observed_at = millis (si_observed_at_ms i), nc_last_collection_completed_at = completedAt,
      nc_last_collection_id = cid, nc_updated_at = now\<rparr>"

definition upsertNode :: "pg \<Rightarrow> uuid \<Rightarrow> int \<Rightarrow> snapshot_instance \<Rightarrow> snapshot_node \<Rightarrow> tx \<Rightarrow> ingest_error + tx" where
  "upsertNode env cid completedAt i node =
     tx_exec env (UpsertNode (si_instance_id i)) (\<lambda>db.
       case (nd_proxy_cidrs node, nd_listeners node) of
         (Some cidrs, Some listeners) \<Rightarrow>
           and_then (upsert node_stamp (\<lambda>old new. new) (has_key (db_instances db) (si_instance_id i) \<and> has_key (db_runs db) cid)
               (si_instance_id i) (node_row (pg_now env) cid completedAt i node cidrs listeners) (db_nodes db))
             (\<lambda>t. Inr (db\<lparr>db_nodes := t\<rparr>))
       | _ \<Rightarrow> Inl NotNull)"

section \<open>Links\<close>

definition link_stamp :: "link_rec \<Rightarrow> int \<times> int" where
  "link_stamp r = (lc_last_observed_at r, lc_last_collection_completed_at r)"

definition peer_row :: "int \<Rightarrow> uuid \<Rightarrow> int \<Rightarrow> snapshot_instance \<Rightarrow> snapshot_peer \<Rightarrow> link_rec" where
  "peer_row now cid completedAt i p =
     \<lparr>lc_ipv4 = sp_ipv4 p, lc_hostname = sp_hostname p, lc_next_hop_peer_id = uint (sp_next_hop_peer_id p),
      lc_direct = sp_direct p, lc_path_cost = sint (sp_path_cost p), lc_latency_ms = sp_latency_ms p,
      lc_loss_rate = sp_loss_rate p, lc_rx_bytes = decimalString (sp_rx_bytes p), lc_tx_bytes = decimalString (sp_tx_bytes p),
      lc_tunnel_protocols = sp_tunnel_protocols p, lc_easytier_version = sp_version p,
      lc_last_observed_at = millis (si_observed_at_ms i), lc_last_collection_completed_at = completedAt,
      lc_last_collection_id = cid, lc_updated_at = now\<rparr>"

text \<open>The \<^verbatim>\<open>CASE\<close> expressions of the update: without the details, the measured values are kept.\<close>

definition merge_link :: "bool \<Rightarrow> link_rec \<Rightarrow> link_rec \<Rightarrow> link_rec" where
  "merge_link detailsComplete old new =
     new\<lparr>lc_latency_ms := (if detailsComplete \<or> \<not> lc_direct new then lc_latency_ms new else lc_latency_ms old),
         lc_loss_rate := (if detailsComplete then lc_loss_rate new else lc_loss_rate old),
         lc_rx_bytes := (if detailsComplete then lc_rx_bytes new else lc_rx_bytes old),
         lc_tx_bytes := (if detailsComplete then lc_tx_bytes new else lc_tx_bytes old),
         lc_tunnel_protocols := (if detailsComplete then lc_tunnel_protocols new else lc_tunnel_protocols old)\<rparr>"

definition nonneg :: "jsnum option \<Rightarrow> bool" where
  "nonneg v = (case v of None \<Rightarrow> True | Some x \<Rightarrow> 0 \<le> x)"

definition upsertPeer ::
  "pg \<Rightarrow> uuid \<Rightarrow> int \<Rightarrow> snapshot_instance \<Rightarrow> bool \<Rightarrow> snapshot_peer \<Rightarrow> tx \<Rightarrow> ingest_error + tx" where
  "upsertPeer env cid completedAt i detailsComplete p =
     tx_exec env (UpsertPeer (sp_peer_id p) (si_instance_id i)) (\<lambda>db.
       if sp_tunnel_protocols p = None then Inl NotNull
       else if \<not> nonneg (sp_latency_ms p) \<or> \<not> nonneg (sp_loss_rate p) then Inl CheckFailed
       else and_then (upsert link_stamp (merge_link detailsComplete)
           (has_key (db_instances db) (si_instance_id i) \<and> has_key (db_runs db) cid)
           (si_instance_id i, uint (sp_peer_id p)) (peer_row (pg_now env) cid completedAt i p) (db_links db))
         (\<lambda>t. Inr (db\<lparr>db_links := t\<rparr>)))"

definition removeStalePeers :: "pg \<Rightarrow> int \<Rightarrow> snapshot_instance \<Rightarrow> tx \<Rightarrow> ingest_error + tx" where
  "removeStalePeers env completedAt i =
     (let peerIDs = map (\<lambda>p. uint (sp_peer_id p)) (si_peers i) in
      tx_exec env (RemoveStalePeers (si_instance_id i)) (\<lambda>db.
        Inr (db\<lparr>db_links := RBT.filter (\<lambda>(src, pid) r.
          \<not> (src = si_instance_id i \<and> link_stamp r < (millis (si_observed_at_ms i), completedAt) \<and> pid \<notin> set peerIDs))
          (db_links db)\<rparr>)))"

section \<open>Samples\<close>

definition sample_key :: "sample_row \<Rightarrow> uuid \<times> uuid \<times> jsstr \<times> jsstr" where
  "sample_key r = (sr_collection_id r, sr_instance_id r, sr_metric_name r, sr_labels_hash r)"

definition insert_sample :: "sample_row \<Rightarrow> database \<Rightarrow> db_error + database" where
  "insert_sample r db =
     (if sample_key r \<in> sample_key ` set (db_samples db) then Inl UniqueKey
      else if \<not> has_key (db_runs db) (sr_collection_id r) \<or> \<not> has_key (db_instances db) (sr_instance_id r) then Inl ForeignKey
      else Inr (db\<lparr>db_samples := db_samples db @ [r]\<rparr>))"

definition insertMetric :: "pg \<Rightarrow> uuid \<Rightarrow> snapshot_instance \<Rightarrow> metric \<Rightarrow> tx \<Rightarrow> ingest_error + tx" where
  "insertMetric env cid i m t =
     (case pg_marshal_labels env (mt_labels m) of
        Inl e \<Rightarrow> Inl (EncodeLabels (mt_name m) e)
      | Inr labels \<Rightarrow>
          tx_exec env (InsertMetric (mt_name m) (si_instance_id i)) (insert_sample
            \<lparr>sr_collection_id = cid, sr_instance_id = si_instance_id i, sr_metric_name = mt_name m,
             sr_labels_hash = pg_sha256 env labels, sr_labels = labels, sr_value = unat (mt_value m),
             sr_observed_at = millis (si_observed_at_ms i)\<rparr>) t)"

definition ingestInstance :: "pg \<Rightarrow> uuid \<Rightarrow> int \<Rightarrow> uuid \<Rightarrow> snapshot_instance \<Rightarrow> tx \<Rightarrow> ingest_error + tx" where
  "ingestInstance env cid completedAt mid i t =
     and_then (upsertInstance env cid completedAt mid i t) (\<lambda>t.
     and_then (case si_node i of None \<Rightarrow> Inr t | Some node \<Rightarrow> upsertNode env cid completedAt i node t) (\<lambda>t.
     and_then (each (upsertPeer env cid completedAt i (\<not> hasOperationError (si_errors i) ''list_peers'')) (si_peers i) t) (\<lambda>t.
     and_then (if hasOperationError (si_errors i) ''list_routes'' then Inr t else removeStalePeers env completedAt i t)
       (each (insertMetric env cid i) (si_metrics i)))))"

section \<open>Disappearance\<close>

definition retire_instance :: "int \<Rightarrow> uuid \<Rightarrow> int \<Rightarrow> instance_rec \<Rightarrow> instance_rec" where
  "retire_instance now cid completedAt r =
     r\<lparr>ic_active := False, ic_disappeared_at := Some completedAt, ic_last_collection_completed_at := completedAt,
       ic_last_collection_id := cid, ic_updated_at := now\<rparr>"

definition retire_machine :: "int \<Rightarrow> uuid \<Rightarrow> int \<Rightarrow> machine_rec \<Rightarrow> machine_rec" where
  "retire_machine now cid completedAt r =
     r\<lparr>mc_active := False, mc_disappeared_at := Some completedAt, mc_last_collection_completed_at := completedAt,
       mc_last_collection_id := cid, mc_updated_at := now\<rparr>"

definition markMissingInstancesInactive :: "pg \<Rightarrow> uuid \<Rightarrow> int \<Rightarrow> snapshot_machine \<Rightarrow> tx \<Rightarrow> ingest_error + tx" where
  "markMissingInstancesInactive env cid completedAt m =
     (let instanceIDs = map si_instance_id (sm_instances m) in
      tx_exec env (MarkInstances (se_machine_id (sm_session m))) (\<lambda>db.
        Inr (db\<lparr>db_instances := RBT.map (\<lambda>iid r.
          if ic_machine_id r = se_machine_id (sm_session m) \<and> ic_active r \<and> iid \<notin> set instanceIDs \<and>
             ic_last_collection_completed_at r < completedAt
          then retire_instance (pg_now env) cid completedAt r else r) (db_instances db)\<rparr>)))"

definition markMissingMachinesInactive :: "pg \<Rightarrow> uuid \<Rightarrow> int \<Rightarrow> snapshot_machine list \<Rightarrow> tx \<Rightarrow> ingest_error + tx" where
  "markMissingMachinesInactive env cid completedAt ms t =
     (let machineIDs = map (\<lambda>m. se_machine_id (sm_session m)) ms in
      and_then (tx_exec env MarkMachines (\<lambda>db.
        Inr (db\<lparr>db_machines := RBT.map (\<lambda>mid r.
          if mc_active r \<and> mid \<notin> set machineIDs \<and> mc_last_collection_completed_at r < completedAt
          then retire_machine (pg_now env) cid completedAt r else r) (db_machines db)\<rparr>)) t)
      (tx_exec env MarkInstancesOfMachines (\<lambda>db.
        Inr (db\<lparr>db_instances := RBT.map (\<lambda>iid r.
          if ic_active r \<and> ic_machine_id r \<notin> set machineIDs \<and> ic_last_collection_completed_at r < completedAt
          then retire_instance (pg_now env) cid completedAt r else r) (db_instances db)\<rparr>))))"

section \<open>The transaction\<close>

definition ingest_machine :: "pg \<Rightarrow> uuid \<Rightarrow> int \<Rightarrow> snapshot_machine \<Rightarrow> tx \<Rightarrow> ingest_error + tx" where
  "ingest_machine env cid completedAt m t =
     (let mid = se_machine_id (sm_session m) in
      and_then (upsertMachine env cid completedAt m t) (\<lambda>t.
      and_then (insertErrors env cid ''machine'' mid 0 (sm_errors m) t) (\<lambda>t.
      and_then (each (\<lambda>i t.
          and_then (ingestInstance env cid completedAt mid i t)
            (insertErrors env cid ''instance'' mid (si_instance_id i) (si_errors i))) (sm_instances m) t) (\<lambda>t.
        if hasOperationError (sm_errors m) ''list_network_instances'' then Inr t
        else markMissingInstancesInactive env cid completedAt m t))))"

definition run_row :: "int \<Rightarrow> jsstr \<Rightarrow> jsstr \<Rightarrow> snapshot \<Rightarrow> run_rec" where
  "run_row now rawPayload sha256 s =
     \<lparr>rc_schema_version = sn_schema_version s, rc_status = (if countErrors s > 0 then js ''partial'' else js ''complete''),
      rc_machine_count = length (sn_machines s), rc_error_count = countErrors s, rc_started_at = millis (sn_started_at_ms s),
      rc_completed_at = millis (sn_completed_at_ms s), rc_collected_at = millis (sn_collected_at_ms s), rc_ingested_at = now,
      rc_raw_payload = Some rawPayload, rc_raw_payload_sha256 = Some sha256, rc_payload_pruned_at = None\<rparr>"

definition insert_run :: "run_rec \<Rightarrow> uuid \<Rightarrow> database \<Rightarrow> db_error + database" where
  "insert_run r cid db =
     (if \<not> (rc_started_at r \<le> rc_completed_at r \<and> rc_collected_at r = rc_completed_at r) then Inl CheckFailed
      else if has_key (db_runs db) cid then Inr db
      else Inr (db\<lparr>db_runs := RBT.insert cid r (db_runs db)\<rparr>))"

definition payload_matches :: "pg \<Rightarrow> jsstr \<Rightarrow> jsstr \<Rightarrow> run_rec \<Rightarrow> bool" where
  "payload_matches env rawPayload sha256 r =
     (case rc_raw_payload_sha256 r of
        Some h \<Rightarrow> h = sha256
      | None \<Rightarrow> pg_jsonb_eq env (rc_raw_payload r) rawPayload)"

text \<open>The statements up to the commit, with the result that \<^verbatim>\<open>Ingest\<close> returns after it.\<close>

definition ingest_tx :: "pg \<Rightarrow> snapshot \<Rightarrow> jsstr \<Rightarrow> database \<Rightarrow> ingest_error + tx \<times> bool" where
  "ingest_tx env s rawPayload db =
     (let cid = sn_collection_id s; sha256 = pg_sha256 env rawPayload; completedAt = millis (sn_completed_at_ms s);
          t = \<lparr>tx_db = db, tx_calls = 0, tx_errorIndex = 0\<rparr>
      in and_then (tx_exec env InsertRun (insert_run (run_row (pg_now env) rawPayload sha256 s) cid) t) (\<lambda>t.
           case RBT.lookup (db_runs db) cid of
             Some r \<Rightarrow>
               (case pg_fault env (tx_calls t) of
                  Some e \<Rightarrow> Inl (StatementFailed VerifyDuplicate (Driver e))
                | None \<Rightarrow>
                    if payload_matches env rawPayload sha256 r then Inr (t\<lparr>tx_calls := Suc (tx_calls t)\<rparr>, False)
                    else Inl (PayloadReused cid))
           | None \<Rightarrow>
               and_then (insertErrors env cid ''snapshot'' 0 0 (sn_errors s) t) (\<lambda>t.
               and_then (each (ingest_machine env cid completedAt) (sn_machines s) t) (\<lambda>t.
               and_then (if sn_errors s = [] then markMissingMachinesInactive env cid completedAt (sn_machines s) t else Inr t)
                 (\<lambda>t. Inr (t, True))))))"

definition Ingest :: "pg \<Rightarrow> snapshot \<Rightarrow> database \<Rightarrow> database \<times> (ingest_error + bool)" where
  "Ingest env s db =
     (case Validate s of
        Some e \<Rightarrow> (db, Inl (InvalidSnapshot e))
      | None \<Rightarrow>
     (case pg_marshal env s of
        Inl e \<Rightarrow> (db, Inl (EncodePayload e))
      | Inr rawPayload \<Rightarrow>
     (case pg_begin env of
        Some e \<Rightarrow> (db, Inl (BeginFailed e))
      | None \<Rightarrow>
     (case ingest_tx env s rawPayload db of
        Inl e \<Rightarrow> (db, Inl e)
      | Inr (t, inserted) \<Rightarrow>
          (case pg_commit env of
             Committed \<Rightarrow> (tx_db t, Inr inserted)
           | RolledBack e \<Rightarrow> (db, Inl (CommitFailed inserted e))
           | Unacknowledged e \<Rightarrow> (tx_db t, Inl (CommitFailed inserted e)))))))"

section \<open>Reasoning about sequences of statements\<close>

text \<open>
  \<open>upholds P E f\<close>: from a state with \<open>P\<close>, the step \<open>f\<close> leads to a state with \<open>P\<close> or fails with an error
  that \<open>E\<close> allows.
\<close>

definition upholds :: "('s \<Rightarrow> bool) \<Rightarrow> ('e \<Rightarrow> bool) \<Rightarrow> ('s \<Rightarrow> 'e + 's) \<Rightarrow> bool" where
  "upholds P E f \<longleftrightarrow> (\<forall>s. P s \<longrightarrow> (case f s of Inl e \<Rightarrow> E e | Inr s1 \<Rightarrow> P s1))"

lemma upholdsI:
  "(\<And>s. P s \<Longrightarrow> case f s of Inl e \<Rightarrow> E e | Inr s1 \<Rightarrow> P s1) \<Longrightarrow> upholds P E f"
  by (simp add: upholds_def)

lemma upholdsD: "upholds P E f \<Longrightarrow> P s \<Longrightarrow> case f s of Inl e \<Rightarrow> E e | Inr s1 \<Rightarrow> P s1"
  by (simp add: upholds_def)

lemma upholds_Inr: "upholds P E f \<Longrightarrow> P s \<Longrightarrow> f s = Inr s1 \<Longrightarrow> P s1"
  by (auto simp: upholds_def split: sum.splits)

lemma upholds_Inl: "upholds P E f \<Longrightarrow> P s \<Longrightarrow> f s = Inl e \<Longrightarrow> E e"
  by (auto simp: upholds_def split: sum.splits)

lemma upholds_skip [intro!]: "upholds P E Inr"
  by (simp add: upholds_def)

lemma upholds_if [intro]:
  "(b \<Longrightarrow> upholds P E f) \<Longrightarrow> (\<not> b \<Longrightarrow> upholds P E g) \<Longrightarrow> upholds P E (\<lambda>t. if b then f t else g t)"
  by (cases b) simp_all

lemma upholds_option:
  "(\<And>x. v = Some x \<Longrightarrow> upholds P E (f x)) \<Longrightarrow> upholds P E (\<lambda>t. case v of None \<Rightarrow> Inr t | Some x \<Rightarrow> f x t)"
  by (cases v) (simp_all add: upholds_def)

lemma upholds_then:
  assumes "upholds P E f" and "upholds P E g"
  shows "upholds P E (\<lambda>t. and_then (f t) g)"
proof (rule upholdsI)
  fix s
  assume "P s"
  from upholdsD [OF assms(1) this] show "case and_then (f s) g of Inl e \<Rightarrow> E e | Inr s1 \<Rightarrow> P s1"
    by (cases "f s") (auto dest: upholdsD [OF assms(2)])
qed

lemma upholds_each:
  assumes "\<And>x. x \<in> set xs \<Longrightarrow> upholds P E (f x)"
  shows "upholds P E (each f xs)"
  using assms
proof (induction xs)
  case Nil
  then show ?case by (simp add: upholds_def)
next
  case (Cons x xs)
  then have "upholds P E (\<lambda>t. and_then (f x t) (each f xs))" by (intro upholds_then) auto
  then show ?case by (simp add: upholds_def)
qed

text \<open>Running a step that needs more and leaves more than the invariant.\<close>

lemma upholds_seq:
  assumes "\<And>t. P t \<Longrightarrow> (case f t of Inl e \<Rightarrow> E e | Inr t1 \<Rightarrow> Q t1)" and "upholds Q E g"
    and "\<And>t. Q t \<Longrightarrow> P t"
  shows "upholds P E (\<lambda>t. and_then (f t) g)"
proof (rule upholdsI)
  fix s
  assume "P s"
  from assms(1) [OF this] show "case and_then (f s) g of Inl e \<Rightarrow> E e | Inr s1 \<Rightarrow> P s1"
    by (cases "f s") (auto dest!: upholdsD [OF assms(2)] intro: assms(3) split: sum.splits)
qed

text \<open>An invariant of the elements done so far.\<close>

lemma each_induct:
  assumes "each f xs s = Inr s1" and "I [] s"
    and "\<And>ys x zs s s1. xs = ys @ x # zs \<Longrightarrow> I ys s \<Longrightarrow> f x s = Inr s1 \<Longrightarrow> I (ys @ [x]) s1"
  shows "I xs s1"
proof -
  have "each f zs s = Inr s1 \<Longrightarrow> xs = ys @ zs \<Longrightarrow> I ys s \<Longrightarrow> I xs s1" for ys zs s
  proof (induction zs arbitrary: ys s)
    case (Cons z zs)
    then obtain s2 where "f z s = Inr s2" and "each f zs s2 = Inr s1" by (auto simp: and_then_eq_Inr)
    with Cons assms(3) [of ys z zs s s2] show ?case by simp
  qed simp
  from this [of xs s "[]"] assms(1,2) show ?thesis by simp
qed

text \<open>A number that every element adds to.\<close>

lemma each_adds:
  fixes size_of :: "'s \<Rightarrow> nat"
  assumes "each f xs s = Inr s1" and "\<And>x s s1. x \<in> set xs \<Longrightarrow> f x s = Inr s1 \<Longrightarrow> size_of s1 = size_of s + w x"
  shows "size_of s1 = size_of s + sum_list (map w xs)"
  using assms
proof (induction xs arbitrary: s)
  case (Cons x xs)
  then obtain s2 where "f x s = Inr s2" and s2: "each f xs s2 = Inr s1" by (auto simp: and_then_eq_Inr)
  with Cons.prems(2) have "size_of s2 = size_of s + w x" by simp
  moreover have "size_of s1 = size_of s2 + sum_list (map w xs)"
    using s2 by (rule Cons.IH) (rule Cons.prems(2), simp_all)
  ultimately show ?case by simp
qed simp

lemma exec_Inr:
  "tx_exec env st f t = Inr t1 \<longleftrightarrow>
     pg_fault env (tx_calls t) = None \<and> (\<exists>db. f (tx_db t) = Inr db \<and> t1 = t\<lparr>tx_db := db, tx_calls := Suc (tx_calls t)\<rparr>)"
  by (auto simp: tx_exec_def split: option.splits sum.splits)

text \<open>A statement meets a condition on the database and the error index.\<close>

lemma exec_case:
  assumes "case f (tx_db t) of Inl e \<Rightarrow> E (StatementFailed st e) | Inr db \<Rightarrow> Q db (tx_errorIndex t)"
    and "\<And>e. E (StatementFailed st (Driver e))"
  shows "case tx_exec env st f t of Inl e \<Rightarrow> E e | Inr t1 \<Rightarrow> Q (tx_db t1) (tx_errorIndex t1)"
  using assms by (auto simp: tx_exec_def split: option.splits sum.splits)

section \<open>Tables with versions\<close>

text \<open>
  What the four tables that are upserted share: an update takes over the version of the new row.
  The version of a row never decreases, other rows are left alone, and with its references in
  place an upsert succeeds.
\<close>

locale versioned_table =
  fixes stamp :: "'r \<Rightarrow> int \<times> int"
    and merge :: "'r \<Rightarrow> 'r \<Rightarrow> 'r"
  assumes stamp_merge: "stamp (merge old new) = stamp new"
begin

lemma upsert_succeeds: "refs \<Longrightarrow> \<exists>t1. upsert stamp merge refs k new t = Inr t1"
  by (auto simp: upsert_def split: option.splits)

lemma upsert_cases:
  assumes "upsert stamp merge refs k new t = Inr t1"
  obtains (kept) old where "RBT.lookup t k = Some old" and "\<not> stamp old < stamp new" and "t1 = t"
    | (inserted) "RBT.lookup t k = None" and "t1 = RBT.insert k new t" and refs
    | (updated) old where "RBT.lookup t k = Some old" and "stamp old < stamp new" and "t1 = RBT.insert k (merge old new) t" and refs
  using assms by (auto simp: upsert_def split: option.splits if_splits)

lemma upsert_other: "upsert stamp merge refs k new t = Inr t1 \<Longrightarrow> k' \<noteq> k \<Longrightarrow> RBT.lookup t1 k' = RBT.lookup t k'"
  by (erule upsert_cases) auto

lemma upsert_has_key: "upsert stamp merge refs k new t = Inr t1 \<Longrightarrow> has_key t1 k' \<longleftrightarrow> k' = k \<or> has_key t k'"
  by (erule upsert_cases) (auto simp: has_key_def)

lemma upsert_version:
  assumes "upsert stamp merge refs k new t = Inr t1" and "RBT.lookup t k' = Some r"
  shows "\<exists>r1. RBT.lookup t1 k' = Some r1 \<and> stamp r \<le> stamp r1"
  using assms(1)
  by (rule upsert_cases) (use assms(2) in \<open>auto simp: less_imp_le stamp_merge\<close>)

lemma upsert_newer:
  assumes "upsert stamp merge refs k new t = Inr t1" and "\<And>old. RBT.lookup t k = Some old \<Longrightarrow> stamp old < stamp new"
  shows "RBT.lookup t1 k = Some (case RBT.lookup t k of None \<Rightarrow> new | Some old \<Rightarrow> merge old new)"
  using assms(1) by (rule upsert_cases) (use assms(2) in auto)

lemma upsert_table_all:
  assumes "upsert stamp merge refs k new t = Inr t1" and "table_all P t" and "P k new"
    and "\<And>old. P k old \<Longrightarrow> P k (merge old new)"
  shows "table_all P t1"
  using assms(1) by (rule upsert_cases) (use assms(2-4) in \<open>auto intro!: table_all_insert dest: table_allD\<close>)

end

interpretation machine_table: versioned_table machine_stamp "\<lambda>old new. new"
  by unfold_locales simp

interpretation instance_table: versioned_table instance_stamp "\<lambda>old new. new"
  by unfold_locales simp

interpretation node_table: versioned_table node_stamp "\<lambda>old new. new"
  by unfold_locales simp

interpretation link_table: versioned_table link_stamp "merge_link detailsComplete" for detailsComplete
  by unfold_locales (simp add: link_stamp_def merge_link_def)

section \<open>What a step leaves alone\<close>

text \<open>A part \<open>g\<close> of the database that no update of the tables a step writes can change.\<close>

abbreviation (input) leaves :: "(database \<Rightarrow> 'a) \<Rightarrow> 'a \<Rightarrow> (tx \<Rightarrow> ingest_error + tx) \<Rightarrow> bool" where
  "leaves g R \<equiv> upholds (\<lambda>t. g (tx_db t) = R) (\<lambda>_. True)"

lemma exec_leaves:
  assumes "\<And>db db1. f db = Inr db1 \<Longrightarrow> g db1 = g db"
  shows "leaves g R (tx_exec env st f)"
  by (rule upholdsI) (auto simp: tx_exec_def dest: assms split: option.splits sum.splits)

lemma insertErrors_leaves:
  assumes "\<And>db t. g (db\<lparr>db_errors := t\<rparr>) = g db"
  shows "leaves g R (insertErrors env cid scope mid iid errors)"
  unfolding insertErrors_def Let_def
proof (rule upholds_each, rule upholdsI)
  fix e and t :: tx
  assume "g (tx_db t) = R"
  then show "case and_then (tx_exec env (InsertError (js scope)) (insert_error cid (tx_errorIndex t) scope
        (if mid \<noteq> 0 then Some mid else None) (if iid \<noteq> 0 then Some iid else None) e) t)
      (\<lambda>t1. Inr (t1\<lparr>tx_errorIndex := Suc (tx_errorIndex t1)\<rparr>)) of Inl e \<Rightarrow> True | Inr t1 \<Rightarrow> g (tx_db t1) = R"
    by (auto simp: tx_exec_def insert_error_def assms split: option.splits sum.splits)
qed

lemma upsertMachine_leaves:
  assumes "\<And>db t. g (db\<lparr>db_machines := t\<rparr>) = g db"
  shows "leaves g R (upsertMachine env cid completedAt m)"
  unfolding upsertMachine_def by (rule exec_leaves [where g = g]) (auto simp: assms and_then_eq_Inr)

lemma markMissingInstancesInactive_leaves:
  assumes "\<And>db t. g (db\<lparr>db_instances := t\<rparr>) = g db"
  shows "leaves g R (markMissingInstancesInactive env cid completedAt m)"
  unfolding markMissingInstancesInactive_def Let_def by (rule exec_leaves [where g = g]) (auto simp: assms)

lemma markMissingMachinesInactive_leaves:
  assumes "\<And>db t. g (db\<lparr>db_machines := t\<rparr>) = g db" and "\<And>db t. g (db\<lparr>db_instances := t\<rparr>) = g db"
  shows "leaves g R (\<lambda>t. markMissingMachinesInactive env cid completedAt ms t)"
  unfolding markMissingMachinesInactive_def Let_def
  by (intro upholds_then exec_leaves [where g = g]) (auto simp: assms)

lemma upsertPeer_leaves:
  assumes "\<And>db t. g (db\<lparr>db_links := t\<rparr>) = g db"
  shows "leaves g R (upsertPeer env cid completedAt i detailsComplete p)"
  unfolding upsertPeer_def by (rule exec_leaves [where g = g]) (auto simp: assms and_then_eq_Inr split: if_splits)

lemma removeStalePeers_leaves:
  assumes "\<And>db t. g (db\<lparr>db_links := t\<rparr>) = g db"
  shows "leaves g R (removeStalePeers env completedAt i)"
  unfolding removeStalePeers_def Let_def by (rule exec_leaves [where g = g]) (auto simp: assms)

lemma upsertInstance_leaves:
  assumes "\<And>db t. g (db\<lparr>db_instances := t\<rparr>) = g db"
  shows "leaves g R (upsertInstance env cid completedAt mid i)"
  unfolding upsertInstance_def by (rule exec_leaves [where g = g]) (auto simp: assms and_then_eq_Inr)

lemma upsertNode_leaves:
  assumes "\<And>db t. g (db\<lparr>db_nodes := t\<rparr>) = g db"
  shows "leaves g R (upsertNode env cid completedAt i node)"
  unfolding upsertNode_def by (rule exec_leaves [where g = g]) (auto simp: assms and_then_eq_Inr split: option.splits)

lemma insertMetric_leaves:
  assumes "\<And>db t. g (db\<lparr>db_samples := t\<rparr>) = g db"
  shows "leaves g R (insertMetric env cid i m)"
proof (cases "pg_marshal_labels env (mt_labels m)")
  case (Inr labels)
  have "leaves g R (tx_exec env st (insert_sample r))" for st r
    by (rule exec_leaves [where g = g]) (auto simp: insert_sample_def assms split: if_splits)
  then show ?thesis by (simp add: insertMetric_def Inr upholds_def)
qed (simp add: insertMetric_def upholds_def)

lemma ingestInstance_leaves:
  assumes "\<And>db t. g (db\<lparr>db_instances := t\<rparr>) = g db" and "\<And>db t. g (db\<lparr>db_nodes := t\<rparr>) = g db"
    and "\<And>db t. g (db\<lparr>db_links := t\<rparr>) = g db" and "\<And>db t. g (db\<lparr>db_samples := t\<rparr>) = g db"
  shows "leaves g R (\<lambda>t. ingestInstance env cid completedAt mid i t)"
  unfolding ingestInstance_def
  by (intro upholds_then upholds_each upholds_if upholds_option upsertInstance_leaves upsertNode_leaves upsertPeer_leaves
      removeStalePeers_leaves insertMetric_leaves upholds_skip assms)

lemma ingest_machine_leaves:
  assumes "\<And>db t. g (db\<lparr>db_instances := t\<rparr>) = g db" and "\<And>db t. g (db\<lparr>db_nodes := t\<rparr>) = g db"
    and "\<And>db t. g (db\<lparr>db_links := t\<rparr>) = g db" and "\<And>db t. g (db\<lparr>db_samples := t\<rparr>) = g db"
    and "\<And>db t. g (db\<lparr>db_machines := t\<rparr>) = g db" and "\<And>db t. g (db\<lparr>db_errors := t\<rparr>) = g db"
  shows "leaves g R (\<lambda>t. ingest_machine env cid completedAt m t)"
  unfolding ingest_machine_def Let_def
  by (intro upholds_then upholds_each upholds_if upsertMachine_leaves insertErrors_leaves ingestInstance_leaves
      markMissingInstancesInactive_leaves upholds_skip assms)

end
