(* ===== verification/Migrate.thy ===== *)
theory Migrate
  imports Ingest "HOL-Library.List_Lexorder"
begin

text \<open>
  The migrations of \<^verbatim>\<open>controller/internal/database/database.go\<close>: under one transaction the embedded
  scripts are applied in the order of their names, and a ledger remembers which were applied and
  with which checksum. What a script does to the schema is an argument, as are the digest, the
  failures of the statements and the outcome of the commit.
\<close>

section \<open>The model\<close>

record migration_entry =
  me_name :: bytes
  me_isDir :: bool
  me_contents :: "bytes result"

record 's schema_db =
  sc_ledger :: "(bytes \<times> jsstr) list option"
  sc_schema :: 's

record 's migrate_env =
  mv_begin :: "jsstr option"
  mv_fault :: "nat \<Rightarrow> jsstr option"
  mv_commit :: commit_outcome
  mv_sha256 :: "bytes \<Rightarrow> jsstr"
  mv_run :: "bytes \<Rightarrow> 's \<Rightarrow> 's result"

datatype migrate_error =
    ReadMigrations jsstr | BeginMigration jsstr | LockMigrations jsstr | CreateLedger jsstr
  | ReadMigration bytes jsstr | CheckMigration bytes jsstr | ChecksumChanged bytes
  | ApplyMigration bytes jsstr | RecordMigration bytes jsstr | CommitMigrations jsstr

text \<open>The transaction: the number of statements so far and the state of the database.\<close>

type_synonym 's migration_tx = "nat \<times> 's schema_db"

definition statement_at :: "'s migrate_env \<Rightarrow> (jsstr \<Rightarrow> migrate_error) \<Rightarrow> ('s schema_db \<Rightarrow> 's schema_db result) \<Rightarrow>
  's migration_tx \<Rightarrow> migrate_error + 's migration_tx" where
  "statement_at env err f = (\<lambda>(n, db).
     case mv_fault env n of
       Some e \<Rightarrow> Inl (err e)
     | None \<Rightarrow> (case f db of Inl e \<Rightarrow> Inl (err e) | Inr db1 \<Rightarrow> Inr (Suc n, db1)))"

definition ledger_of :: "'s schema_db \<Rightarrow> (bytes \<times> jsstr) list" where
  "ledger_of db = (case sc_ledger db of None \<Rightarrow> [] | Some rows \<Rightarrow> rows)"

definition create_ledger :: "'s schema_db \<Rightarrow> 's schema_db result" where
  "create_ledger db = Inr (db\<lparr>sc_ledger := Some (ledger_of db)\<rparr>)"

definition record_migration :: "bytes \<Rightarrow> jsstr \<Rightarrow> 's schema_db \<Rightarrow> 's schema_db result" where
  "record_migration name checksum db =
     (if name \<in> fst ` set (ledger_of db) then Inl (js ''duplicate key value'')
      else Inr (db\<lparr>sc_ledger := Some (ledger_of db @ [(name, checksum)])\<rparr>))"

definition run_script :: "'s migrate_env \<Rightarrow> bytes \<Rightarrow> 's schema_db \<Rightarrow> 's schema_db result" where
  "run_script env contents db = and_then (mv_run env contents (sc_schema db)) (\<lambda>s. Inr (db\<lparr>sc_schema := s\<rparr>))"

definition migrate_entry :: "'s migrate_env \<Rightarrow> migration_entry \<Rightarrow> 's migration_tx \<Rightarrow> migrate_error + 's migration_tx" where
  "migrate_entry env entry t =
     (if me_isDir entry then Inr t
      else (case me_contents entry of
        Inl e \<Rightarrow> Inl (ReadMigration (me_name entry) e)
      | Inr contents \<Rightarrow>
          let checksum = mv_sha256 env contents; name = me_name entry in
          and_then (statement_at env (CheckMigration name) Inr t) (\<lambda>t.
            let appliedChecksum = (case map_of (ledger_of (snd t)) name of None \<Rightarrow> [] | Some c \<Rightarrow> c) in
            if appliedChecksum \<noteq> []
            then if appliedChecksum \<noteq> checksum then Inl (ChecksumChanged name) else Inr t
            else and_then (statement_at env (ApplyMigration name) (run_script env contents) t)
                   (statement_at env (RecordMigration name) (record_migration name checksum)))))"

definition Migrate :: "'s migrate_env \<Rightarrow> migration_entry list result \<Rightarrow> 's schema_db \<Rightarrow> 's schema_db \<times> migrate_error option" where
  "Migrate env listing db =
     (case listing of
        Inl e \<Rightarrow> (db, Some (ReadMigrations e))
      | Inr entries \<Rightarrow>
     (case mv_begin env of
        Some e \<Rightarrow> (db, Some (BeginMigration e))
      | None \<Rightarrow>
     (case and_then (statement_at env LockMigrations Inr (0, db)) (\<lambda>t.
           and_then (statement_at env CreateLedger create_ledger t)
             (each (migrate_entry env) (sort_key me_name entries))) of
        Inl e \<Rightarrow> (db, Some e)
      | Inr (n, db1) \<Rightarrow>
          (case mv_commit env of
             Committed \<Rightarrow> (db1, None)
           | RolledBack e \<Rightarrow> (db, Some (CommitMigrations e))
           | Unacknowledged e \<Rightarrow> (db1, Some (CommitMigrations e))))))"

section \<open>Specification\<close>

text \<open>The scripts among the entries, in order, and those the ledger does not have.\<close>

definition scripts :: "migration_entry list \<Rightarrow> (bytes \<times> bytes) list" where
  "scripts entries = map (\<lambda>e. (me_name e, case me_contents e of Inl _ \<Rightarrow> [] | Inr c \<Rightarrow> c))
     (filter (\<lambda>e. \<not> me_isDir e) (sort_key me_name entries))"

definition pending :: "(bytes \<times> jsstr) list \<Rightarrow> (bytes \<times> bytes) list \<Rightarrow> (bytes \<times> bytes) list" where
  "pending ledger xs = filter (\<lambda>(name, c). name \<notin> fst ` set ledger) xs"

fun run_scripts :: "(bytes \<Rightarrow> 's \<Rightarrow> 's result) \<Rightarrow> bytes list \<Rightarrow> 's \<Rightarrow> 's result" where
  "run_scripts run [] s = Inr s"
| "run_scripts run (c # cs) s = and_then (run c s) (run_scripts run cs)"

lemma run_scripts_snoc: "run_scripts run (cs @ [c]) s = and_then (run_scripts run cs s) (run c)"
proof (induction cs arbitrary: s)
  case Nil
  show ?case by (cases "run c s") simp_all
next
  case (Cons x cs)
  then show ?case by (cases "run x s") simp_all
qed

lemma statement_at_Inr:
  "statement_at env err f (n, db) = Inr t1 \<longleftrightarrow> mv_fault env n = None \<and> (\<exists>db1. f db = Inr db1 \<and> t1 = (Suc n, db1))"
  by (auto simp: statement_at_def split: option.splits sum.splits)

text \<open>
  The state after the entries done so far: every script is in the ledger with its checksum, and the
  pending ones among them were run in order.
\<close>

definition migrated :: "'s migrate_env \<Rightarrow> 's schema_db \<Rightarrow> (bytes \<times> bytes) list \<Rightarrow> 's schema_db \<Rightarrow> bool" where
  "migrated env db xs db1 \<longleftrightarrow>
     (let todo = pending (ledger_of db) xs in
      sc_ledger db1 = Some (ledger_of db @ map (\<lambda>(name, c). (name, mv_sha256 env c)) todo) \<and>
      run_scripts (mv_run env) (map snd todo) (sc_schema db) = Inr (sc_schema db1) \<and>
      list_all (\<lambda>(name, c). map_of (ledger_of db1) name = Some (mv_sha256 env c)) xs)"

definition script_of :: "migration_entry \<Rightarrow> (bytes \<times> bytes) list" where
  "script_of e = (if me_isDir e then [] else [(me_name e, case me_contents e of Inl _ \<Rightarrow> [] | Inr c \<Rightarrow> c)])"

lemma scripts_concat: "scripts entries = concat (map script_of (sort_key me_name entries))"
proof -
  have "map (\<lambda>e. (me_name e, case me_contents e of Inl _ \<Rightarrow> [] | Inr c \<Rightarrow> c)) (filter (\<lambda>e. \<not> me_isDir e) es) = concat (map script_of es)" for es
    by (induction es) (simp_all add: script_of_def)
  then show ?thesis by (simp add: scripts_def)
qed

lemma migrate_entry_step:
  assumes "migrate_entry env e (n, u) = Inr (n1, u1)" and "migrated env db xs u" and "\<And>c. mv_sha256 env c \<noteq> []"
    and "me_name e \<notin> fst ` set xs" and "distinct (map fst (ledger_of db))"
  shows "migrated env db (xs @ script_of e) u1"
proof (cases "me_isDir e")
  case True
  with assms show ?thesis by (simp add: migrate_entry_def script_of_def)
next
  case False
  let ?name = "me_name e" and ?todo = "pending (ledger_of db) xs"
  have u: "ledger_of u = ledger_of db @ map (\<lambda>(name, c). (name, mv_sha256 env c)) ?todo"
    and run: "run_scripts (mv_run env) (map snd ?todo) (sc_schema db) = Inr (sc_schema u)"
    and seen: "list_all (\<lambda>(name, c). map_of (ledger_of u) name = Some (mv_sha256 env c)) xs"
    using assms(2) by (auto simp: migrated_def Let_def ledger_of_def [of u])
  have new: "?name \<notin> fst ` set (map (\<lambda>(name, c). (name, mv_sha256 env c)) ?todo)"
    using assms(4) by (force simp: pending_def)
  obtain contents where c: "me_contents e = Inr contents" and fault: "mv_fault env n = None"
    using assms(1) False by (auto simp: migrate_entry_def and_then_eq_Inr statement_at_Inr Let_def split: sum.splits)
  let ?sum = "mv_sha256 env contents"
  have script: "script_of e = [(?name, contents)]" by (simp add: script_of_def False c)
  have lookup: "map_of (ledger_of u) ?name = map_of (ledger_of db) ?name"
    using map_of_eq_None_iff [THEN iffD2, OF new] by (simp add: u map_add_def split: option.splits)
  show ?thesis
  proof (cases "(case map_of (ledger_of u) ?name of None \<Rightarrow> [] | Some c \<Rightarrow> c) = []")
    case False
    then obtain old where old: "map_of (ledger_of u) ?name = Some old" by (auto split: option.splits)
    with False \<open>\<not> me_isDir e\<close> assms(1) c fault have "old = ?sum" and "u1 = u"
      by (auto simp: migrate_entry_def and_then_eq_Inr statement_at_Inr Let_def split: if_splits)
    moreover have "?name \<in> fst ` set (ledger_of db)" using old unfolding lookup by (metis domI dom_map_of_conv_image_fst)
    ultimately show ?thesis
      using assms(2) old by (simp add: migrated_def Let_def script pending_def)
  next
    case True
    with \<open>\<not> me_isDir e\<close> assms(1) c fault obtain s where s: "mv_run env contents (sc_schema u) = Inr s"
      and fresh: "?name \<notin> fst ` set (ledger_of u)"
      and u1: "u1 = u\<lparr>sc_schema := s, sc_ledger := Some (ledger_of u @ [(?name, ?sum)])\<rparr>"
      by (auto simp: migrate_entry_def and_then_eq_Inr statement_at_Inr Let_def run_script_def record_migration_def ledger_of_def
          split: if_splits)
    have todo: "pending (ledger_of db) (xs @ script_of e) = ?todo @ [(?name, contents)]"
      using fresh by (auto simp: pending_def script u)
    have ledger: "ledger_of u1 = ledger_of u @ [(?name, ?sum)]" by (simp add: u1 ledger_of_def)
    have known: "map_of (ledger_of u1) name = Some (mv_sha256 env c)" if "(name, c) \<in> set xs" for name c
      using seen that by (auto simp: ledger list_all_iff map_add_def)
    have "map_of (ledger_of u1) ?name = Some ?sum"
      using map_of_eq_None_iff [THEN iffD2, OF fresh] by (simp add: ledger map_add_def)
    with known have all: "list_all (\<lambda>(name, c). map_of (ledger_of u1) name = Some (mv_sha256 env c)) (xs @ script_of e)"
      by (auto simp: list_all_iff script)
    have "run_scripts (mv_run env) (map snd (?todo @ [(?name, contents)])) (sc_schema db) = Inr (sc_schema u1)"
      by (simp add: run_scripts_snoc run s u1)
    moreover have "sc_ledger u1 = Some (ledger_of db @ map (\<lambda>(name, c). (name, mv_sha256 env c)) (?todo @ [(?name, contents)]))"
      by (simp add: u1 u)
    ultimately show ?thesis
      unfolding migrated_def todo Let_def using all by blast
  qed
qed

lemma Migrate_migrated:
  assumes "Migrate env (Inr entries) db = (db1, None)" and "distinct (map me_name entries)" and "distinct (map fst (ledger_of db))"
    and "\<And>c. mv_sha256 env c \<noteq> []"
  shows "migrated env db (scripts entries) db1"
proof -
  obtain n n1 where loop: "each (migrate_entry env) (sort_key me_name entries) (n, db\<lparr>sc_ledger := Some (ledger_of db)\<rparr>) = Inr (n1, db1)"
    using assms(1)
    by (auto simp: Migrate_def and_then_eq_Inr statement_at_Inr create_ledger_def split: option.splits sum.splits commit_outcome.splits)
  have d: "distinct (map me_name (sort_key me_name entries))" using assms(2) by (simp add: distinct_map)
  let ?I = "\<lambda>ys t. migrated env db (concat (map script_of ys)) (snd t)"
  have "?I (sort_key me_name entries) (n1, db1)"
    using loop
  proof (rule each_induct [where I = ?I], goal_cases)
    case 1
    show ?case by (simp add: migrated_def Let_def pending_def ledger_of_def)
  next
    case (2 ys e zs u u1)
    have "me_name e \<notin> fst ` set (concat (map script_of ys))"
      using d unfolding 2(1) by (auto simp: script_of_def split: if_splits)
    then show ?case
      using migrate_entry_step [of env e "fst u" "snd u" "fst u1" "snd u1" db] 2 assms(3,4) by simp
  qed
  then show ?thesis by (simp add: scripts_concat)
qed

text \<open>An entry that the ledger has is passed over.\<close>

lemma migrate_entry_known:
  assumes "\<And>n. mv_fault env n = None" and "mv_sha256 env contents \<noteq> []"
    and "me_isDir e \<or> me_contents e = Inr contents \<and> map_of (ledger_of u) (me_name e) = Some (mv_sha256 env contents)"
  shows "\<exists>n1. migrate_entry env e (n, u) = Inr (n1, u)"
  using assms by (auto simp: migrate_entry_def statement_at_def Let_def)

lemma migrate_entries_known:
  assumes "\<And>n. mv_fault env n = None"
    and "\<And>e. e \<in> set es \<Longrightarrow> \<exists>contents. mv_sha256 env contents \<noteq> [] \<and>
      (me_isDir e \<or> me_contents e = Inr contents \<and> map_of (ledger_of u) (me_name e) = Some (mv_sha256 env contents))"
  shows "\<exists>n1. each (migrate_entry env) es (n, u) = Inr (n1, u)"
  using assms(2)
proof (induction es arbitrary: n)
  case (Cons e es)
  then obtain contents where "mv_sha256 env contents \<noteq> []"
    and "me_isDir e \<or> me_contents e = Inr contents \<and> map_of (ledger_of u) (me_name e) = Some (mv_sha256 env contents)"
    by (metis list.set_intros(1))
  from migrate_entry_known [OF assms(1) this, of n] obtain n1 where "migrate_entry env e (n, u) = Inr (n1, u)" by blast
  with Cons.IH [of n1] Cons.prems show ?case by simp
qed simp

lemma migrate_entries_readable:
  assumes "each (migrate_entry env) es t = Inr t1" and "e \<in> set es" and "\<not> me_isDir e"
  shows "\<exists>contents. me_contents e = Inr contents"
  using assms
proof (induction es arbitrary: t)
  case (Cons x es)
  from Cons.prems(1) obtain t2 where x: "migrate_entry env x t = Inr t2" and "each (migrate_entry env) es t2 = Inr t1"
    by (auto simp: and_then_eq_Inr)
  with Cons show ?case by (cases "e = x") (auto simp: migrate_entry_def split: sum.splits)
qed simp

text \<open>
  C22. Migrations are applied once. A successful run leaves every script in the ledger with its
  checksum and has executed exactly the scripts the ledger did not have, in the order of their
  names; running it again, with whatever the scripts would do then, changes nothing and succeeds. A run that
  fails leaves the database as it was, unless it is the commit that was not acknowledged.
\<close>

theorem migrations_applied_once:
  assumes "Migrate env (Inr entries) db = (db1, None)" and "distinct (map me_name entries)" and "distinct (map fst (ledger_of db))"
    and "\<And>c. mv_sha256 env c \<noteq> []" and "mv_sha256 env2 = mv_sha256 env" and "mv_begin env2 = None" and "\<And>n. mv_fault env2 n = None"
    and "mv_commit env2 = Committed"
  shows "sc_ledger db1 = Some (ledger_of db @ map (\<lambda>(name, c). (name, mv_sha256 env c)) (pending (ledger_of db) (scripts entries))) \<and>
    run_scripts (mv_run env) (map snd (pending (ledger_of db) (scripts entries))) (sc_schema db) = Inr (sc_schema db1) \<and>
    list_all (\<lambda>(name, c). map_of (ledger_of db1) name = Some (mv_sha256 env c)) (scripts entries) \<and>
    Migrate env2 (Inr entries) db1 = (db1, None) \<and>
    (case Migrate env3 listing db2 of (db3, None) \<Rightarrow> True | (db3, Some e) \<Rightarrow> db3 = db2 \<or> (\<exists>m. e = CommitMigrations m))"
proof -
  note m = Migrate_migrated [OF assms(1-4)]
  then have ledger: "sc_ledger db1 = Some (ledger_of db1)" by (simp add: migrated_def Let_def ledger_of_def)
  obtain t t1 where loop: "each (migrate_entry env) (sort_key me_name entries) t = Inr t1"
    using assms(1) by (auto simp: Migrate_def and_then_eq_Inr split: option.splits sum.splits commit_outcome.splits)
  have "\<exists>contents. mv_sha256 env2 contents \<noteq> [] \<and>
      (me_isDir e \<or> me_contents e = Inr contents \<and> map_of (ledger_of db1) (me_name e) = Some (mv_sha256 env2 contents))"
    if e: "e \<in> set (sort_key me_name entries)" for e
  proof (cases "me_isDir e")
    case False
    obtain contents where c: "me_contents e = Inr contents" using migrate_entries_readable [OF loop e False] by blast
    then have "(me_name e, contents) \<in> set (scripts entries)" using e False by (force simp: scripts_def)
    with m c show ?thesis using assms(4,5) by (auto simp: migrated_def Let_def list_all_iff)
  qed (use assms(4,5) in auto)
  from migrate_entries_known [OF assms(7) this, where n = "Suc (Suc 0)"]
  obtain n1 where "each (migrate_entry env2) (sort_key me_name entries) (Suc (Suc 0), db1) = Inr (n1, db1)" by blast
  moreover have "db1\<lparr>sc_ledger := Some (ledger_of db1)\<rparr> = db1" using ledger by (cases db1) simp
  ultimately have "Migrate env2 (Inr entries) db1 = (db1, None)"
    using assms(6-8) by (simp add: Migrate_def statement_at_def create_ledger_def)
  moreover have "case Migrate env3 listing db2 of (db3, None) \<Rightarrow> True | (db3, Some e) \<Rightarrow> db3 = db2 \<or> (\<exists>m. e = CommitMigrations m)"
    by (auto simp: Migrate_def split: option.splits sum.splits commit_outcome.splits)
  ultimately show ?thesis using m by (simp add: migrated_def Let_def)
qed

definition sample_migrations :: "migration_entry list" where
  "sample_migrations = [\<lparr>me_name = go ''002'', me_isDir = False, me_contents = Inr (go ''b'')\<rparr>, \<lparr>me_name = go ''001'', me_isDir = False, me_contents = Inr (go ''a'')\<rparr>]"

definition sample_migrate_env :: "bytes list migrate_env" where
  "sample_migrate_env = \<lparr>mv_begin = None, mv_fault = (\<lambda>_. None), mv_commit = Committed, mv_sha256 = (\<lambda>c. 0 # widen c), mv_run = (\<lambda>c s. Inr (s @ [c]))\<rparr>"

theorem migrations_applied_once_witness:
  "\<exists>db1. Migrate sample_migrate_env (Inr sample_migrations) \<lparr>sc_ledger = None, sc_schema = []\<rparr> = (db1, None) \<and>
     sc_schema db1 = [go ''a'', go ''b''] \<and> Migrate sample_migrate_env (Inr sample_migrations) db1 = (db1, None)"
proof -
  let ?db = "\<lparr>sc_ledger = None, sc_schema = []\<rparr>"
  have run: "snd (Migrate sample_migrate_env (Inr sample_migrations) ?db) = None"
    "sc_schema (fst (Migrate sample_migrate_env (Inr sample_migrations) ?db)) = [go ''a'', go ''b'']" by code_simp+
  then obtain db1 where db1: "Migrate sample_migrate_env (Inr sample_migrations) ?db = (db1, None)" by (metis prod.collapse)
  have "Migrate sample_migrate_env (Inr sample_migrations) db1 = (db1, None)"
    using migrations_applied_once [OF db1, where ?env2.0 = sample_migrate_env and ?env3.0 = sample_migrate_env
        and listing = "Inl []" and ?db2.0 = ?db]
    by (simp add: sample_migrate_env_def sample_migrations_def ledger_of_def)
  with db1 run show ?thesis by simp
qed

end
