(* ===== verification/Startup.thy ===== *)
theory Startup
  imports Config Migrate
begin

text \<open>
  The life of the controller process, \<^verbatim>\<open>controller/cmd/nexustier-controller/main.go\<close>: \<^verbatim>\<open>run\<close> from the
  settings to the running parts and from the end of the server to the exit, the opening of the
  database pool in \<^verbatim>\<open>database.go\<close>, the construction of the gateway client in \<^verbatim>\<open>client.go\<close>, and the
  command that prints a password hash. The URL parser, the pool library, the terminal and what
  ends the process are arguments.
\<close>

section \<open>The gateway client\<close>

record parsed_url =
  pu_Scheme :: bytes
  pu_Host :: bytes
  pu_User :: bool

record gateway_client =
  gc_topologyURL :: bytes
  gc_timeout :: int

definition TrimRight :: "bytes \<Rightarrow> byte list \<Rightarrow> bytes" where
  "TrimRight s cutset = rev (dropWhile (\<lambda>c. c \<in> set cutset) (rev s))"

definition NewClient :: "(bytes \<Rightarrow> parsed_url result) \<Rightarrow> (parsed_url \<Rightarrow> bytes \<Rightarrow> bytes) \<Rightarrow> bytes \<Rightarrow> int \<Rightarrow> gateway_client result" where
  "NewClient parse resolve baseURL timeout =
     and_then (wrap_error ''parse gateway URL'' (parse (TrimRight baseURL (go ''/'') @ go ''/''))) (\<lambda>parsed.
       if pu_Scheme parsed \<noteq> go ''http'' \<and> pu_Scheme parsed \<noteq> go ''https''
       then Inl (js ''gateway URL must use http or https'')
       else if pu_Host parsed = [] \<or> pu_User parsed
       then Inl (js ''gateway URL must include a host and must not include user info'')
       else Inr \<lparr>gc_topologyURL = resolve parsed (go ''v1/topology''), gc_timeout = timeout\<rparr>)"

section \<open>The database pool\<close>

record pool_config =
  pl_MaxConns :: nat
  pl_MinConns :: nat
  pl_MaxConnLifetime :: int
  pl_MaxConnIdleTime :: int

text \<open>The library parses the URL, creates the pool and pings; each may fail.\<close>

record pool_env =
  pe_parse :: "bytes \<Rightarrow> unit result"
  pe_create :: "pool_config \<Rightarrow> unit result"
  pe_ping :: "unit result"

definition Open :: "pool_env \<Rightarrow> bytes \<Rightarrow> pool_config result" where
  "Open pe databaseURL =
     and_then (wrap_error ''parse database URL'' (pe_parse pe databaseURL)) (\<lambda>_.
       let config = \<lparr>pl_MaxConns = 8, pl_MinConns = 1, pl_MaxConnLifetime = 30 * 60 * second, pl_MaxConnIdleTime = 5 * 60 * second\<rparr> in
       and_then (wrap_error ''create database pool'' (pe_create pe config)) (\<lambda>_.
       and_then (wrap_error ''ping database'' (pe_ping pe)) (\<lambda>_. Inr config)))"

section \<open>Start\<close>

datatype startup_error =
    InvalidSettings jsstr | NoProtector jsstr | NoDatabase jsstr | NotMigrated migrate_error | NoClient jsstr

record process =
  pc_settings :: config
  pc_guard :: "guard option"
  pc_pool :: pool_config
  pc_client :: gateway_client
  pc_worker :: worker
  pc_cleaner :: cleaner

record 's startup_env =
  su_sys :: sysenv
  su_rand :: entropy
  su_pool :: pool_env
  su_migrate :: "'s migrate_env"
  su_listing :: "migration_entry list result"
  su_parse :: "bytes \<Rightarrow> parsed_url result"
  su_resolve :: "parsed_url \<Rightarrow> bytes \<Rightarrow> bytes"

definition startup :: "'s startup_env \<Rightarrow> 's schema_db \<Rightarrow> 's schema_db \<times> (startup_error + process)" where
  "startup env db =
     (case Load (su_sys env) of
        Inl e \<Rightarrow> (db, Inl (InvalidSettings e))
      | Inr settings \<Rightarrow>
     (case newProtector (su_sys env) (su_rand env) settings of
        Inl e \<Rightarrow> (db, Inl (NoProtector e))
      | Inr protect \<Rightarrow>
     (case Open (su_pool env) (cf_DatabaseURL settings) of
        Inl e \<Rightarrow> (db, Inl (NoDatabase e))
      | Inr pool \<Rightarrow>
     (case Migrate (su_migrate env) (su_listing env) db of
        (db1, Some e) \<Rightarrow> (db1, Inl (NotMigrated e))
      | (db1, None) \<Rightarrow>
     (case NewClient (su_parse env) (su_resolve env) (cf_GatewayURL settings) (cf_RequestTimeout settings) of
        Inl e \<Rightarrow> (db1, Inl (NoClient e))
      | Inr client \<Rightarrow>
          (db1, Inr \<lparr>pc_settings = settings, pc_guard = protect, pc_pool = pool, pc_client = client,
             pc_worker = NewWorker (cf_PollInterval settings) (cf_PollJitter settings) (cf_RequestTimeout settings),
             pc_cleaner = NewCleaner (cf_MetricRetention settings) (cf_CleanupInterval settings) (cf_CleanupBatchSize settings)\<rparr>))))))"

section \<open>Shutdown\<close>

text \<open>The process ends on a signal or when the server stops, with an error unless it was closed.\<close>

datatype stop_cause = SignalReceived | ServerStopped jsstr bool

record shutdown_env =
  sh_server :: "jsstr option"
  sh_workerDone :: bool
  sh_retentionDone :: bool
  sh_ctxErr :: jsstr

definition await_done :: "bool \<Rightarrow> jsstr \<Rightarrow> jsstr option \<Rightarrow> jsstr option" where
  "await_done finished ctxErr serveError =
     (if finished then serveError else case serveError of None \<Rightarrow> Some ctxErr | Some e \<Rightarrow> Some e)"

definition shutdown :: "stop_cause \<Rightarrow> shutdown_env \<Rightarrow> jsstr option" where
  "shutdown cause env =
     (let serveError = (case cause of SignalReceived \<Rightarrow> None | ServerStopped err wasClosed \<Rightarrow> if wasClosed then None else Some err);
          serveError = (case (sh_server env, serveError) of (Some e, None) \<Rightarrow> Some e | _ \<Rightarrow> serveError);
          serveError = await_done (sh_workerDone env) (sh_ctxErr env) serveError
      in await_done (sh_retentionDone env) (sh_ctxErr env) serveError)"

section \<open>Printing a password hash\<close>

definition newline :: byte where
  "newline = 10"

definition read_line :: "bytes \<Rightarrow> bytes" where
  "read_line buf = (let line = takeWhile (\<lambda>c. c \<noteq> newline) buf in if newline \<in> set buf then line @ [newline] else line)"

text \<open>An error of the terminal counts only when no line came before it.\<close>

definition printPasswordHash :: "crypto \<Rightarrow> entropy \<Rightarrow> bytes \<Rightarrow> jsstr option \<Rightarrow> jsstr option \<Rightarrow> bytes result" where
  "printPasswordHash cr rand input readError writeError =
     (let buf = take 1024 input; line = read_line buf in
      if newline \<notin> set buf \<and> length buf < 1024 \<and> readError \<noteq> None then Inl (the readError)
      else let password = TrimRight line [13, 10] in
        if password = [] then Inl (js ''password must not be empty'')
        else and_then (HashPassword cr rand password) (\<lambda>hash.
          case writeError of None \<Rightarrow> Inr (hash @ [newline]) | Some e \<Rightarrow> Inl e))"

section \<open>The exit code\<close>

text \<open>\<^verbatim>\<open>main\<close>: the terminal is the input, the error of reading it and the error of writing to it.\<close>

record terminal =
  tm_input :: bytes
  tm_readError :: "jsstr option"
  tm_writeError :: "jsstr option"

definition main_exit :: "bool \<Rightarrow> crypto \<Rightarrow> terminal \<Rightarrow> 's startup_env \<Rightarrow> 's schema_db \<Rightarrow> stop_cause \<Rightarrow> shutdown_env \<Rightarrow> 's schema_db \<times> nat" where
  "main_exit hashPassword cr tm env db cause sh =
     (if hashPassword
      then (db, case printPasswordHash cr (su_rand env) (tm_input tm) (tm_readError tm) (tm_writeError tm) of Inl e \<Rightarrow> 1 | Inr printed \<Rightarrow> 0)
      else case startup env db of
        (db1, Inl e) \<Rightarrow> (db1, 1)
      | (db1, Inr p) \<Rightarrow> (db1, if shutdown cause sh = None then 0 else 1))"

section \<open>A process that runs\<close>

lemma durationEnv_bound:
  assumes "durationEnv se name fallback = Inr d" and "fallback < b" and "\<And>text d. se_ParseDuration se text = Inr d \<Longrightarrow> d < b"
  shows "d < b"
  using assms by (auto simp: durationEnv_def split: if_splits sum.splits)

lemma Load_interval:
  assumes "Load se = Inr cfg" and "\<And>text d. se_ParseDuration se text = Inr d \<Longrightarrow> d < 2 ^ 63"
  shows "cf_PollInterval cfg < 2 ^ 63"
proof -
  have "durationEnv se ''NEXUSTIER_CONTROLLER_POLL_INTERVAL'' (cf_PollInterval (default_config se)) = Inr (cf_PollInterval cfg)"
    using assms(1) by (auto simp: Load_def Let_def and_then_eq_Inr)
  then show ?thesis by (rule durationEnv_bound [OF _ _ assms(2)]) (simp_all add: default_config_def second_def)
qed

lemma startup_Inr:
  assumes "startup env db = (db1, Inr p)"
  shows "Load (su_sys env) = Inr (pc_settings p)" and "newProtector (su_sys env) (su_rand env) (pc_settings p) = Inr (pc_guard p)"
    and "Migrate (su_migrate env) (su_listing env) db = (db1, None)"
    and "pc_worker p = NewWorker (cf_PollInterval (pc_settings p)) (cf_PollJitter (pc_settings p)) (cf_RequestTimeout (pc_settings p))"
    and "pc_cleaner p = NewCleaner (cf_MetricRetention (pc_settings p)) (cf_CleanupInterval (pc_settings p)) (cf_CleanupBatchSize (pc_settings p))"
    and "NewClient (su_parse env) (su_resolve env) (cf_GatewayURL (pc_settings p)) (cf_RequestTimeout (pc_settings p)) = Inr (pc_client p)"
  using assms by (auto simp: startup_def split: sum.splits prod.splits option.splits)

lemma NewClient_Inr:
  assumes "NewClient parse resolve baseURL timeout = Inr client"
  obtains u where "gc_topologyURL client = resolve u (go ''v1/topology'')" and "pu_Scheme u \<in> {go ''http'', go ''https''}"
    and "pu_Host u \<noteq> []" and "\<not> pu_User u"
proof -
  from assms obtain u where "(if pu_Scheme u \<noteq> go ''http'' \<and> pu_Scheme u \<noteq> go ''https''
       then Inl (js ''gateway URL must use http or https'')
       else if pu_Host u = [] \<or> pu_User u
       then Inl (js ''gateway URL must include a host and must not include user info'')
       else Inr \<lparr>gc_topologyURL = resolve u (go ''v1/topology''), gc_timeout = timeout\<rparr>) = Inr client"
    unfolding NewClient_def and_then_eq_Inr by blast
  then show thesis using that [of u] by (auto simp del: go_Cons js_Cons split: if_splits)
qed

lemma startup_Inl:
  assumes "startup env db = (db1, Inl e)"
  shows "case e of NotMigrated m \<Rightarrow> Migrate (su_migrate env) (su_listing env) db = (db1, Some m)
    | NoClient m \<Rightarrow> Migrate (su_migrate env) (su_listing env) db = (db1, None) | _ \<Rightarrow> db1 = db"
  using assms by (auto simp: startup_def split: sum.splits prod.splits option.splits)

text \<open>
  C32. What a process that runs can rely on. When the start succeeds, the database has every migration
  and the gateway is reached over HTTP without user information in its URL. Requests are unguarded
  only when authentication was disabled explicitly, or the mode is automatic and the listener is a
  loopback address; otherwise the guard uses exactly the configured user and hash, a key of at
  least 32 bytes and the configured positive lifetime, with a fresh limiter. The batches, the interval
  and the retention of the cleaner are positive. The pause between collections panics exactly when
  the jitter is \<open>2\<^sup>6\<^sup>2\<close> nanoseconds or more, which the settings do not exclude; otherwise it is positive and
  within the jitter around the interval, provided that the sum of the two fits 64 bits. When the
  start fails over the settings, the credential or the connection, the database is untouched. Durations
  that the library parses fit 64 bits.
\<close>

theorem startup_sound:
  assumes "startup env db = (db1, r)" and "su_listing env = Inr entries" and "distinct (map me_name entries)"
    and "distinct (map fst (ledger_of db))" and "\<And>c. mv_sha256 (su_migrate env) c \<noteq> []"
    and "\<And>n. 0 < n \<Longrightarrow> 0 \<le> int64n n \<and> int64n n < n"
    and "\<And>text d. se_ParseDuration (su_sys env) text = Inr d \<Longrightarrow> d < 2 ^ 63"
  shows "case r of
      Inl (NotMigrated m) \<Rightarrow> True
    | Inl (NoClient m) \<Rightarrow> True
    | Inl _ \<Rightarrow> db1 = db
    | Inr p \<Rightarrow>
        list_all (\<lambda>(name, c). map_of (ledger_of db1) name = Some (mv_sha256 (su_migrate env) c)) (scripts entries) \<and>
        (case pc_guard p of
           None \<Rightarrow> cf_AuthMode (pc_settings p) = go ''disabled'' \<or>
             cf_AuthMode (pc_settings p) = go ''auto'' \<and> isLoopbackAddress (su_sys env) (cf_ListenAddress (pc_settings p))
         | Some g \<Rightarrow> AuthRequired (su_sys env) (pc_settings p) \<and> cred_username (gd_credential g) = cf_AuthUsername (pc_settings p) \<and>
             \<not> blank (cf_AuthUsername (pc_settings p)) \<and> parseHash (cf_AuthPasswordHash (pc_settings p)) = Inr (cred_hash (gd_credential g)) \<and>
             32 \<le> length (sg_key (gd_signer g)) \<and> sg_ttl (gd_signer g) = cf_SessionTTL (pc_settings p) \<and>
             0 < cf_SessionTTL (pc_settings p) \<and> gd_limiter g = NewLoginLimiter) \<and>
        (\<exists>u. gc_topologyURL (pc_client p) = su_resolve env u (go ''v1/topology'') \<and> pu_Scheme u \<in> {go ''http'', go ''https''} \<and>
           pu_Host u \<noteq> [] \<and> \<not> pu_User u) \<and>
        (case next_wait int64n (pc_worker p) of
           None \<Rightarrow> 2 ^ 62 \<le> wk_jitter (pc_worker p)
         | Some d \<Rightarrow> wk_jitter (pc_worker p) < 2 ^ 62 \<and>
             (wk_interval (pc_worker p) + wk_jitter (pc_worker p) \<le> 2 ^ 63 \<longrightarrow>
                wk_interval (pc_worker p) - wk_jitter (pc_worker p) \<le> d \<and>
                d \<le> wk_interval (pc_worker p) + wk_jitter (pc_worker p) \<and> 0 < d)) \<and>
        0 < cl_batchSize (pc_cleaner p) \<and> 0 < cl_interval (pc_cleaner p) \<and> 0 < cl_retention (pc_cleaner p)"
proof (cases r)
  case (Inl e)
  then show ?thesis using startup_Inl [of env db db1 e] assms(1) by (auto split: startup_error.splits)
next
  case (Inr p)
  note st = startup_Inr [OF assms(1) [unfolded Inr]] and load = Load_Inr [OF startup_Inr(1) [OF assms(1) [unfolded Inr]]]
  have "migrated (su_migrate env) db (scripts entries) db1"
    using Migrate_migrated [of "su_migrate env" entries db db1] st(3) assms(2-5) by simp
  then have "list_all (\<lambda>(name, c). map_of (ledger_of db1) name = Some (mv_sha256 (su_migrate env) c)) (scripts entries)"
    by (simp add: migrated_def Let_def)
  moreover have "\<exists>u. gc_topologyURL (pc_client p) = su_resolve env u (go ''v1/topology'') \<and> pu_Scheme u \<in> {go ''http'', go ''https''} \<and>
      pu_Host u \<noteq> [] \<and> \<not> pu_User u"
    using NewClient_Inr [OF st(6)] by blast
  moreover have "case next_wait int64n (pc_worker p) of
      None \<Rightarrow> 2 ^ 62 \<le> wk_jitter (pc_worker p)
    | Some d \<Rightarrow> wk_jitter (pc_worker p) < 2 ^ 62 \<and>
        (wk_interval (pc_worker p) + wk_jitter (pc_worker p) \<le> 2 ^ 63 \<longrightarrow>
           wk_interval (pc_worker p) - wk_jitter (pc_worker p) \<le> d \<and>
           d \<le> wk_interval (pc_worker p) + wk_jitter (pc_worker p) \<and> 0 < d)"
    by (rule next_wait_exact)
      (use load(1-3) Load_interval [OF st(1)] assms(6,7) in \<open>simp_all add: st(4) NewWorker_def\<close>)
  moreover have "0 < cl_batchSize (pc_cleaner p)" and "0 < cl_interval (pc_cleaner p)" and "0 < cl_retention (pc_cleaner p)"
    using load(6-8) by (simp_all add: st(5) NewCleaner_def)
  ultimately show ?thesis
    using configuration_fails_closed [OF st(1), of "su_rand env"] unfolding Inr st(2) by (simp del: go_Cons)
qed

definition sample_startup_env :: "bytes list startup_env" where
  "sample_startup_env =
     \<lparr>su_sys = sample_sysenv, su_rand = sample_entropy,
      su_pool = \<lparr>pe_parse = (\<lambda>_. Inr ()), pe_create = (\<lambda>_. Inr ()), pe_ping = Inr ()\<rparr>,
      su_migrate = sample_migrate_env, su_listing = Inr sample_migrations,
      su_parse = (\<lambda>u. Inr \<lparr>pu_Scheme = go ''http'', pu_Host = u, pu_User = False\<rparr>),
      su_resolve = (\<lambda>u path. pu_Host u @ path)\<rparr>"

abbreviation "empty_schema \<equiv> \<lparr>sc_ledger = None, sc_schema = []\<rparr> :: bytes list schema_db"

lemma Load_unchanged:
  assumes "Load se = Inr cfg"
  shows "cf_ListenAddress cfg = cf_ListenAddress (default_config se)" and "cf_AuthMode cfg = cf_AuthMode (default_config se)"
  using assms by (auto simp: Load_def Let_def and_then_eq_Inr)

lemma sample_unguarded:
  assumes "Load sample_sysenv = Inr cfg"
  shows "\<not> AuthRequired sample_sysenv cfg"
proof -
  have "map_option fst (split_host_port (go ''127.0.0.1:8080'')) = Some (go ''127.0.0.1'')"
    by (simp add: split_host_port_def last_index_of_def)
  then have "isLoopbackAddress sample_sysenv (go ''127.0.0.1:8080'')"
    by (auto simp: isLoopbackAddress_def sample_sysenv_def split: option.splits)
  moreover have "cf_ListenAddress cfg = go ''127.0.0.1:8080''" and "cf_AuthMode cfg = AuthModeAuto"
    using Load_unchanged [OF assms] by (simp_all add: default_config_def env_or_def sample_getenv del: go_Cons)
  ultimately show ?thesis by (simp add: AuthRequired_def AuthModeAuto_def AuthModeRequired_def del: go_Cons) simp
qed

lemma sample_startup: "\<exists>db1 p. startup sample_startup_env empty_schema = (db1, Inr p)"
proof -
  obtain cfg where load: "Load sample_sysenv = Inr cfg" using sample_config by blast
  from sample_unguarded [OF load] have cfg: "newProtector sample_sysenv sample_entropy cfg = Inr None" by (simp add: newProtector_def)
  have "snd (Migrate sample_migrate_env (Inr sample_migrations) empty_schema) = None" by code_simp
  then obtain db1 where "Migrate sample_migrate_env (Inr sample_migrations) empty_schema = (db1, None)"
    by (metis prod.collapse)
  moreover have "\<exists>client. NewClient (su_parse sample_startup_env) (su_resolve sample_startup_env) (cf_GatewayURL cfg) (cf_RequestTimeout cfg) = Inr client"
    by (simp add: NewClient_def sample_startup_env_def wrap_error_def)
  moreover have "\<exists>pool. Open (su_pool sample_startup_env) (cf_DatabaseURL cfg) = Inr pool"
    by (simp add: Open_def sample_startup_env_def wrap_error_def Let_def)
  ultimately show ?thesis using cfg load by (auto simp: startup_def sample_startup_env_def)
qed

theorem startup_sound_witness:
  "\<exists>db1 p. startup sample_startup_env empty_schema = (db1, Inr p) \<and>
     list_all (\<lambda>(name, c). map_of (ledger_of db1) name = Some (mv_sha256 sample_migrate_env c)) (scripts sample_migrations)"
proof -
  obtain db1 p where run: "startup sample_startup_env empty_schema = (db1, Inr p)" using sample_startup by blast
  have migrate: "su_migrate sample_startup_env = sample_migrate_env" by (simp add: sample_startup_env_def)
  have "su_listing sample_startup_env = Inr sample_migrations" by (simp add: sample_startup_env_def)
  moreover have "distinct (map me_name sample_migrations)" by (simp add: sample_migrations_def)
  moreover have "distinct (map fst (ledger_of empty_schema))" by (simp add: ledger_of_def)
  moreover have "\<And>c. mv_sha256 (su_migrate sample_startup_env) c \<noteq> []" by (simp add: sample_startup_env_def sample_migrate_env_def)
  moreover have "\<And>n. 0 < n \<Longrightarrow> 0 \<le> (0::int) \<and> 0 < n" by simp
  moreover have "\<And>text d. se_ParseDuration (su_sys sample_startup_env) text = Inr d \<Longrightarrow> d < 2 ^ 63"
    by (simp add: sample_startup_env_def sample_sysenv_def)
  ultimately have "list_all (\<lambda>(name, c). map_of (ledger_of db1) name = Some (mv_sha256 (su_migrate sample_startup_env) c)) (scripts sample_migrations)"
    using startup_sound [OF run, of sample_migrations "\<lambda>_. 0", unfolded sum.case] by blast
  with run show ?thesis unfolding migrate by blast
qed

text \<open>
  Settings that load and make the worker panic at its first pause: an interval of two million hours and
  a jitter of one and a half million.
\<close>

definition slow_sysenv :: sysenv where
  "slow_sysenv = sample_sysenv
     \<lparr>se_getenv := (\<lambda>name. if name = ''NEXUSTIER_CONTROLLER_POLL_INTERVAL'' then go ''2000000h''
        else if name = ''NEXUSTIER_CONTROLLER_POLL_JITTER'' then go ''1500000h'' else se_getenv sample_sysenv name),
      se_ParseDuration := (\<lambda>text. if text = go ''2000000h'' then Inr (2000000 * 3600 * second)
        else if text = go ''1500000h'' then Inr (1500000 * 3600 * second) else Inl [])\<rparr>"

lemma slow_getenv:
  "se_getenv slow_sysenv name = (if name = ''NEXUSTIER_CONTROLLER_POLL_INTERVAL'' then go ''2000000h''
     else if name = ''NEXUSTIER_CONTROLLER_POLL_JITTER'' then go ''1500000h'' else se_getenv sample_sysenv name)"
  by (simp add: slow_sysenv_def del: go_Cons)

lemma slow_durations:
  "durationEnv slow_sysenv ''NEXUSTIER_CONTROLLER_POLL_INTERVAL'' d = Inr (2000000 * 3600 * second)"
  "durationEnv slow_sysenv ''NEXUSTIER_CONTROLLER_POLL_JITTER'' d = Inr (1500000 * 3600 * second)"
  by (simp_all add: durationEnv_def slow_getenv) (simp_all add: slow_sysenv_def)

lemma slow_unset:
  "durationEnv slow_sysenv ''NEXUSTIER_CONTROLLER_REQUEST_TIMEOUT'' d = Inr d"
  "durationEnv slow_sysenv ''NEXUSTIER_CONTROLLER_SHUTDOWN_TIMEOUT'' d = Inr d"
  "durationEnv slow_sysenv ''NEXUSTIER_CONTROLLER_METRIC_RETENTION'' d = Inr d"
  "durationEnv slow_sysenv ''NEXUSTIER_CONTROLLER_CLEANUP_INTERVAL'' d = Inr d"
  "durationEnv slow_sysenv ''NEXUSTIER_CONTROLLER_SESSION_TTL'' d = Inr d"
  "positiveIntEnv slow_sysenv ''NEXUSTIER_CONTROLLER_CLEANUP_BATCH_SIZE'' n = Inr n"
  "boolEnv slow_sysenv ''NEXUSTIER_CONTROLLER_SECURE_COOKIE'' b = Inr b"
  by (simp_all add: durationEnv_def positiveIntEnv_def boolEnv_def slow_getenv sample_getenv)

lemma slow_fields:
  "cf_ListenAddress (default_config slow_sysenv) = go ''127.0.0.1:8080''" "cf_AuthMode (default_config slow_sysenv) = AuthModeAuto"
  "cf_DatabaseURL (default_config slow_sysenv) = go ''postgres://db''" "cf_GatewayURL (default_config slow_sysenv) = go ''http://127.0.0.1:11211''"
  by (simp_all add: default_config_def env_or_def slow_getenv sample_getenv del: go_Cons)

lemma default_durations:
  "0 < cf_RequestTimeout (default_config se)" "0 < cf_ShutdownTimeout (default_config se)" "0 < cf_MetricRetention (default_config se)"
  "0 < cf_CleanupInterval (default_config se)" "0 < cf_SessionTTL (default_config se)"
  by (simp_all add: default_config_def second_def)

lemma slow_settings_load:
  "\<exists>cfg. Load slow_sysenv = Inr cfg \<and>
    next_wait int64n (NewWorker (cf_PollInterval cfg) (cf_PollJitter cfg) (cf_RequestTimeout cfg)) = None"
proof -
  have "map_option fst (split_host_port (go ''127.0.0.1:8080'')) = Some (go ''127.0.0.1'')"
    by (simp add: split_host_port_def last_index_of_def)
  then have loopback: "isLoopbackAddress slow_sysenv (go ''127.0.0.1:8080'')"
    by (auto simp: isLoopbackAddress_def slow_sysenv_def sample_sysenv_def split: option.splits)
  have url: "parseURL slow_sysenv (go ''postgres://db'') kind = Inr ()" "parseURL slow_sysenv (go ''http://127.0.0.1:11211'') kind = Inr ()" for kind
    by (simp_all add: parseURL_def slow_sysenv_def sample_sysenv_def)
  have auth: "validateAuth slow_sysenv cfg = Inr ()"
    if "cf_ListenAddress cfg = go ''127.0.0.1:8080''" and "cf_AuthMode cfg = AuthModeAuto" and "0 < cf_SessionTTL cfg" for cfg
    using that loopback by (simp add: validateAuth_def AuthRequired_def del: go_Cons) (simp add: AuthModeAuto_def AuthModeRequired_def)
  have nonempty: "go ''postgres://db'' \<noteq> []" by simp
  let ?cfg = "(default_config slow_sysenv)\<lparr>cf_PollInterval := 2000000 * 3600 * second, cf_PollJitter := 1500000 * 3600 * second\<rparr>"
  have "validateAuth slow_sysenv ?cfg = Inr ()" by (rule auth) (simp_all add: slow_fields default_durations del: go_Cons)
  moreover have "\<not> second \<le> 0" by (simp add: second_def)
  moreover note nonempty default_durations [of slow_sysenv]
  ultimately have "Load slow_sysenv = Inr ?cfg"
    unfolding Load_def Let_def slow_durations slow_unset slow_fields require_def
    by (simp add: url del: go_Cons)
  moreover have "next_wait int64n (NewWorker (2000000 * 3600 * second) (1500000 * 3600 * second) t) = None" for t
    by (simp add: next_wait_def NewWorker_def wrap64_def second_def)
  ultimately show ?thesis by simp
qed


section \<open>The password command\<close>

lemma read_line_found:
  assumes "newline \<notin> set password" and "length password < 1024"
  shows "read_line (take 1024 (password @ newline # rest)) = password @ [newline]"
proof -
  have "takeWhile (\<lambda>c. c \<noteq> newline) (password @ newline # xs) = password" for xs
    using assms(1) by (induction password) auto
  then show ?thesis using assms by (simp add: read_line_def Let_def take_Cons')
qed

lemma TrimRight_line:
  assumes "password \<noteq> []" and "10 \<notin> set password" and "13 \<notin> set password"
  shows "TrimRight (password @ [newline]) [13, 10] = password"
proof -
  have "dropWhile (\<lambda>c. c \<in> set [13, 10]) (rev password) = rev password"
    using assms last_in_set [OF assms(1)] by (metis dropWhile_eq_self_iff empty_iff hd_rev list.set(1) set_ConsD)
  then show ?thesis by (simp add: TrimRight_def newline_def)
qed

text \<open>
  C34. The printed hash lets the operator in. For a line with a password of up to 1023 bytes, the
  command prints one line; the hash on it is accepted as a credential, and the credential accepts
  exactly the configured user with that password, or with one that derives the same key.
\<close>

theorem printed_hash_accepted:
  assumes "pbkdf2_ok cr" and "entropy_ok rand" and "\<not> blank username"
    and "password \<noteq> []" and "10 \<notin> set password" and "13 \<notin> set password" and "length password < 1024"
    and "printPasswordHash cr rand (password @ newline # rest) readError writeError = Inr printed"
  shows "\<exists>encoded credential salt. printed = encoded @ [newline] \<and> NewCredential username encoded = Inr credential \<and> rand 16 = Inr salt \<and>
    Credential_Verify cr credential username password \<and>
    (\<forall>u p. Credential_Verify cr credential u p \<longleftrightarrow> u = username \<and> cr_pbkdf2 cr p salt 600000 32 = cr_pbkdf2 cr password salt 600000 32)"
proof -
  have found: "newline \<in> set (take 1024 (password @ newline # rest))" using assms(7) by (simp add: take_Cons')
  have line: "read_line (take 1024 (password @ newline # rest)) = password @ [newline]"
    using assms(5,7) by (intro read_line_found) (simp_all add: newline_def)
  obtain encoded where "HashPassword cr rand password = Inr encoded" and printed: "printed = encoded @ [newline]"
    using assms(8) assms(4) unfolding printPasswordHash_def Let_def line TrimRight_line [OF assms(4-6)]
    by (auto simp: found and_then_eq_Inr simp del: take_append split: option.splits)
  from HashPassword_roundtrip [OF assms(1-3) this(1)] printed show ?thesis by blast
qed

theorem printed_hash_accepted_witness:
  "\<exists>encoded credential. printPasswordHash sample_crypto sample_entropy (go ''secret'' @ [newline]) None None = Inr (encoded @ [newline]) \<and>
     NewCredential (go ''admin'') encoded = Inr credential \<and> Credential_Verify sample_crypto credential (go ''admin'') (go ''secret'')"
proof -
  obtain encoded where "HashPassword sample_crypto sample_entropy (go ''secret'') = Inr encoded"
    by (auto simp: HashPassword_def sample_entropy_def sample_crypto_def wrap_error_def)
  then have "printPasswordHash sample_crypto sample_entropy (go ''secret'' @ [newline]) None None = Inr (encoded @ [newline])"
    by (simp add: printPasswordHash_def read_line_def TrimRight_def newline_def)
  with printed_hash_accepted [OF sample_ok _ _ _ _ _ this, of "go ''admin''"] show ?thesis by auto
qed

text \<open>A longer line is cut off without notice.\<close>

lemma long_line_cut: "length p = 1024 \<Longrightarrow> printPasswordHash cr rand (p @ q) readError writeError = printPasswordHash cr rand p readError writeError"
  by (simp add: printPasswordHash_def)

end
