(* ===== verification/Gateway.thy ===== *)
theory Gateway
  imports Snapshot Event_System
begin

text \<open>
  The sessions of the gateway: \<^verbatim>\<open>session.rs\<close>, \<^verbatim>\<open>session_pool.rs\<close> and the acceptance of clients in
  \<^verbatim>\<open>gateway.rs\<close> under \<^verbatim>\<open>crates/nexustier-gateway/src/\<close>. Sessions are objects that the accepting task, the
  pool and the RPC service share, so they live in a store and the pool keeps addresses. Each
  connection is served by a task of its own; the tasks, heartbeats and disconnections interleave
  freely. The tunnel, the RPC machinery and the messages' wire format are EasyTier's: what they
  deliver is the argument of an event. A critical section of a lock is one step.
\<close>

section \<open>Sessions\<close>

record device_os =
  dv_os_type :: jsstr
  dv_version :: jsstr
  dv_distribution :: jsstr

record heartbeat_request =
  hb_machine_id :: "uuid option"
  hb_user_token :: jsstr
  hb_hostname :: jsstr
  hb_easytier_version :: jsstr
  hb_report_time :: jsstr
  hb_running_network_instances :: "uuid list"
  hb_device_os :: "device_os option"

record session_state =
  ss_remote_url :: jsstr
  ss_heartbeat :: "heartbeat_request option"
  ss_connected_at_ms :: "64 word"
  ss_last_heartbeat_at_ms :: "64 word"

text \<open>
  A session with the service registered for it: its state, whether the tunnel is secure, the token
  it asks for, the value of the watch channel, and whether the RPC manager runs.
\<close>

record gateway_session =
  gs_state :: session_state
  gs_secure :: bool
  gs_admission_token :: "jsstr option"
  gs_notified :: "heartbeat_request option"
  gs_running :: bool

record session_snapshot =
  sx_remote_url :: jsstr
  sx_heartbeat :: heartbeat_request
  sx_connected_at_ms :: "64 word"
  sx_last_heartbeat_at_ms :: "64 word"

definition new_session :: "64 word \<Rightarrow> jsstr \<Rightarrow> bool \<Rightarrow> jsstr option \<Rightarrow> gateway_session" where
  "new_session now remote_url secure token =
     \<lparr>gs_state = \<lparr>ss_remote_url = remote_url, ss_heartbeat = None, ss_connected_at_ms = now, ss_last_heartbeat_at_ms = now\<rparr>,
      gs_secure = secure, gs_admission_token = token, gs_notified = None, gs_running = True\<rparr>"

datatype heartbeat_error = MissingMachineID | InsecureSession | TokenRejected | MachineIDChanged

definition heartbeat :: "64 word \<Rightarrow> heartbeat_request \<Rightarrow> gateway_session \<Rightarrow> heartbeat_error + gateway_session" where
  "heartbeat now request g =
     (case hb_machine_id request of
        None \<Rightarrow> Inl MissingMachineID
      | Some machine_id \<Rightarrow>
          if \<not> gs_secure g then Inl InsecureSession
          else if (case gs_admission_token g of None \<Rightarrow> False | Some expected \<Rightarrow> hb_user_token request \<noteq> expected)
          then Inl TokenRejected
          else if (case Option.bind (ss_heartbeat (gs_state g)) hb_machine_id of None \<Rightarrow> False | Some current \<Rightarrow> current \<noteq> machine_id)
          then Inl MachineIDChanged
          else Inr (g\<lparr>gs_state := (gs_state g)\<lparr>ss_heartbeat := Some request, ss_last_heartbeat_at_ms := now\<rparr>,
                      gs_notified := Some request\<rparr>))"

definition session_snapshot_of :: "gateway_session \<Rightarrow> session_snapshot result" where
  "session_snapshot_of g =
     (case ss_heartbeat (gs_state g) of
        None \<Rightarrow> Inl (js ''session has not received a heartbeat'')
      | Some hb \<Rightarrow> Inr \<lparr>sx_remote_url = ss_remote_url (gs_state g), sx_heartbeat = hb,
          sx_connected_at_ms = ss_connected_at_ms (gs_state g), sx_last_heartbeat_at_ms = ss_last_heartbeat_at_ms (gs_state g)\<rparr>)"

definition snapshot_machine_id :: "session_snapshot \<Rightarrow> uuid result" where
  "snapshot_machine_id s =
     (case hb_machine_id (sx_heartbeat s) of None \<Rightarrow> Inl (js ''heartbeat is missing machine_id'') | Some mid \<Rightarrow> Inr mid)"

text \<open>One round of the loop in \<^verbatim>\<open>wait_for_first_heartbeat\<close>; without a result it waits on.\<close>

definition wait_for_first_heartbeat :: "gateway_session \<Rightarrow> session_snapshot result option" where
  "wait_for_first_heartbeat g =
     (if gs_notified g \<noteq> None
      then Some (case ss_heartbeat (gs_state g) of
          None \<Rightarrow> Inl (js ''heartbeat notification arrived without state'')
        | Some hb \<Rightarrow> Inr \<lparr>sx_remote_url = ss_remote_url (gs_state g), sx_heartbeat = hb,
            sx_connected_at_ms = ss_connected_at_ms (gs_state g), sx_last_heartbeat_at_ms = ss_last_heartbeat_at_ms (gs_state g)\<rparr>)
      else if \<not> gs_running g then Some (Inl (js ''session closed before its first heartbeat''))
      else None)"

section \<open>The pool\<close>

type_synonym session_pool = "(uuid, nat) RBT.rbt"

definition pool_insert :: "uuid \<Rightarrow> nat \<Rightarrow> session_pool \<Rightarrow> session_pool \<times> nat option" where
  "pool_insert mid a pool = (RBT.insert mid a pool, RBT.lookup pool mid)"

definition remove_if_current :: "uuid \<Rightarrow> nat \<Rightarrow> session_pool \<Rightarrow> session_pool" where
  "remove_if_current mid a pool = (if RBT.lookup pool mid = Some a then RBT.delete mid pool else pool)"

definition pool_sessions :: "session_pool \<Rightarrow> nat list" where
  "pool_sessions pool = map snd (RBT.entries pool)"

section \<open>The gateway\<close>

text \<open>Where the task of a connection, \<^verbatim>\<open>accept_session\<close>, is.\<close>

datatype accept_phase = AwaitingHeartbeat | StoppingPrevious nat uuid | Serving uuid | Finished

record gateway =
  gw_admission_token :: "jsstr option"
  gw_sessions :: session_pool
  gw_heap :: "gateway_session list"
  gw_tasks :: "accept_phase list"

definition new_gateway :: "jsstr option \<Rightarrow> gateway" where
  "new_gateway token = \<lparr>gw_admission_token = token, gw_sessions = RBT.empty, gw_heap = [], gw_tasks = []\<rparr>"

text \<open>
  The steps of \<^verbatim>\<open>accept_session\<close>: the new session after the negotiation, a round of waiting, giving up
  after \<^verbatim>\<open>FIRST_HEARTBEAT_TIMEOUT\<close>, the stop of the session it replaces, and a round of the loop that
  watches the connection.
\<close>

definition accept_session :: "64 word \<Rightarrow> (jsstr \<times> bool) result \<Rightarrow> gateway \<Rightarrow> gateway" where
  "accept_session now negotiated G =
     (case negotiated of
        Inl _ \<Rightarrow> G
      | Inr (remote_url, secure) \<Rightarrow>
          G\<lparr>gw_heap := gw_heap G @ [new_session now remote_url secure (gw_admission_token G)],
            gw_tasks := gw_tasks G @ [AwaitingHeartbeat]\<rparr>)"

definition await_heartbeat :: "nat \<Rightarrow> gateway \<Rightarrow> gateway" where
  "await_heartbeat a G =
     (case wait_for_first_heartbeat (gw_heap G ! a) of
        None \<Rightarrow> G
      | Some r \<Rightarrow>
          (case and_then r snapshot_machine_id of
             Inl _ \<Rightarrow> G\<lparr>gw_tasks := (gw_tasks G)[a := Finished]\<rparr>
           | Inr mid \<Rightarrow>
               (case pool_insert mid a (gw_sessions G) of (pool, previous) \<Rightarrow>
                  G\<lparr>gw_sessions := pool,
                    gw_tasks := (gw_tasks G)[a := (case previous of None \<Rightarrow> Serving mid | Some b \<Rightarrow> StoppingPrevious b mid)]\<rparr>)))"

definition stop_session :: "nat \<Rightarrow> gateway \<Rightarrow> gateway" where
  "stop_session a G = G\<lparr>gw_heap := (gw_heap G)[a := (gw_heap G ! a)\<lparr>gs_running := False\<rparr>]\<rparr>"

definition stop_previous :: "nat \<Rightarrow> gateway \<Rightarrow> gateway" where
  "stop_previous a G =
     (case gw_tasks G ! a of
        StoppingPrevious b mid \<Rightarrow> (stop_session b G)\<lparr>gw_tasks := (gw_tasks G)[a := Serving mid]\<rparr>
      | _ \<Rightarrow> G)"

definition watch_session :: "nat \<Rightarrow> gateway \<Rightarrow> gateway" where
  "watch_session a G =
     (case gw_tasks G ! a of
        Serving mid \<Rightarrow>
          if gs_running (gw_heap G ! a) then G
          else G\<lparr>gw_sessions := remove_if_current mid a (gw_sessions G), gw_tasks := (gw_tasks G)[a := Finished]\<rparr>
      | _ \<Rightarrow> G)"

definition deliver_heartbeat :: "nat \<Rightarrow> 64 word \<Rightarrow> heartbeat_request \<Rightarrow> gateway \<Rightarrow> gateway" where
  "deliver_heartbeat a now request G =
     (case heartbeat now request (gw_heap G ! a) of
        Inl _ \<Rightarrow> G
      | Inr g \<Rightarrow> G\<lparr>gw_heap := (gw_heap G)[a := g]\<rparr>)"

datatype gateway_event =
    Accepted "64 word" "(jsstr \<times> bool) result"
  | AwaitRound nat
  | HeartbeatTimeout nat
  | StopPrevious nat
  | WatchRound nat
  | HeartbeatCall nat "64 word" heartbeat_request
  | Disconnected nat

fun gateway_enabled :: "gateway_event \<Rightarrow> gateway \<Rightarrow> bool" where
  "gateway_enabled (Accepted now negotiated) G = True"
| "gateway_enabled (AwaitRound a) G = (a < length (gw_heap G) \<and> gw_tasks G ! a = AwaitingHeartbeat)"
| "gateway_enabled (HeartbeatTimeout a) G = (a < length (gw_heap G) \<and> gw_tasks G ! a = AwaitingHeartbeat)"
| "gateway_enabled (StopPrevious a) G = (a < length (gw_heap G))"
| "gateway_enabled (WatchRound a) G = (a < length (gw_heap G))"
| "gateway_enabled (HeartbeatCall a now request) G = (a < length (gw_heap G))"
| "gateway_enabled (Disconnected a) G = (a < length (gw_heap G))"

fun gateway_exec :: "gateway_event \<Rightarrow> gateway \<Rightarrow> gateway" where
  "gateway_exec (Accepted now negotiated) G = accept_session now negotiated G"
| "gateway_exec (AwaitRound a) G = await_heartbeat a G"
| "gateway_exec (HeartbeatTimeout a) G = G\<lparr>gw_tasks := (gw_tasks G)[a := Finished]\<rparr>"
| "gateway_exec (StopPrevious a) G = stop_previous a G"
| "gateway_exec (WatchRound a) G = watch_session a G"
| "gateway_exec (HeartbeatCall a now request) G = deliver_heartbeat a now request G"
| "gateway_exec (Disconnected a) G = stop_session a G"

section \<open>Invariant\<close>

text \<open>The machine a session has authenticated as, and the one its task has registered it for.\<close>

definition session_machine :: "gateway_session \<Rightarrow> uuid option" where
  "session_machine g = Option.bind (ss_heartbeat (gs_state g)) hb_machine_id"

fun registered_as :: "accept_phase \<Rightarrow> uuid option" where
  "registered_as (StoppingPrevious b mid) = Some mid"
| "registered_as (Serving mid) = Some mid"
| "registered_as AwaitingHeartbeat = None"
| "registered_as Finished = None"

definition token_ok :: "jsstr option \<Rightarrow> heartbeat_request \<Rightarrow> bool" where
  "token_ok token hb \<longleftrightarrow> (case token of None \<Rightarrow> True | Some expected \<Rightarrow> hb_user_token hb = expected)"

text \<open>A session has a heartbeat only if it was admitted.\<close>

definition session_ok :: "jsstr option \<Rightarrow> gateway_session \<Rightarrow> bool" where
  "session_ok token g \<longleftrightarrow>
     gs_admission_token g = token \<and> gs_notified g = ss_heartbeat (gs_state g) \<and>
     (case ss_heartbeat (gs_state g) of None \<Rightarrow> True | Some hb \<Rightarrow> gs_secure g \<and> token_ok token hb \<and> hb_machine_id hb \<noteq> None)"

text \<open>
  The pool lists sessions under the machine they are registered for; a session that is registered
  and no longer listed has been stopped, or the task that replaced it is about to stop it.
\<close>

definition pool_ok :: "gateway \<Rightarrow> bool" where
  "pool_ok G \<longleftrightarrow>
     (\<forall>mid a. RBT.lookup (gw_sessions G) mid = Some a \<longrightarrow> a < length (gw_tasks G) \<and> registered_as (gw_tasks G ! a) = Some mid) \<and>
     (\<forall>a < length (gw_tasks G). \<forall>mid. registered_as (gw_tasks G ! a) = Some mid \<longrightarrow>
        session_machine (gw_heap G ! a) = Some mid \<and>
        (RBT.lookup (gw_sessions G) mid = Some a \<or> \<not> gs_running (gw_heap G ! a) \<or>
         (\<exists>c < length (gw_tasks G). gw_tasks G ! c = StoppingPrevious a mid)))"

definition gateway_inv :: "gateway \<Rightarrow> bool" where
  "gateway_inv G \<longleftrightarrow>
     length (gw_tasks G) = length (gw_heap G) \<and> list_all (session_ok (gw_admission_token G)) (gw_heap G) \<and> pool_ok G"


lemma heartbeat_ok:
  assumes "heartbeat now request g = Inr g1" and "session_ok token g"
  shows "session_ok token g1" and "gs_running g1 = gs_running g" and "session_machine g1 = hb_machine_id request"
    and "session_machine g = Some mid \<Longrightarrow> session_machine g1 = Some mid"
  using assms by (auto simp: heartbeat_def session_ok_def session_machine_def token_ok_def split: option.splits if_splits)

lemma session_ok_machine: "session_ok token g \<Longrightarrow> ss_heartbeat (gs_state g) = Some hb \<Longrightarrow> session_machine g = hb_machine_id hb \<and> hb_machine_id hb \<noteq> None"
  by (simp add: session_ok_def session_machine_def)

text \<open>Sessions keep their machine, and none starts to run again.\<close>

definition heap_grows :: "gateway_session list \<Rightarrow> gateway_session list \<Rightarrow> bool" where
  "heap_grows h h1 \<longleftrightarrow> length h \<le> length h1 \<and>
     (\<forall>a < length h. (\<forall>mid. session_machine (h ! a) = Some mid \<longrightarrow> session_machine (h1 ! a) = Some mid) \<and>
        (gs_running (h1 ! a) \<longrightarrow> gs_running (h ! a)))"

lemma heap_grows_refl [simp]: "heap_grows h h"
  by (simp add: heap_grows_def)

lemma heap_grows_trans: "heap_grows h h1 \<Longrightarrow> heap_grows h1 h2 \<Longrightarrow> heap_grows h h2"
  by (auto simp: heap_grows_def)

lemma heap_grows_append [simp]: "heap_grows h (h @ gs)"
  by (simp add: heap_grows_def nth_append)

lemma heap_grows_update:
  "(\<And>mid. session_machine (h ! a) = Some mid \<Longrightarrow> session_machine g = Some mid) \<Longrightarrow> (gs_running g \<Longrightarrow> gs_running (h ! a)) \<Longrightarrow>
     heap_grows h (h[a := g])"
  by (cases "a < length h") (auto simp: heap_grows_def nth_list_update list_update_beyond)

lemma session_machine_stop [simp]: "session_machine (g\<lparr>gs_running := r\<rparr>) = session_machine g"
  by (simp add: session_machine_def)

lemma session_ok_stop [simp]: "session_ok token (g\<lparr>gs_running := r\<rparr>) = session_ok token g"
  by (simp add: session_ok_def split: option.splits)

lemma gateway_exec_heap: "gateway_inv G \<Longrightarrow> gateway_enabled e G \<Longrightarrow> heap_grows (gw_heap G) (gw_heap (gateway_exec e G))"
proof (cases e)
  case (HeartbeatCall a now request)
  assume "gateway_inv G" and "gateway_enabled e G"
  then have "session_ok (gw_admission_token G) (gw_heap G ! a)" by (simp add: HeartbeatCall gateway_inv_def list_all_length)
  then show ?thesis
    by (auto simp: HeartbeatCall deliver_heartbeat_def heartbeat_ok(2,4) split: sum.splits intro!: heap_grows_update)
qed (auto simp: accept_session_def await_heartbeat_def pool_insert_def stop_previous_def watch_session_def stop_session_def
    split: sum.splits prod.splits option.splits accept_phase.splits intro!: heap_grows_update)

lemma gateway_exec_token [simp]: "gw_admission_token (gateway_exec e G) = gw_admission_token G"
  by (cases e) (auto simp: accept_session_def await_heartbeat_def pool_insert_def stop_previous_def watch_session_def
      stop_session_def deliver_heartbeat_def split: sum.splits prod.splits option.splits accept_phase.splits)

lemma gateway_exec_length:
  "length (gw_tasks G) = length (gw_heap G) \<Longrightarrow> length (gw_tasks (gateway_exec e G)) = length (gw_heap (gateway_exec e G))"
  by (cases e) (auto simp: accept_session_def await_heartbeat_def pool_insert_def stop_previous_def watch_session_def
      stop_session_def deliver_heartbeat_def split: sum.splits prod.splits option.splits accept_phase.splits)

lemma list_all_update: "list_all P xs \<Longrightarrow> P x \<Longrightarrow> list_all P (xs[i := x])"
  using set_update_subset_insert [of xs i x] by (auto simp: list_all_iff)

lemma gateway_exec_sessions:
  assumes "list_all (session_ok token) (gw_heap G)" and "gw_admission_token G = token" and "gateway_enabled e G"
  shows "list_all (session_ok token) (gw_heap (gateway_exec e G))"
proof -
  have ok: "session_ok token (gw_heap G ! a)" if "a < length (gw_heap G)" for a
    using assms(1) that by (simp add: list_all_length)
  have stop: "list_all (session_ok token) (gw_heap (stop_session a G))" for a
  proof (cases "a < length (gw_heap G)")
    case True
    then show ?thesis using assms(1) ok by (simp add: stop_session_def list_all_update)
  qed (simp add: stop_session_def assms(1) list_update_beyond)
  show ?thesis
  proof (cases e)
    case (Accepted now negotiated)
    have "session_ok token (new_session now url secure token)" for url secure by (simp add: session_ok_def new_session_def)
    with assms(1,2) show ?thesis by (simp add: Accepted accept_session_def split: sum.splits prod.splits)
  next
    case (HeartbeatCall a now request)
    with assms(1,3) ok show ?thesis
      by (auto simp: deliver_heartbeat_def heartbeat_ok(1) list_all_update split: sum.splits)
  next
    case (StopPrevious a)
    with assms(1) stop show ?thesis by (simp add: stop_previous_def split: accept_phase.splits)
  qed (use assms(1) stop in \<open>auto simp: await_heartbeat_def pool_insert_def watch_session_def split: option.splits sum.splits prod.splits accept_phase.splits\<close>)
qed

text \<open>The pool only depends on the machines of the sessions and on who may still be running.\<close>

lemma pool_ok_heap:
  assumes "pool_ok G" and "heap_grows (gw_heap G) h" and "length (gw_tasks G) = length (gw_heap G)"
  shows "pool_ok (G\<lparr>gw_heap := h\<rparr>)"
  using assms unfolding pool_ok_def heap_grows_def by simp


text \<open>
  A task that ends without having been registered, or whose session is not listed, changes nothing
  for the others.
\<close>

lemma pool_ok_finish:
  assumes "pool_ok G" and "a < length (gw_tasks G)" and "gw_tasks G ! a = AwaitingHeartbeat"
  shows "pool_ok (G\<lparr>gw_tasks := (gw_tasks G)[a := Finished]\<rparr>)"
proof -
  have "registered_as ((gw_tasks G)[a := Finished] ! b) = registered_as (gw_tasks G ! b)" for b
    using assms(2,3) by (cases "a = b") simp_all
  moreover have "(gw_tasks G)[a := Finished] ! c = StoppingPrevious b mid \<longleftrightarrow> gw_tasks G ! c = StoppingPrevious b mid" for b c mid
    using assms(2,3) by (cases "a = c") simp_all
  ultimately show ?thesis using assms(1) by (simp add: pool_ok_def)
qed

lemma pool_ok_register:
  assumes "pool_ok G" and a: "a < length (gw_tasks G)" "gw_tasks G ! a = AwaitingHeartbeat"
    and mid: "session_machine (gw_heap G ! a) = Some mid"
  shows "pool_ok (G\<lparr>gw_sessions := RBT.insert mid a (gw_sessions G),
    gw_tasks := (gw_tasks G)[a := (case RBT.lookup (gw_sessions G) mid of None \<Rightarrow> Serving mid | Some b \<Rightarrow> StoppingPrevious b mid)]\<rparr>)"
    (is "pool_ok ?G1")
proof -
  have other: "gw_tasks ?G1 ! b = gw_tasks G ! b" if "b \<noteq> a" for b using that by simp
  have self: "registered_as (gw_tasks ?G1 ! a) = Some mid" using a by (simp split: option.splits)
  have listed: "b < length (gw_tasks G) \<and> registered_as (gw_tasks G ! b) = Some m" if "RBT.lookup (gw_sessions G) m = Some b" for m b
    using assms(1) that by (simp add: pool_ok_def)
  have not_a: "b \<noteq> a" if "RBT.lookup (gw_sessions G) m = Some b" for m b
    using listed [OF that] a by auto
  have still: "\<exists>c < length (gw_tasks ?G1). gw_tasks ?G1 ! c = StoppingPrevious b m"
    if "c < length (gw_tasks G)" and "gw_tasks G ! c = StoppingPrevious b m" for b c m
  proof -
    have "c \<noteq> a" using that(2) a(2) by auto
    from other [OF this] that show ?thesis by (intro exI [of _ c]) simp
  qed
  have replaced: "\<exists>c < length (gw_tasks ?G1). gw_tasks ?G1 ! c = StoppingPrevious b mid" if "RBT.lookup (gw_sessions G) mid = Some b" for b
    using that a by (intro exI [of _ a]) simp
  have reg: "session_machine (gw_heap G ! b) = Some m \<and> (RBT.lookup (gw_sessions G) m = Some b \<or> \<not> gs_running (gw_heap G ! b) \<or>
      (\<exists>c < length (gw_tasks G). gw_tasks G ! c = StoppingPrevious b m))"
    if "b < length (gw_tasks G)" and "registered_as (gw_tasks G ! b) = Some m" for b m
    using assms(1) that by (simp add: pool_ok_def)
  show ?thesis
    unfolding pool_ok_def
  proof (intro conjI allI impI)
    fix m b
    assume b: "RBT.lookup (gw_sessions ?G1) m = Some b"
    have "b < length (gw_tasks ?G1) \<and> registered_as (gw_tasks ?G1 ! b) = Some m"
    proof (cases "m = mid")
      case True
      with b self a show ?thesis by simp
    next
      case False
      with b have old: "RBT.lookup (gw_sessions G) m = Some b" by simp
      from listed [OF old] other [OF not_a [OF old]] show ?thesis by simp
    qed
    then show "b < length (gw_tasks ?G1)" and "registered_as (gw_tasks ?G1 ! b) = Some m" by simp_all
  next
    fix b m
    assume b: "b < length (gw_tasks ?G1)" "registered_as (gw_tasks ?G1 ! b) = Some m"
    have "session_machine (gw_heap G ! b) = Some m \<and> (RBT.lookup (gw_sessions ?G1) m = Some b \<or> \<not> gs_running (gw_heap G ! b) \<or>
      (\<exists>c < length (gw_tasks ?G1). gw_tasks ?G1 ! c = StoppingPrevious b m))"
    proof (cases "b = a")
      case True
      then show ?thesis using b self mid by simp
    next
      case False
      with b other have "b < length (gw_tasks G)" "registered_as (gw_tasks G ! b) = Some m" by simp_all
      from reg [OF this] show ?thesis using still replaced by (cases "m = mid") auto
    qed
    then show "session_machine (gw_heap ?G1 ! b) = Some m" and
      "RBT.lookup (gw_sessions ?G1) m = Some b \<or> \<not> gs_running (gw_heap ?G1 ! b) \<or>
      (\<exists>c < length (gw_tasks ?G1). gw_tasks ?G1 ! c = StoppingPrevious b m)" by simp_all
  qed
qed


lemma pool_ok_stop_previous:
  assumes "pool_ok G" and a: "a < length (gw_tasks G)" "gw_tasks G ! a = StoppingPrevious b mid"
    and len: "length (gw_tasks G) = length (gw_heap G)"
  shows "pool_ok ((stop_session b G)\<lparr>gw_tasks := (gw_tasks G)[a := Serving mid]\<rparr>)"
proof -
  let ?G1 = "(stop_session b G)\<lparr>gw_tasks := (gw_tasks G)[a := Serving mid]\<rparr>"
  have reg: "registered_as (gw_tasks ?G1 ! c) = registered_as (gw_tasks G ! c)" for c
    using a by (cases "c = a") simp_all
  have machine: "session_machine (gw_heap ?G1 ! c) = session_machine (gw_heap G ! c)"
    and running: "gs_running (gw_heap ?G1 ! c) \<Longrightarrow> gs_running (gw_heap G ! c) \<and> (c < length (gw_heap G) \<longrightarrow> c \<noteq> b)" for c
    by (cases "b < length (gw_heap G)"; cases "c = b"; simp add: stop_session_def list_update_beyond)+
  have stopping: "gw_tasks ?G1 ! c = StoppingPrevious d m" if "gw_tasks G ! c = StoppingPrevious d m" and "d \<noteq> b" for c d m
    using that a by (cases "c = a") simp_all
  have "registered_as (gw_tasks G ! c) = Some m \<longrightarrow> session_machine (gw_heap G ! c) = Some m \<and>
      (RBT.lookup (gw_sessions G) m = Some c \<or> \<not> gs_running (gw_heap ?G1 ! c) \<or>
      (\<exists>d < length (gw_tasks G). gw_tasks ?G1 ! d = StoppingPrevious c m))" if "c < length (gw_tasks G)" for c m
    using assms(1) that running [of c] stopping [of _ c m] len unfolding pool_ok_def by metis
  moreover have "gw_sessions ?G1 = gw_sessions G" and "length (gw_tasks ?G1) = length (gw_tasks G)" by (simp_all add: stop_session_def)
  ultimately show ?thesis using assms(1) unfolding pool_ok_def reg machine by simp
qed

lemma pool_ok_unregister:
  assumes "pool_ok G" and a: "a < length (gw_tasks G)" "gw_tasks G ! a = Serving mid"
  shows "pool_ok (G\<lparr>gw_sessions := remove_if_current mid a (gw_sessions G), gw_tasks := (gw_tasks G)[a := Finished]\<rparr>)"
    (is "pool_ok ?G1")
proof -
  have other: "gw_tasks ?G1 ! b = gw_tasks G ! b" if "b \<noteq> a" for b using that by simp
  have self: "registered_as (gw_tasks ?G1 ! a) = None" using a by simp
  have pool: "RBT.lookup (gw_sessions ?G1) m = (if RBT.lookup (gw_sessions G) m = Some a then None else RBT.lookup (gw_sessions G) m)" for m
  proof (cases "RBT.lookup (gw_sessions G) m = Some a")
    case True
    then have "registered_as (gw_tasks G ! a) = Some m" using assms(1) by (simp add: pool_ok_def)
    with a have "m = mid" by simp
    with True show ?thesis by (simp add: remove_if_current_def)
  next
    case False
    then show ?thesis by (cases "m = mid") (simp_all add: remove_if_current_def)
  qed
  have stopping: "gw_tasks ?G1 ! c = StoppingPrevious d m" if "gw_tasks G ! c = StoppingPrevious d m" for c d m
    using that a by (cases "c = a") simp_all
  show ?thesis
    unfolding pool_ok_def
  proof (intro conjI allI impI)
    fix m b
    assume b: "RBT.lookup (gw_sessions ?G1) m = Some b"
    then have "RBT.lookup (gw_sessions G) m = Some b" and "b \<noteq> a" unfolding pool by (auto split: if_splits)
    with assms(1) other show "b < length (gw_tasks ?G1)" and "registered_as (gw_tasks ?G1 ! b) = Some m"
      by (simp_all add: pool_ok_def)
  next
    fix b m
    assume b: "b < length (gw_tasks ?G1)" "registered_as (gw_tasks ?G1 ! b) = Some m"
    have "b \<noteq> a" using b self by auto
    with b other have "b < length (gw_tasks G)" "registered_as (gw_tasks G ! b) = Some m" by simp_all
    with assms(1) have machine: "session_machine (gw_heap G ! b) = Some m"
      and or: "RBT.lookup (gw_sessions G) m = Some b \<or> \<not> gs_running (gw_heap G ! b) \<or>
        (\<exists>c < length (gw_tasks G). gw_tasks G ! c = StoppingPrevious b m)"
      by (simp_all add: pool_ok_def)
    show "session_machine (gw_heap ?G1 ! b) = Some m" using machine by simp
    have "RBT.lookup (gw_sessions ?G1) m = Some b" if "RBT.lookup (gw_sessions G) m = Some b"
      using pool [of m] that \<open>b \<noteq> a\<close> by simp
    moreover have heap: "gw_heap ?G1 = gw_heap G" and len: "length (gw_tasks ?G1) = length (gw_tasks G)" by simp_all
    ultimately show "RBT.lookup (gw_sessions ?G1) m = Some b \<or> \<not> gs_running (gw_heap ?G1 ! b) \<or>
      (\<exists>c < length (gw_tasks ?G1). gw_tasks ?G1 ! c = StoppingPrevious b m)"
      using or stopping unfolding heap len by blast
  qed
qed

lemma pool_ok_accept:
  assumes "pool_ok G" and len: "length (gw_tasks G) = length (gw_heap G)"
  shows "pool_ok (G\<lparr>gw_heap := gw_heap G @ [g], gw_tasks := gw_tasks G @ [AwaitingHeartbeat]\<rparr>)" (is "pool_ok ?G1")
proof -
  have listed: "a < length (gw_tasks G) \<and> registered_as (gw_tasks G ! a) = Some mid" if "RBT.lookup (gw_sessions G) mid = Some a" for mid a
    using assms(1) that by (simp add: pool_ok_def)
  have old: "gw_tasks ?G1 ! a = gw_tasks G ! a" "gw_heap ?G1 ! a = gw_heap G ! a" if "a < length (gw_tasks G)" for a
    using that len by (simp_all add: nth_append)
  show ?thesis
    unfolding pool_ok_def
  proof (intro conjI allI impI)
    fix mid a
    assume "RBT.lookup (gw_sessions ?G1) mid = Some a"
    then show "a < length (gw_tasks ?G1)" and "registered_as (gw_tasks ?G1 ! a) = Some mid"
      using listed [of mid a] old(1) [of a] by auto
  next
    fix a mid
    assume a: "a < length (gw_tasks ?G1)" "registered_as (gw_tasks ?G1 ! a) = Some mid"
    then have "a < length (gw_tasks G)" by (cases "a = length (gw_tasks G)") simp_all
    with a old(1) [OF this] assms(1) have "session_machine (gw_heap G ! a) = Some mid \<and> (RBT.lookup (gw_sessions G) mid = Some a \<or>
        \<not> gs_running (gw_heap G ! a) \<or> (\<exists>c < length (gw_tasks G). gw_tasks G ! c = StoppingPrevious a mid))"
      by (simp add: pool_ok_def)
    moreover have "\<exists>c < length (gw_tasks ?G1). gw_tasks ?G1 ! c = StoppingPrevious a mid"
      if "c < length (gw_tasks G)" and "gw_tasks G ! c = StoppingPrevious a mid" for c
      using that old(1) [of c] by (intro exI [of _ c]) auto
    ultimately show "session_machine (gw_heap ?G1 ! a) = Some mid" and
      "RBT.lookup (gw_sessions ?G1) mid = Some a \<or> \<not> gs_running (gw_heap ?G1 ! a) \<or>
      (\<exists>c < length (gw_tasks ?G1). gw_tasks ?G1 ! c = StoppingPrevious a mid)"
      using old(2) [OF \<open>a < length (gw_tasks G)\<close>] by auto
  qed
qed


lemma gateway_step: "gateway_inv G \<Longrightarrow> gateway_enabled e G \<Longrightarrow> gateway_inv (gateway_exec e G)"
proof -
  assume inv: "gateway_inv G" and en: "gateway_enabled e G"
  have len: "length (gw_tasks G) = length (gw_heap G)" and ok: "list_all (session_ok (gw_admission_token G)) (gw_heap G)"
    and pool: "pool_ok G" using inv by (simp_all add: gateway_inv_def)
  have heap: "pool_ok (G\<lparr>gw_heap := gw_heap (gateway_exec e G)\<rparr>)"
    using pool_ok_heap [OF pool gateway_exec_heap [OF inv en] len] .
  have "pool_ok (gateway_exec e G)"
  proof (cases e)
    case (Accepted now negotiated)
    then show ?thesis using pool pool_ok_accept [OF pool len] by (simp add: accept_session_def split: sum.splits prod.splits)
  next
    case (AwaitRound a)
    have a: "a < length (gw_tasks G)" "gw_tasks G ! a = AwaitingHeartbeat" using en len by (simp_all add: AwaitRound)
    have "session_ok (gw_admission_token G) (gw_heap G ! a)" using ok a len by (simp add: list_all_length)
    then have "session_machine (gw_heap G ! a) = Some mid"
      if "wait_for_first_heartbeat (gw_heap G ! a) = Some (Inr sx)" and "snapshot_machine_id sx = Inr mid" for sx mid
      using that by (auto simp: wait_for_first_heartbeat_def snapshot_machine_id_def session_machine_def session_ok_def
          split: option.splits if_splits)
    then show ?thesis
      using pool pool_ok_finish [OF pool a] pool_ok_register [OF pool a]
      by (auto simp: AwaitRound await_heartbeat_def pool_insert_def and_then_eq_Inr split: option.splits sum.splits)
  next
    case (HeartbeatTimeout a)
    then show ?thesis using pool_ok_finish [OF pool] en len by simp
  next
    case (StopPrevious a)
    then show ?thesis using pool pool_ok_stop_previous [OF pool _ _ len] en len
      by (simp add: stop_previous_def split: accept_phase.splits)
  next
    case (WatchRound a)
    then show ?thesis using pool pool_ok_unregister [OF pool] en len by (simp add: watch_session_def split: accept_phase.splits)
  next
    case (HeartbeatCall a now request)
    then show ?thesis using heap pool by (auto simp: deliver_heartbeat_def split: sum.splits)
  next
    case (Disconnected a)
    then show ?thesis using heap by (simp add: stop_session_def)
  qed
  then show ?thesis
    using gateway_exec_length [OF len] gateway_exec_sessions [OF ok refl en] by (simp add: gateway_inv_def)
qed

interpretation gateway_task: safe_component gateway_enabled gateway_exec "new_gateway token"
  "\<lambda>G. gateway_inv G \<and> gw_admission_token G = token" for token
proof
  show "gateway_inv (new_gateway token) \<and> gw_admission_token (new_gateway token) = token"
    by (simp add: gateway_inv_def new_gateway_def pool_ok_def)
qed (simp add: gateway_step)

lemma gateway_run_heap:
  "gateway_inv G \<Longrightarrow> trace_ok gateway_enabled gateway_exec es G \<Longrightarrow> heap_grows (gw_heap G) (gw_heap (run_events gateway_exec es G))"
proof (induction es arbitrary: G)
  case (Cons e es)
  then have "heap_grows (gw_heap G) (gw_heap (gateway_exec e G))" by (simp add: gateway_exec_heap)
  with Cons.IH [of "gateway_exec e G"] Cons.prems show ?case by (auto simp: gateway_step intro: heap_grows_trans)
qed simp

text \<open>What the pool says about a listed session.\<close>

lemma listed_session:
  assumes "gateway_inv G" and "RBT.lookup (gw_sessions G) mid = Some a"
  shows "a < length (gw_heap G)" and "session_machine (gw_heap G ! a) = Some mid" and "registered_as (gw_tasks G ! a) = Some mid"
    and "session_ok (gw_admission_token G) (gw_heap G ! a)"
proof -
  have len: "length (gw_tasks G) = length (gw_heap G)" and pool: "pool_ok G"
    and ok: "list_all (session_ok (gw_admission_token G)) (gw_heap G)" using assms(1) by (simp_all add: gateway_inv_def)
  have a: "a < length (gw_tasks G) \<and> registered_as (gw_tasks G ! a) = Some mid" using pool assms(2) by (simp add: pool_ok_def)
  then show "a < length (gw_heap G)" and "registered_as (gw_tasks G ! a) = Some mid" using len by simp_all
  show "session_machine (gw_heap G ! a) = Some mid" using pool a by (simp add: pool_ok_def)
  show "session_ok (gw_admission_token G) (gw_heap G ! a)" using ok a len by (simp add: list_all_length)
qed

lemma distinct_pool_sessions:
  assumes "gateway_inv G"
  shows "distinct (pool_sessions (gw_sessions G))"
  unfolding pool_sessions_def
proof (rule distinct_map [THEN iffD2, OF conjI])
  show "distinct (RBT.entries (gw_sessions G))" using RBT.distinct_entries distinct_map by blast
  have "mid = mid1" if "(mid, a) \<in> set (RBT.entries (gw_sessions G))" and "(mid1, a) \<in> set (RBT.entries (gw_sessions G))" for mid mid1 a
  proof -
    have "RBT.lookup (gw_sessions G) mid = Some a" and "RBT.lookup (gw_sessions G) mid1 = Some a"
      using that by (simp_all add: RBT.lookup_in_tree)
    from this [THEN listed_session(3) [OF assms]] show ?thesis by simp
  qed
  then show "inj_on snd (set (RBT.entries (gw_sessions G)))" by (auto simp: inj_on_def)
qed

lemma registered_session:
  assumes "gateway_inv G" and "b < length (gw_heap G)" and "registered_as (gw_tasks G ! b) = Some mid" and "gs_running (gw_heap G ! b)"
  shows "RBT.lookup (gw_sessions G) mid = Some b \<or> (\<exists>c < length (gw_tasks G). gw_tasks G ! c = StoppingPrevious b mid)"
proof -
  have "b < length (gw_tasks G)" and "pool_ok G" using assms(1,2) by (simp_all add: gateway_inv_def)
  with assms(3) have "RBT.lookup (gw_sessions G) mid = Some b \<or> \<not> gs_running (gw_heap G ! b) \<or>
      (\<exists>c < length (gw_tasks G). gw_tasks G ! c = StoppingPrevious b mid)" unfolding pool_ok_def by blast
  with assms(4) show ?thesis by blast
qed

text \<open>
  C16. Only admitted clients are listed, and each under its own machine. However connections,
  heartbeats and disconnections interleave, a session in the pool has negotiated a secure tunnel,
  its last heartbeat carried the admission token, if one is configured, and names the machine the
  session is listed under; no session is listed twice. A registered session that still runs is
  listed, unless a newer session of the same machine is about to stop it.
\<close>

theorem gateway_pool_sound:
  assumes "reachable gateway_enabled gateway_exec (new_gateway token) G"
  shows "(RBT.lookup (gw_sessions G) mid = Some a \<longrightarrow>
      a < length (gw_heap G) \<and> gs_secure (gw_heap G ! a) \<and>
      (\<exists>hb. ss_heartbeat (gs_state (gw_heap G ! a)) = Some hb \<and> hb_machine_id hb = Some mid \<and>
         (\<forall>expected. token = Some expected \<longrightarrow> hb_user_token hb = expected))) \<and>
    distinct (pool_sessions (gw_sessions G)) \<and>
    (b < length (gw_heap G) \<and> registered_as (gw_tasks G ! b) = Some mid \<and> gs_running (gw_heap G ! b) \<longrightarrow>
      RBT.lookup (gw_sessions G) mid = Some b \<or> (\<exists>c < length (gw_tasks G). gw_tasks G ! c = StoppingPrevious b mid))"
proof -
  have inv: "gateway_inv G" and token: "gw_admission_token G = token" using gateway_task.inv_reachable [OF assms] by simp_all
  have "gs_secure (gw_heap G ! a) \<and> (\<exists>hb. ss_heartbeat (gs_state (gw_heap G ! a)) = Some hb \<and> hb_machine_id hb = Some mid \<and>
      (\<forall>expected. token = Some expected \<longrightarrow> hb_user_token hb = expected))" if "RBT.lookup (gw_sessions G) mid = Some a"
    using listed_session(2,4) [OF inv that] token by (auto simp: session_machine_def session_ok_def token_ok_def bind_eq_Some_conv)
  then show ?thesis using listed_session(1) [OF inv] distinct_pool_sessions [OF inv] registered_session [OF inv] by blast
qed

definition sample_heartbeat :: "uuid \<Rightarrow> heartbeat_request" where
  "sample_heartbeat mid = \<lparr>hb_machine_id = Some mid, hb_user_token = js ''secret'', hb_hostname = js ''edge'', hb_easytier_version = js ''2.6'',
     hb_report_time = js ''now'', hb_running_network_instances = [], hb_device_os = None\<rparr>"

text \<open>A machine connects, connects again, and the first session ends.\<close>

definition sample_connections :: "uuid \<Rightarrow> gateway_event list" where
  "sample_connections mid =
     [Accepted 1 (Inr (js ''udp://a'', True)), HeartbeatCall 0 2 (sample_heartbeat mid), AwaitRound 0,
      Accepted 3 (Inr (js ''udp://b'', True)), HeartbeatCall 1 4 (sample_heartbeat mid), AwaitRound 1, StopPrevious 1, WatchRound 0]"

lemma sample_connections_reachable:
  "reachable gateway_enabled gateway_exec (new_gateway (Some (js ''secret'')))
     (run_events gateway_exec (sample_connections mid) (new_gateway (Some (js ''secret''))))"
proof (rule reachable_run [OF reachable.start])
  show "trace_ok gateway_enabled gateway_exec (sample_connections mid) (new_gateway (Some (js ''secret'')))"
    by (simp add: sample_connections_def new_gateway_def accept_session_def deliver_heartbeat_def heartbeat_def new_session_def
        sample_heartbeat_def await_heartbeat_def wait_for_first_heartbeat_def snapshot_machine_id_def pool_insert_def stop_previous_def
        stop_session_def)
qed

lemma sample_connections_pool:
  "RBT.lookup (gw_sessions (run_events gateway_exec (sample_connections mid) (new_gateway (Some (js ''secret''))))) =
     [mid \<mapsto> 1]"
  by (simp add: sample_connections_def new_gateway_def accept_session_def deliver_heartbeat_def heartbeat_def new_session_def
      sample_heartbeat_def await_heartbeat_def wait_for_first_heartbeat_def snapshot_machine_id_def pool_insert_def stop_previous_def
      stop_session_def watch_session_def remove_if_current_def)

theorem gateway_pool_sound_witness:
  "\<exists>(G :: gateway) (hb :: heartbeat_request). RBT.lookup (gw_sessions G) 7 = Some 1 \<and> ss_heartbeat (gs_state (gw_heap G ! 1)) = Some hb \<and> hb_user_token hb = js ''secret''"
proof -
  let ?G = "run_events gateway_exec (sample_connections 7) (new_gateway (Some (js ''secret'')))"
  have listed: "RBT.lookup (gw_sessions ?G) 7 = Some 1" by (simp only: sample_connections_pool fun_upd_same)
  then obtain hb where "ss_heartbeat (gs_state (gw_heap ?G ! 1)) = Some hb" and "hb_user_token hb = js ''secret''"
    using gateway_pool_sound [OF sample_connections_reachable [of 7], where mid = 7 and a = 1] by blast
  with listed show ?thesis by blast
qed

end
