(* ===== verification/Collector.thy ===== *)
theory Collector
  imports Gateway "HOL-Library.Multiset"
begin

text \<open>
  The telemetry collector of the gateway, \<^verbatim>\<open>telemetry.rs\<close>: what one collection makes of the answers of
  the clients, and how the machines are collected by a bounded number of concurrent tasks under a
  deadline. The answers of the RPCs, the readings of the clock, the order in which tasks finish and
  whether one panics are arguments. EasyTier's messages are records of the fields the code reads;
  the telemetry of a peer and the text of an address, which EasyTier computes, are in \<open>proto\<close>. The
  serialised views are the records of \<open>Snapshot\<close>, which has the same fields on the other side.
\<close>

section \<open>Answers\<close>

text \<open>\<^verbatim>\<open>Result<Result<T, E>, Elapsed>\<close>, with the errors as their texts.\<close>

datatype 'a rpc = RpcOk 'a | RpcError jsstr | RpcElapsed jsstr

record 'a route_info =
  ri_peer_id :: "32 word"
  ri_ipv4_addr :: "'a option"
  ri_hostname :: jsstr
  ri_next_hop_peer_id :: "32 word"
  ri_cost :: "32 word"
  ri_path_latency :: "32 word"
  ri_version :: jsstr

record node_answer =
  na_peer_id :: "32 word"
  na_ipv4_addr :: jsstr
  na_hostname :: jsstr
  na_proxy_cidrs :: "jsstr list"
  na_listeners :: "jsstr list"
  na_version :: jsstr

record metric_snapshot =
  mx_name :: jsstr
  mx_value :: "64 word"
  mx_labels :: "(jsstr \<times> jsstr) list"

record ('a, 'p) proto =
  pr_peer_id :: "'p \<Rightarrow> 32 word"
  pr_address :: "'a \<Rightarrow> jsstr"
  pr_latency_ms :: "'a route_info \<Rightarrow> 'p option \<Rightarrow> jsnum option"
  pr_loss_rate :: "'a route_info \<Rightarrow> 'p option \<Rightarrow> jsnum option"
  pr_rx_bytes :: "'a route_info \<Rightarrow> 'p option \<Rightarrow> 64 word option"
  pr_tx_bytes :: "'a route_info \<Rightarrow> 'p option \<Rightarrow> 64 word option"
  pr_conn_protos :: "'a route_info \<Rightarrow> 'p option \<Rightarrow> jsstr list option"

record ('a, 'p) instance_answers =
  ia_peers :: "'p list rpc"
  ia_routes :: "'a route_info list rpc"
  ia_node :: "node_answer option rpc"
  ia_stats :: "metric_snapshot list rpc"
  ia_time :: "64 word"

record ('a, 'p) machine_answers =
  ma_instances :: "uuid list rpc"
  ma_instance :: "nat \<Rightarrow> ('a, 'p) instance_answers"
  ma_time :: "64 word"

section \<open>Views\<close>

definition TOPOLOGY_SCHEMA_VERSION :: jsstr where
  "TOPOLOGY_SCHEMA_VERSION = js ''nexustier.topology.v1''"

definition telemetry_new :: "string \<Rightarrow> string \<Rightarrow> jsstr \<Rightarrow> telemetry_error" where
  "telemetry_new code operation message = \<lparr>te_code = js code, te_operation = js operation, te_message = message\<rparr>"

definition session_view :: "session_snapshot \<Rightarrow> session result" where
  "session_view sx =
     (let hb = sx_heartbeat sx in
      case hb_machine_id hb of
        None \<Rightarrow> Inl (js ''heartbeat is missing machine_id'')
      | Some mid \<Rightarrow> Inr
          \<lparr>se_machine_id = mid, se_remote_url = sx_remote_url sx, se_hostname = hb_hostname hb,
           se_easytier_version = hb_easytier_version hb, se_report_time = hb_report_time hb,
           se_connected_at_ms = sx_connected_at_ms sx, se_last_heartbeat_at_ms = sx_last_heartbeat_at_ms sx,
           se_running_instance_ids = hb_running_network_instances hb,
           se_device = map_option (\<lambda>d. \<lparr>sd_os_type = dv_os_type d, sd_os_version = dv_version d,
             sd_distribution = dv_distribution d\<rparr>) (hb_device_os hb)\<rparr>)"

definition unavailable :: session where
  "unavailable = \<lparr>se_machine_id = 0, se_remote_url = [], se_hostname = [], se_easytier_version = [], se_report_time = [],
     se_connected_at_ms = 0, se_last_heartbeat_at_ms = 0, se_running_instance_ids = [], se_device = None\<rparr>"

definition node_view :: "node_answer \<Rightarrow> snapshot_node" where
  "node_view n = \<lparr>nd_peer_id = na_peer_id n, nd_ipv4 = na_ipv4_addr n, nd_hostname = na_hostname n,
     nd_proxy_cidrs = Some (na_proxy_cidrs n), nd_listeners = Some (na_listeners n), nd_version = na_version n\<rparr>"

definition metric_view :: "metric_snapshot \<Rightarrow> metric" where
  "metric_view x = \<lparr>mt_name = mx_name x, mt_value = mx_value x, mt_labels = Some (mx_labels x)\<rparr>"

definition rpc_value :: "'a rpc \<Rightarrow> string \<Rightarrow> telemetry_error list \<Rightarrow> 'a option \<times> telemetry_error list" where
  "rpc_value r operation errors =
     (case r of
        RpcOk v \<Rightarrow> (Some v, errors)
      | RpcError e \<Rightarrow> (None, errors @ [telemetry_new ''rpc_error'' operation e])
      | RpcElapsed e \<Rightarrow> (None, errors @ [telemetry_new ''rpc_timeout'' operation e]))"

definition unwrap_or_default :: "'a list option \<Rightarrow> 'a list" where
  "unwrap_or_default v = (case v of None \<Rightarrow> [] | Some xs \<Rightarrow> xs)"

definition peer_view :: "('a, 'p) proto \<Rightarrow> 'a route_info \<Rightarrow> 'p option \<Rightarrow> snapshot_peer" where
  "peer_view pr route peer =
     (let direct = (ri_cost route = 1) in
      \<lparr>sp_peer_id = ri_peer_id route, sp_ipv4 = map_option (pr_address pr) (ri_ipv4_addr route), sp_hostname = ri_hostname route,
       sp_next_hop_peer_id = ri_next_hop_peer_id route, sp_direct = direct, sp_path_cost = ri_cost route,
       sp_latency_ms = (if direct then pr_latency_ms pr route peer else Some (of_int (sint (ri_path_latency route)))),
       sp_loss_rate = pr_loss_rate pr route peer, sp_rx_bytes = pr_rx_bytes pr route peer, sp_tx_bytes = pr_tx_bytes pr route peer,
       sp_tunnel_protocols = Some (unwrap_or_default (pr_conn_protos pr route peer)), sp_version = ri_version route\<rparr>)"

text \<open>The tree map of the peers, from which each route takes its peer out.\<close>

definition peers_by_id :: "('a, 'p) proto \<Rightarrow> 'p list \<Rightarrow> (32 word, 'p) RBT.rbt" where
  "peers_by_id pr peers = fold (\<lambda>p. RBT.insert (pr_peer_id pr p) p) peers RBT.empty"

fun join_routes :: "('a, 'p) proto \<Rightarrow> (32 word, 'p) RBT.rbt \<Rightarrow> 'a route_info list \<Rightarrow> snapshot_peer list" where
  "join_routes pr t [] = []"
| "join_routes pr t (r # rs) = peer_view pr r (RBT.lookup t (ri_peer_id r)) # join_routes pr (RBT.delete (ri_peer_id r) t) rs"

definition join_peers_and_routes :: "('a, 'p) proto \<Rightarrow> 'p list \<Rightarrow> 'a route_info list \<Rightarrow> snapshot_peer list" where
  "join_peers_and_routes pr peers routes = sort_key sp_peer_id (join_routes pr (peers_by_id pr peers) routes)"

section \<open>One machine\<close>

definition collect_instance :: "('a, 'p) proto \<Rightarrow> ('a, 'p) instance_answers \<Rightarrow> uuid \<Rightarrow> snapshot_instance" where
  "collect_instance pr ia iid =
     (let (peers, errors) = rpc_value (ia_peers ia) ''list_peers'' [];
          (routes, errors) = rpc_value (ia_routes ia) ''list_routes'' errors;
          (node, errors) = rpc_value (ia_node ia) ''show_node_info'' errors;
          (metrics, errors) = rpc_value (ia_stats ia) ''get_stats'' errors
      in \<lparr>si_instance_id = iid, si_observed_at_ms = ia_time ia, si_node = map_option node_view (Option.bind node (\<lambda>n. n)),
          si_peers = join_peers_and_routes pr (unwrap_or_default peers) (unwrap_or_default routes),
          si_metrics = map metric_view (unwrap_or_default metrics), si_errors = errors\<rparr>)"

definition machine_failed :: "session \<Rightarrow> 64 word \<Rightarrow> telemetry_error \<Rightarrow> snapshot_machine" where
  "machine_failed view time e = \<lparr>sm_session = view, sm_observed_at_ms = time, sm_instances = [], sm_errors = [e]\<rparr>"

definition collect_machine :: "('a, 'p) proto \<Rightarrow> session_snapshot result \<Rightarrow> ('a, 'p) machine_answers \<Rightarrow> snapshot_machine" where
  "collect_machine pr snapshot ma =
     (case and_then snapshot session_view of
        Inl e \<Rightarrow> machine_failed unavailable (ma_time ma) (telemetry_new ''session_unavailable'' ''session_snapshot'' e)
      | Inr view \<Rightarrow>
          (case ma_instances ma of
             RpcError e \<Rightarrow> machine_failed view (ma_time ma) (telemetry_new ''rpc_error'' ''list_network_instances'' e)
           | RpcElapsed e \<Rightarrow> machine_failed view (ma_time ma) (telemetry_new ''rpc_timeout'' ''list_network_instances'' e)
           | RpcOk ids \<Rightarrow>
               \<lparr>sm_session = view, sm_observed_at_ms = ma_time ma,
                sm_instances = sort_key si_instance_id (map (\<lambda>(n, iid). collect_instance pr (ma_instance ma n) iid) (enumerate 0 ids)),
                sm_errors = []\<rparr>))"

section \<open>The collection\<close>

record collecting =
  co_pending :: "nat list"
  co_tasks :: "nat list"
  co_machines :: "snapshot_machine list"
  co_errors :: "telemetry_error list"

text \<open>
  A collection in its environment: which task finishes next, given by its place among the running
  ones, or that the deadline passes first.
\<close>

record collection_env =
  ce_collection_id :: uuid
  ce_started :: "64 word"
  ce_completed :: "64 word"
  ce_schedule :: "nat \<Rightarrow> nat option"
  ce_concurrency :: nat
  ce_timeout_ms :: nat

definition collection_start :: "nat \<Rightarrow> nat list \<Rightarrow> collecting" where
  "collection_start concurrency sessions =
     \<lparr>co_pending = drop concurrency sessions, co_tasks = take concurrency sessions, co_machines = [], co_errors = []\<rparr>"

definition record_result :: "jsstr + snapshot_machine \<Rightarrow> collecting \<Rightarrow> collecting" where
  "record_result r c =
     (case r of
        Inr m \<Rightarrow> c\<lparr>co_machines := co_machines c @ [m]\<rparr>
      | Inl e \<Rightarrow> c\<lparr>co_errors := co_errors c @ [telemetry_new ''task_failed'' ''collect_machine'' e]\<rparr>)"

definition join_task :: "(nat \<Rightarrow> jsstr + snapshot_machine) \<Rightarrow> nat \<Rightarrow> collecting \<Rightarrow> collecting" where
  "join_task run k c =
     (let j = k mod length (co_tasks c); rest = take j (co_tasks c) @ drop (Suc j) (co_tasks c);
          c1 = record_result (run (co_tasks c ! j)) c
      in case co_pending c of
           [] \<Rightarrow> c1\<lparr>co_tasks := rest\<rparr>
         | p # ps \<Rightarrow> c1\<lparr>co_tasks := rest @ [p], co_pending := ps\<rparr>)"

definition collection_timeout :: "nat \<Rightarrow> nat \<Rightarrow> telemetry_error" where
  "collection_timeout ms remaining = telemetry_new ''collection_timeout'' ''collect_topology''
     (js ''collection exceeded '' @ nat_str ms @ js '' ms with '' @ nat_str remaining @ js '' machines pending'')"

lemma record_result_fields [simp]:
  "co_pending (record_result r c) = co_pending c" "co_tasks (record_result r c) = co_tasks c"
  by (simp_all add: record_result_def split: sum.splits)

text \<open>A task is taken from among the running ones, and the next pending session takes its place.\<close>

lemma join_task_cases:
  assumes "co_tasks c \<noteq> []"
  obtains pre a post where "co_tasks c = pre @ a # post"
    and "join_task run k c = (record_result (run a) c)\<lparr>co_tasks := pre @ post @ take 1 (co_pending c), co_pending := drop 1 (co_pending c)\<rparr>"
proof -
  let ?j = "k mod length (co_tasks c)"
  have "?j < length (co_tasks c)" using assms by simp
  then have split: "co_tasks c = take ?j (co_tasks c) @ co_tasks c ! ?j # drop (Suc ?j) (co_tasks c)" by (rule id_take_nth_drop)
  moreover have "join_task run k c = (record_result (run (co_tasks c ! ?j)) c)
      \<lparr>co_tasks := take ?j (co_tasks c) @ drop (Suc ?j) (co_tasks c) @ take 1 (co_pending c), co_pending := drop 1 (co_pending c)\<rparr>"
    by (cases "co_pending c") (simp_all add: join_task_def Let_def)
  ultimately show ?thesis by (rule that)
qed

lemma join_task_size:
  assumes "co_tasks c \<noteq> []"
  shows "length (co_pending (join_task run k c)) + length (co_tasks (join_task run k c)) < length (co_pending c) + length (co_tasks c)"
  using assms by (rule join_task_cases [where run = run and k = k]) (cases "co_pending c"; simp)

function collect_loop :: "collection_env \<Rightarrow> (nat \<Rightarrow> jsstr + snapshot_machine) \<Rightarrow> nat \<Rightarrow> collecting \<Rightarrow> collecting" where
  "collect_loop env run n c =
     (if co_tasks c = [] then c
      else (case ce_schedule env n of
        None \<Rightarrow> c\<lparr>co_tasks := [], co_errors := co_errors c @
          [collection_timeout (ce_timeout_ms env) (length (co_pending c) + length (co_tasks c))]\<rparr>
      | Some k \<Rightarrow> collect_loop env run (Suc n) (join_task run k c)))"
  by auto
termination
  by (relation "measure (\<lambda>(env, run, n, c). length (co_pending c) + length (co_tasks c))") (auto intro: join_task_size)

declare collect_loop.simps [simp del]

definition collect_topology :: "collection_env \<Rightarrow> (nat \<Rightarrow> jsstr + snapshot_machine) \<Rightarrow> nat list \<Rightarrow> snapshot" where
  "collect_topology env run sessions =
     (let c = collect_loop env run 0 (collection_start (ce_concurrency env) sessions) in
      \<lparr>sn_schema_version = TOPOLOGY_SCHEMA_VERSION, sn_collection_id = ce_collection_id env, sn_started_at_ms = ce_started env,
       sn_completed_at_ms = ce_completed env, sn_collected_at_ms = ce_completed env,
       sn_machines = sort_key (\<lambda>m. se_machine_id (sm_session m)) (co_machines c), sn_errors = co_errors c\<rparr>)"


section \<open>What a collection accounts for\<close>

definition results :: "(nat \<Rightarrow> jsstr + snapshot_machine) \<Rightarrow> nat list \<Rightarrow> snapshot_machine list" where
  "results run ds = concat (map (\<lambda>a. case run a of Inl e \<Rightarrow> [] | Inr m \<Rightarrow> [m]) ds)"

definition panics :: "(nat \<Rightarrow> jsstr + snapshot_machine) \<Rightarrow> nat list \<Rightarrow> telemetry_error list" where
  "panics run ds = concat (map (\<lambda>a. case run a of Inl e \<Rightarrow> [telemetry_new ''task_failed'' ''collect_machine'' e] | Inr m \<Rightarrow> []) ds)"

lemma record_result_snoc:
  "co_machines c = results run ds \<Longrightarrow> co_machines (record_result (run a) c) = results run (ds @ [a])"
  "co_errors c = panics run ds \<Longrightarrow> co_errors (record_result (run a) c) = panics run (ds @ [a])"
  by (simp_all add: record_result_def results_def panics_def split: sum.splits)

text \<open>The sessions split into those that are finished, running and pending.\<close>

definition accounted :: "(nat \<Rightarrow> jsstr + snapshot_machine) \<Rightarrow> nat list \<Rightarrow> nat list \<Rightarrow> collecting \<Rightarrow> bool" where
  "accounted run sessions ds c \<longleftrightarrow>
     mset ds + mset (co_tasks c) + mset (co_pending c) = mset sessions \<and> (co_tasks c = [] \<longrightarrow> co_pending c = []) \<and>
     co_machines c = results run ds \<and> co_errors c = panics run ds"

lemma accounted_join:
  assumes "accounted run sessions ds c" and "co_tasks c \<noteq> []"
  shows "\<exists>a. accounted run sessions (ds @ [a]) (join_task run k c)"
  using assms(2)
proof (rule join_task_cases [where run = run and k = k])
  fix pre a post
  assume tasks: "co_tasks c = pre @ a # post"
    and join: "join_task run k c = (record_result (run a) c)\<lparr>co_tasks := pre @ post @ take 1 (co_pending c), co_pending := drop 1 (co_pending c)\<rparr>"
  have "accounted run sessions (ds @ [a]) (join_task run k c)"
    using assms(1) by (cases "co_pending c") (auto simp: accounted_def join tasks record_result_snoc)
  then show ?thesis by blast
qed

lemma collect_loop_accounts:
  "accounted run sessions ds c \<Longrightarrow>
     \<exists>fin left. mset fin + mset left = mset sessions \<and> co_machines (collect_loop env run n c) = results run fin \<and>
       co_errors (collect_loop env run n c) =
         panics run fin @ (if left = [] then [] else [collection_timeout (ce_timeout_ms env) (length left)])"
proof (induction env run n c arbitrary: ds rule: collect_loop.induct)
  case (1 env run n c)
  show ?case
  proof (cases "co_tasks c = []")
    case True
    with "1.prems" show ?thesis
      by - (rule exI [of _ ds], rule exI [of _ "[]"], auto simp: accounted_def collect_loop.simps [of env run n c])
  next
    case False
    show ?thesis
    proof (cases "ce_schedule env n")
      case None
      with False "1.prems" show ?thesis
        by - (rule exI [of _ ds], rule exI [of _ "co_tasks c @ co_pending c"],
          auto simp: accounted_def collect_loop.simps [of env run n c] ac_simps)
    next
      case (Some k)
      obtain a where "accounted run sessions (ds @ [a]) (join_task run k c)" using accounted_join [OF "1.prems" False] by blast
      from "1.IH" [OF False Some this] show ?thesis using False Some by (simp add: collect_loop.simps [of env run n c])
    qed
  qed
qed

lemma accounted_start: "0 < concurrency \<Longrightarrow> accounted run sessions [] (collection_start concurrency sessions)"
  by (auto simp: accounted_def collection_start_def results_def panics_def simp flip: mset_append)

text \<open>At most as many tasks as configured, and never fewer while sessions are waiting.\<close>

interpretation collection_tasks: safe_component "\<lambda>k c. co_tasks c \<noteq> []" "join_task run" "collection_start concurrency sessions"
  "\<lambda>c. length (co_tasks c) \<le> concurrency \<and> (length (co_tasks c) < concurrency \<longrightarrow> co_pending c = [])" for run concurrency sessions
proof
  fix c :: collecting and k
  assume inv: "length (co_tasks c) \<le> concurrency \<and> (length (co_tasks c) < concurrency \<longrightarrow> co_pending c = [])" and "co_tasks c \<noteq> []"
  from this(2) show "length (co_tasks (join_task run k c)) \<le> concurrency \<and>
      (length (co_tasks (join_task run k c)) < concurrency \<longrightarrow> co_pending (join_task run k c) = [])"
    by (rule join_task_cases [where run = run and k = k]) (use inv in \<open>cases "co_pending c"; auto\<close>)
qed (auto simp: collection_start_def)

lemma collect_topology_accounts:
  assumes "0 < ce_concurrency env"
  obtains fin left where "mset fin + mset left = mset sessions"
    and "sn_machines (collect_topology env run sessions) = sort_key (\<lambda>m. se_machine_id (sm_session m)) (results run fin)"
    and "sn_errors (collect_topology env run sessions) =
      panics run fin @ (if left = [] then [] else [collection_timeout (ce_timeout_ms env) (length left)])"
  using collect_loop_accounts [OF accounted_start [OF assms], where env = env and n = 0 and run = run and sessions = sessions] that
  by (auto simp: collect_topology_def Let_def)


section \<open>Collections of the pool\<close>

text \<open>
  The task of a session reads it when it runs, so in a later state of the gateway; it may panic, and
  what the client answers is an argument.
\<close>

definition machine_task ::
  "('a, 'p) proto \<Rightarrow> (nat \<Rightarrow> jsstr option) \<Rightarrow> (nat \<Rightarrow> gateway) \<Rightarrow> (nat \<Rightarrow> ('a, 'p) machine_answers) \<Rightarrow> nat \<Rightarrow> jsstr + snapshot_machine" where
  "machine_task pr panic later answers a =
     (case panic a of
        Some e \<Rightarrow> Inl e
      | None \<Rightarrow> Inr (collect_machine pr (session_snapshot_of (gw_heap (later a) ! a)) (answers a)))"

definition machine_ids :: "snapshot \<Rightarrow> uuid list" where
  "machine_ids s = map (\<lambda>m. se_machine_id (sm_session m)) (sn_machines s)"

lemma collect_machine_session:
  assumes "session_machine g = Some mid"
  shows "se_machine_id (sm_session (collect_machine pr (session_snapshot_of g) ma)) = mid"
    and "e \<in> set (sm_errors (collect_machine pr (session_snapshot_of g) ma)) \<Longrightarrow> te_operation e = js ''list_network_instances''"
proof -
  obtain hb where hb: "ss_heartbeat (gs_state g) = Some hb" "hb_machine_id hb = Some mid"
    using assms by (auto simp: session_machine_def bind_eq_Some_conv)
  show "se_machine_id (sm_session (collect_machine pr (session_snapshot_of g) ma)) = mid"
    by (simp add: collect_machine_def session_snapshot_of_def session_view_def machine_failed_def hb split: rpc.splits)
  show "te_operation e = js ''list_network_instances''" if "e \<in> set (sm_errors (collect_machine pr (session_snapshot_of g) ma))"
    using that by (simp add: collect_machine_def session_snapshot_of_def session_view_def machine_failed_def hb telemetry_new_def
        split: rpc.splits)
qed

lemma results_machine_task:
  "results (machine_task pr panic later answers) xs =
     map (\<lambda>a. collect_machine pr (session_snapshot_of (gw_heap (later a) ! a)) (answers a)) (filter (\<lambda>a. panic a = None) xs)"
  by (induction xs) (simp_all add: results_def machine_task_def split: option.splits)

lemma panics_machine_task: "panics (machine_task pr panic later answers) xs = [] \<longleftrightarrow> filter (\<lambda>a. panic a = None) xs = xs"
proof (induction xs)
  case (Cons a xs)
  have "filter (\<lambda>a. panic a = None) xs \<noteq> a # xs" using length_filter_le [of "\<lambda>a. panic a = None" xs] by (metis Suc_n_not_le_n length_Cons)
  with Cons show ?case by (auto simp: panics_def machine_task_def split: option.splits)
qed (simp add: panics_def)

text \<open>The machine of a listed session, and the pool as a list of them.\<close>

definition listed_machine :: "gateway \<Rightarrow> nat \<Rightarrow> uuid" where
  "listed_machine G a = the (session_machine (gw_heap G ! a))"

lemma map_listed_machine:
  assumes "gateway_inv G"
  shows "map (listed_machine G) (pool_sessions (gw_sessions G)) = RBT.keys (gw_sessions G)"
proof -
  have "listed_machine G a = mid" if "(mid, a) \<in> set (RBT.entries (gw_sessions G))" for mid a
    using that listed_session(2) [OF assms, of mid a] by (simp add: RBT.lookup_in_tree listed_machine_def)
  then show ?thesis by (auto simp: pool_sessions_def RBT.keys_def_alt)
qed


lemma pool_session_listed:
  "gateway_inv G \<Longrightarrow> a \<in> set (pool_sessions (gw_sessions G)) \<Longrightarrow> RBT.lookup (gw_sessions G) (listed_machine G a) = Some a"
  using listed_session(2) [of G _ a] by (auto simp: pool_sessions_def RBT.lookup_in_tree listed_machine_def)

text \<open>A session that was listed still belongs to its machine whenever its task reads it.\<close>

lemma later_session:
  assumes "gateway_inv G" and "a \<in> set (pool_sessions (gw_sessions G))"
    and "trace_ok gateway_enabled gateway_exec es G" and "G1 = run_events gateway_exec es G"
  shows "session_machine (gw_heap G1 ! a) = Some (listed_machine G a)"
  using listed_session(1,2) [OF assms(1) pool_session_listed [OF assms(1,2)]] gateway_run_heap [OF assms(1,3)] assms(4)
  by (simp add: heap_grows_def)

lemma sorted_ids: "map f (sort_key f xs) = sort (map f xs)" for f :: "'a \<Rightarrow> 'b :: linorder"
  by (rule sym, rule properties_for_sort) simp_all

lemma mset_filter_eq:
  assumes "mset fin + mset left = mset xs" and "length (filter P fin) = length xs"
  shows "left = [] \<and> filter P fin = fin"
proof -
  have "length fin + length left = length xs" using arg_cong [OF assms(1), of size] by simp
  then have left: "length left = 0" and len: "length (filter P fin) = length fin"
    using assms(2) length_filter_le [of P fin] by linarith+
  have "P x" if "x \<in> set fin" for x using length_filter_less [of x fin P] that len by auto
  with left show ?thesis by (simp add: filter_id_conv)
qed

text \<open>Which sessions a collection has finished, what it has of them, and when it has no error.\<close>

lemma collected_sessions:
  assumes inv: "gateway_inv G" and "mset sessions = mset (pool_sessions (gw_sessions G))"
    and later: "\<And>a. \<exists>es. trace_ok gateway_enabled gateway_exec es G \<and> later a = run_events gateway_exec es G"
    and "0 < ce_concurrency env" and s: "s = collect_topology env (machine_task pr panic later answers) sessions"
  obtains fin left where "mset fin + mset left = mset sessions" and "set fin \<subseteq> set (pool_sessions (gw_sessions G))"
    and "set (sn_machines s) = (\<lambda>a. collect_machine pr (session_snapshot_of (gw_heap (later a) ! a)) (answers a)) ` {a \<in> set fin. panic a = None}"
    and "\<And>a. a \<in> set fin \<Longrightarrow> se_machine_id (sm_session (collect_machine pr (session_snapshot_of (gw_heap (later a) ! a)) (answers a))) = listed_machine G a"
    and "machine_ids s = sort (map (listed_machine G) (filter (\<lambda>a. panic a = None) fin))"
    and "sn_errors s = [] \<longleftrightarrow> left = [] \<and> filter (\<lambda>a. panic a = None) fin = fin"
proof -
  let ?run = "machine_task pr panic later answers" and ?m = "\<lambda>a. collect_machine pr (session_snapshot_of (gw_heap (later a) ! a)) (answers a)"
  let ?key = "listed_machine G" and ?ok = "\<lambda>a. panic a = None"
  obtain fin left where split: "mset fin + mset left = mset sessions"
    and ms: "sn_machines s = sort_key (\<lambda>m. se_machine_id (sm_session m)) (results ?run fin)"
    and es: "sn_errors s = panics ?run fin @ (if left = [] then [] else [collection_timeout (ce_timeout_ms env) (length left)])"
    using collect_topology_accounts [OF assms(4), of sessions ?run] s by metis
  have "set sessions = set (pool_sessions (gw_sessions G))" using assms(2) by (rule mset_eq_setD)
  then have sub: "set fin \<subseteq> set (pool_sessions (gw_sessions G))" using arg_cong [OF split, of set_mset] by auto
  have id: "se_machine_id (sm_session (?m a)) = ?key a" if "a \<in> set fin" for a
  proof -
    obtain es where "trace_ok gateway_enabled gateway_exec es G" "later a = run_events gateway_exec es G" using later by blast
    from later_session [OF inv _ this] sub that have "session_machine (gw_heap (later a) ! a) = Some (?key a)" by blast
    then show ?thesis by (rule collect_machine_session)
  qed
  have "machine_ids s = sort (map (\<lambda>a. se_machine_id (sm_session (?m a))) (filter ?ok fin))"
    by (simp add: machine_ids_def ms sorted_ids results_machine_task comp_def)
  also have "\<dots> = sort (map ?key (filter ?ok fin))"
    using id by (intro arg_cong [where f = sort] map_cong) auto
  finally have ids: "machine_ids s = sort (map ?key (filter ?ok fin))" .
  show ?thesis
    using that [OF split sub _ id ids] panics_machine_task [of pr panic later answers fin] by (auto simp: ms es results_machine_task)
qed

text \<open>
  C15. A collection accounts for every listed session. Whatever order the tasks finish in and however
  the sessions change meanwhile, the snapshot has each machine at most once, sorted, each one of the
  pool and read from the session listed for it; and it is free of errors exactly when it has every
  machine that was listed. So the controller, which takes machines for gone only when a snapshot
  has no error of its own, never does so because a task was slow or failed.
\<close>

theorem collection_covers_pool:
  assumes "reachable gateway_enabled gateway_exec (new_gateway token) G"
    and "mset sessions = mset (pool_sessions (gw_sessions G))"
    and "\<And>a. \<exists>es. trace_ok gateway_enabled gateway_exec es G \<and> later a = run_events gateway_exec es G"
    and "0 < ce_concurrency env" and "s = collect_topology env (machine_task pr panic later answers) sessions"
  shows "sorted (machine_ids s) \<and> distinct (machine_ids s) \<and> set (machine_ids s) \<subseteq> set (RBT.keys (gw_sessions G)) \<and>
    (sn_errors s = [] \<longleftrightarrow> machine_ids s = RBT.keys (gw_sessions G)) \<and>
    (\<forall>m \<in> set (sn_machines s). \<exists>a. RBT.lookup (gw_sessions G) (se_machine_id (sm_session m)) = Some a \<and>
       m = collect_machine pr (session_snapshot_of (gw_heap (later a) ! a)) (answers a))"
proof -
  have inv: "gateway_inv G" using gateway_task.inv_reachable [OF assms(1)] by simp
  show ?thesis
  proof (rule collected_sessions [OF inv assms(2-5)])
    fix fin left
    let ?key = "listed_machine G" and ?ok = "\<lambda>a. panic a = None"
    assume split: "mset fin + mset left = mset sessions" and sub: "set fin \<subseteq> set (pool_sessions (gw_sessions G))"
      and ms: "set (sn_machines s) = (\<lambda>a. collect_machine pr (session_snapshot_of (gw_heap (later a) ! a)) (answers a)) ` {a \<in> set fin. ?ok a}"
      and id: "\<And>a. a \<in> set fin \<Longrightarrow> se_machine_id (sm_session (collect_machine pr (session_snapshot_of (gw_heap (later a) ! a)) (answers a))) = ?key a"
      and ids: "machine_ids s = sort (map ?key (filter ?ok fin))" and es: "sn_errors s = [] \<longleftrightarrow> left = [] \<and> filter ?ok fin = fin"
    have all: "mset (map ?key sessions) = mset (RBT.keys (gw_sessions G))"
      using map_listed_machine [OF inv] assms(2) by (metis mset_map)
    have "mset (map ?key (fin @ left)) = mset (map ?key sessions)" unfolding mset_map mset_append split ..
    then have "distinct (map ?key (fin @ left))" using all RBT.distinct_keys mset_eq_imp_distinct_iff by metis
    then have dist: "distinct (map ?key (filter ?ok fin))" using distinct_map_filter by auto
    have "sn_errors s = [] \<longleftrightarrow> machine_ids s = RBT.keys (gw_sessions G)"
    proof
      assume "sn_errors s = []"
      then have fin: "filter ?ok fin = fin" and "left = []" using es by simp_all
      then have "mset (map ?key fin) = mset (map ?key sessions)" unfolding mset_map using split by simp
      then have "mset (map ?key (filter ?ok fin)) = mset (RBT.keys (gw_sessions G))" unfolding fin all .
      then show "machine_ids s = RBT.keys (gw_sessions G)" unfolding ids by (intro properties_for_sort) simp_all
    next
      assume "machine_ids s = RBT.keys (gw_sessions G)"
      then have "length (filter ?ok fin) = length sessions"
        using arg_cong [OF all, of size] arg_cong [OF ids, of length] by simp
      from mset_filter_eq [OF split this] show "sn_errors s = []" by (simp add: es)
    qed
    moreover have "\<exists>a. RBT.lookup (gw_sessions G) (se_machine_id (sm_session m)) = Some a \<and>
        m = collect_machine pr (session_snapshot_of (gw_heap (later a) ! a)) (answers a)" if "m \<in> set (sn_machines s)" for m
      using that id sub pool_session_listed [OF inv] unfolding ms by fastforce
    ultimately show ?thesis using dist sub unfolding ids map_listed_machine [OF inv, symmetric] by auto
  qed
qed


section \<open>Acceptance by the controller\<close>

lemma collect_instance_fields [simp]:
  "si_instance_id (collect_instance pr ia iid) = iid" "si_observed_at_ms (collect_instance pr ia iid) = ia_time ia"
  by (simp_all add: collect_instance_def split: prod.splits)

text \<open>The gateway has a list where the database requires one.\<close>

definition lists_present :: "snapshot_instance \<Rightarrow> bool" where
  "lists_present i \<longleftrightarrow>
     (case si_node i of None \<Rightarrow> True | Some n \<Rightarrow> nd_proxy_cidrs n \<noteq> None \<and> nd_listeners n \<noteq> None) \<and>
     list_all (\<lambda>p. sp_tunnel_protocols p \<noteq> None) (si_peers i)"

lemma join_routes_present: "list_all (\<lambda>p. sp_tunnel_protocols p \<noteq> None) (join_routes pr t rs)"
  by (induction rs arbitrary: t) (simp_all add: peer_view_def Let_def)

lemma collect_instance_present: "lists_present (collect_instance pr ia iid)"
proof -
  have "list_all (\<lambda>p. sp_tunnel_protocols p \<noteq> None) (join_peers_and_routes pr peers routes)" for peers routes
    using join_routes_present [of pr "peers_by_id pr peers" routes] by (simp add: join_peers_and_routes_def list_all_iff)
  then show ?thesis
    by (auto simp: lists_present_def collect_instance_def node_view_def split: prod.splits option.splits)
qed

lemma collect_machine_fields:
  assumes "session_machine g = Some mid"
  shows "sm_observed_at_ms (collect_machine pr (session_snapshot_of g) ma) = ma_time ma"
    and "se_connected_at_ms (sm_session (collect_machine pr (session_snapshot_of g) ma)) = ss_connected_at_ms (gs_state g)"
    and "se_last_heartbeat_at_ms (sm_session (collect_machine pr (session_snapshot_of g) ma)) = ss_last_heartbeat_at_ms (gs_state g)"
    and "i \<in> set (sm_instances (collect_machine pr (session_snapshot_of g) ma)) \<Longrightarrow>
      \<exists>ids n. ma_instances ma = RpcOk ids \<and> n < length ids \<and> i = collect_instance pr (ma_instance ma n) (ids ! n)"
proof -
  obtain hb where hb: "ss_heartbeat (gs_state g) = Some hb" "hb_machine_id hb = Some mid"
    using assms by (auto simp: session_machine_def bind_eq_Some_conv)
  note defs = collect_machine_def session_snapshot_of_def session_view_def machine_failed_def hb
  show "sm_observed_at_ms (collect_machine pr (session_snapshot_of g) ma) = ma_time ma"
    and "se_connected_at_ms (sm_session (collect_machine pr (session_snapshot_of g) ma)) = ss_connected_at_ms (gs_state g)"
    and "se_last_heartbeat_at_ms (sm_session (collect_machine pr (session_snapshot_of g) ma)) = ss_last_heartbeat_at_ms (gs_state g)"
    by (simp_all add: defs split: rpc.splits)
  show "\<exists>ids n. ma_instances ma = RpcOk ids \<and> n < length ids \<and> i = collect_instance pr (ma_instance ma n) (ids ! n)"
    if "i \<in> set (sm_instances (collect_machine pr (session_snapshot_of g) ma))"
    using that by (auto simp: defs in_set_enumerate_eq split: rpc.splits)
qed

text \<open>The clock of the gateway is sane during a collection, and the collection has an identifier.\<close>

definition sane_collection :: "collection_env \<Rightarrow> nat list \<Rightarrow> (nat \<Rightarrow> gateway) \<Rightarrow> (nat \<Rightarrow> ('a, 'p) machine_answers) \<Rightarrow> bool" where
  "sane_collection env sessions later answers \<longleftrightarrow>
     ce_collection_id env \<noteq> 0 \<and> ce_started env \<le> ce_completed env \<and> ce_completed env \<le> maxTimestampMS \<and>
     (\<forall>a \<in> set sessions. ma_time (answers a) \<le> ce_completed env \<and> (\<forall>n. ia_time (ma_instance (answers a) n) \<le> ce_completed env) \<and>
        ss_connected_at_ms (gs_state (gw_heap (later a) ! a)) \<le> maxTimestampMS \<and>
        ss_last_heartbeat_at_ms (gs_state (gw_heap (later a) ! a)) \<le> maxTimestampMS)"

definition reports_nil_instance :: "('a, 'p) machine_answers \<Rightarrow> bool" where
  "reports_nil_instance ma = (case ma_instances ma of RpcOk ids \<Rightarrow> 0 \<in> set ids | _ \<Rightarrow> False)"

lemma collect_machine_instance_ids:
  assumes "session_machine g = Some mid"
  shows "si_instance_id ` set (sm_instances (collect_machine pr (session_snapshot_of g) ma)) =
    (case ma_instances ma of RpcOk ids \<Rightarrow> set ids | _ \<Rightarrow> {})"
proof -
  obtain hb where hb: "ss_heartbeat (gs_state g) = Some hb" "hb_machine_id hb = Some mid"
    using assms by (auto simp: session_machine_def bind_eq_Some_conv)
  have ids: "si_instance_id ` (\<lambda>(n, iid). collect_instance pr (ma_instance ma n) iid) ` set (enumerate 0 ids) = set ids" for ids
  proof -
    have "si_instance_id ` (\<lambda>(n, iid). collect_instance pr (ma_instance ma n) iid) ` set (enumerate 0 ids) =
        snd ` set (enumerate 0 ids)"
      unfolding image_image by (rule image_cong [OF refl]) (simp add: collect_instance_def Let_def case_prod_beta)
    also have "\<dots> = set ids" by (simp flip: set_map)
    finally show ?thesis .
  qed
  show ?thesis
    using ids by (simp add: collect_machine_def session_snapshot_of_def session_view_def machine_failed_def hb split: rpc.splits)
qed

lemma collect_machine_valid:
  assumes "session_machine (gw_heap (later a) ! a) = Some mid" and "sane_collection env sessions later answers"
    and m: "m = collect_machine pr (session_snapshot_of (gw_heap (later a) ! a)) (answers a)" and a: "a \<in> set sessions"
  shows "valid_machine (ce_completed env) m \<longleftrightarrow> mid \<noteq> 0 \<and> \<not> reports_nil_instance (answers a)"
    and "list_all lists_present (sm_instances m)"
proof -
  have i: "(valid_instance (ce_completed env) i \<longleftrightarrow> si_instance_id i \<noteq> 0) \<and> lists_present i" if i: "i \<in> set (sm_instances m)" for i
  proof -
    obtain ids n where i: "i = collect_instance pr (ma_instance (answers a) n) (ids ! n)"
      using collect_machine_fields(4) [OF assms(1)] i m by blast
    moreover have "ia_time (ma_instance (answers a) n) \<le> ce_completed env" using assms(2) a by (simp add: sane_collection_def)
    ultimately show ?thesis by (simp add: valid_instance_def collect_instance_present)
  qed
  then show "list_all lists_present (sm_instances m)" by (simp add: list_all_iff)
  have "reports_nil_instance (answers a) \<longleftrightarrow> 0 \<in> si_instance_id ` set (sm_instances m)"
    unfolding m collect_machine_instance_ids [OF assms(1)] reports_nil_instance_def by (simp split: rpc.splits)
  with i have "list_all (valid_instance (ce_completed env)) (sm_instances m) \<longleftrightarrow> \<not> reports_nil_instance (answers a)"
    by (auto simp: list_all_iff)
  then show "valid_machine (ce_completed env) m \<longleftrightarrow> mid \<noteq> 0 \<and> \<not> reports_nil_instance (answers a)"
    using assms(2) a collect_machine_session(1) [OF assms(1), of pr "answers a"] collect_machine_fields(1-3) [OF assms(1), of pr "answers a"]
    by (auto simp: valid_machine_def m sane_collection_def)
qed

text \<open>A client with the right token is listed under whatever machine it reports.\<close>

lemma any_machine_admitted:
  "\<exists>G. reachable gateway_enabled gateway_exec (new_gateway token) G \<and> RBT.lookup (gw_sessions G) mid \<noteq> None"
proof -
  let ?hb = "(sample_heartbeat mid)\<lparr>hb_user_token := (case token of None \<Rightarrow> [] | Some t \<Rightarrow> t)\<rparr>"
  let ?es = "[Accepted 1 (Inr (js ''udp://a'', True)), HeartbeatCall 0 2 ?hb, AwaitRound 0]"
  note defs = new_gateway_def accept_session_def deliver_heartbeat_def heartbeat_def new_session_def
    sample_heartbeat_def await_heartbeat_def wait_for_first_heartbeat_def snapshot_machine_id_def pool_insert_def
  have "trace_ok gateway_enabled gateway_exec ?es (new_gateway token)"
    by (cases token) (simp_all add: defs)
  then have "reachable gateway_enabled gateway_exec (new_gateway token) (run_events gateway_exec ?es (new_gateway token))"
    by (rule reachable_run [OF reachable.start])
  moreover have "RBT.lookup (gw_sessions (run_events gateway_exec ?es (new_gateway token))) mid \<noteq> None"
    by (cases token) (simp_all add: defs)
  ultimately show ?thesis by blast
qed

text \<open>
  C17. Which collections the controller accepts. When the clock is sane and the collection has an
  identifier, a snapshot of the gateway passes the controller's validation exactly when neither the nil
  machine nor the nil instance is in it; a snapshot without errors does exactly when the nil machine is
  not listed and no listed client answered with the nil instance. It has every list that the database
  requires. Whatever its token, the gateway can list the nil machine, and with it every collection that
  succeeds is rejected.
\<close>

theorem collection_accepted:
  assumes "reachable gateway_enabled gateway_exec (new_gateway token) G"
    and "mset sessions = mset (pool_sessions (gw_sessions G))"
    and "\<And>a. \<exists>es. trace_ok gateway_enabled gateway_exec es G \<and> later a = run_events gateway_exec es G"
    and "0 < ce_concurrency env" and "s = collect_topology env (machine_task pr panic later answers) sessions"
    and "sane_collection env sessions later answers"
  shows "(Validate s = None \<longleftrightarrow>
      0 \<notin> set (machine_ids s) \<and> (\<forall>m \<in> set (sn_machines s). \<forall>i \<in> set (sm_instances m). si_instance_id i \<noteq> 0)) \<and>
    (sn_errors s = [] \<longrightarrow> (Validate s = None \<longleftrightarrow>
      RBT.lookup (gw_sessions G) 0 = None \<and> (\<forall>a \<in> set sessions. \<not> reports_nil_instance (answers a)))) \<and>
    (\<forall>m \<in> set (sn_machines s). list_all lists_present (sm_instances m)) \<and>
    (\<exists>G1. reachable gateway_enabled gateway_exec (new_gateway token) G1 \<and> RBT.lookup (gw_sessions G1) 0 \<noteq> None)"
proof -
  have inv: "gateway_inv G" using gateway_task.inv_reachable [OF assms(1)] by simp
  show ?thesis
  proof (rule collected_sessions [OF inv assms(2-5)])
    fix fin left
    let ?m = "\<lambda>a. collect_machine pr (session_snapshot_of (gw_heap (later a) ! a)) (answers a)"
    assume split: "mset fin + mset left = mset sessions" and sub: "set fin \<subseteq> set (pool_sessions (gw_sessions G))"
      and ms: "set (sn_machines s) = ?m ` {a \<in> set fin. panic a = None}"
      and ids: "machine_ids s = sort (map (listed_machine G) (filter (\<lambda>a. panic a = None) fin))"
      and es: "sn_errors s = [] \<longleftrightarrow> left = [] \<and> filter (\<lambda>a. panic a = None) fin = fin"
    have machine: "session_machine (gw_heap (later a) ! a) = Some (listed_machine G a)" if "a \<in> set fin" for a
      using assms(3) [of a] later_session [OF inv, of a] sub that by blast
    have valid: "valid_machine (ce_completed env) (?m a) \<longleftrightarrow> listed_machine G a \<noteq> 0 \<and> \<not> reports_nil_instance (answers a)" "list_all lists_present (sm_instances (?m a))" if "a \<in> set fin" for a
      using collect_machine_valid [OF machine [OF that] assms(6) refl] arg_cong [OF split, of set_mset] that by auto
    have nil_instance: "reports_nil_instance (answers a) \<longleftrightarrow> (\<exists>i \<in> set (sm_instances (?m a)). si_instance_id i = 0)" if "a \<in> set fin" for a
    proof -
      have "reports_nil_instance (answers a) \<longleftrightarrow> 0 \<in> si_instance_id ` set (sm_instances (?m a))"
        unfolding collect_machine_instance_ids [OF machine [OF that]] by (simp add: reports_nil_instance_def split: rpc.splits)
      then show ?thesis by (auto simp: image_iff)
    qed
    have accepted: "Validate s = None \<longleftrightarrow>
        0 \<notin> set (machine_ids s) \<and> (\<forall>a \<in> set fin. panic a = None \<longrightarrow> \<not> reports_nil_instance (answers a))"
      using assms(6) valid(1) unfolding Validate_None valid_snapshot_def list_all_iff ms ids
      by (auto simp: assms(5) collect_topology_def Let_def TOPOLOGY_SCHEMA_VERSION_def SchemaVersion_def sane_collection_def)
    have "0 \<in> set (machine_ids s) \<longleftrightarrow> RBT.lookup (gw_sessions G) 0 \<noteq> None" if "sn_errors s = []"
    proof -
      have "set fin = set (pool_sessions (gw_sessions G))" using that es split mset_eq_setD [of fin "pool_sessions (gw_sessions G)"] assms(2) by simp
      then have "set (machine_ids s) = set (RBT.keys (gw_sessions G))"
        using that es unfolding ids map_listed_machine [OF inv, symmetric] by simp
      then show ?thesis by (auto simp: domIff simp flip: RBT.lookup_keys)
    qed
    moreover have "(\<forall>a \<in> set fin. panic a = None \<longrightarrow> \<not> reports_nil_instance (answers a)) \<longleftrightarrow>
        (\<forall>m \<in> set (sn_machines s). \<forall>i \<in> set (sm_instances m). si_instance_id i \<noteq> 0)"
      using nil_instance unfolding ms by blast
    moreover have "(\<forall>a \<in> set fin. panic a = None \<longrightarrow> \<not> reports_nil_instance (answers a)) \<longleftrightarrow>
        (\<forall>a \<in> set sessions. \<not> reports_nil_instance (answers a))" if "sn_errors s = []"
    proof -
      have "left = []" and "filter (\<lambda>a. panic a = None) fin = fin" using that es by simp_all
      then show ?thesis using mset_eq_setD [of fin sessions] split by (auto simp: filter_id_conv)
    qed
    moreover have "\<forall>m \<in> set (sn_machines s). list_all lists_present (sm_instances m)" using valid(2) unfolding ms by blast
    ultimately show ?thesis using accepted any_machine_admitted [of token 0] by blast
  qed
qed

text \<open>A collection of the one session that the sample connections leave in the pool.\<close>

definition sample_gateway :: "uuid \<Rightarrow> gateway" where
  "sample_gateway mid = run_events gateway_exec (sample_connections mid) (new_gateway (Some (js ''secret'')))"

definition sample_proto :: "(unit, 32 word) proto" where
  "sample_proto = \<lparr>pr_peer_id = \<lambda>p. p, pr_address = \<lambda>a. [], pr_latency_ms = \<lambda>r p. None, pr_loss_rate = \<lambda>r p. None,
     pr_rx_bytes = \<lambda>r p. None, pr_tx_bytes = \<lambda>r p. None, pr_conn_protos = \<lambda>r p. None\<rparr>"

definition sample_answers :: "(unit, 32 word) machine_answers" where
  "sample_answers = \<lparr>ma_instances = RpcOk [5], ma_instance = \<lambda>n. \<lparr>ia_peers = RpcOk [], ia_routes = RpcOk [],
     ia_node = RpcOk (Some \<lparr>na_peer_id = 2, na_ipv4_addr = js ''10.0.0.2'', na_hostname = js ''edge'', na_proxy_cidrs = [], na_listeners = [],
       na_version = js ''2.6''\<rparr>),
     ia_stats = RpcOk [], ia_time = 9\<rparr>, ma_time = 9\<rparr>"

definition sample_collection :: collection_env where
  "sample_collection = \<lparr>ce_collection_id = 3, ce_started = 5, ce_completed = 10, ce_schedule = \<lambda>n. Some 0, ce_concurrency = 1, ce_timeout_ms = 1000\<rparr>"

definition sample_collected :: "uuid \<Rightarrow> snapshot" where
  "sample_collected mid = collect_topology sample_collection
     (machine_task sample_proto (\<lambda>a. None) (\<lambda>a. sample_gateway mid) (\<lambda>a. sample_answers)) [1]"

lemma sample_collected_errors: "sn_errors (sample_collected mid) = []"
  by (simp add: sample_collected_def collect_topology_def Let_def sample_collection_def collection_start_def collect_loop.simps
      join_task_def record_result_def machine_task_def)

lemma sample_gateway_pool: "RBT.entries (gw_sessions (sample_gateway mid)) = [(mid, 1)]"
proof -
  have "RBT.lookup (gw_sessions (sample_gateway mid)) = RBT.lookup (RBT.insert mid 1 RBT.empty)"
    unfolding sample_gateway_def sample_connections_pool by simp
  then show ?thesis unfolding RBT.entries_lookup [symmetric] entries_singleton .
qed

lemma sample_gateway_times:
  "ss_connected_at_ms (gs_state (gw_heap (sample_gateway mid) ! 1)) = 3" "ss_last_heartbeat_at_ms (gs_state (gw_heap (sample_gateway mid) ! 1)) = 4"
  by (simp_all add: sample_gateway_def sample_connections_def new_gateway_def accept_session_def deliver_heartbeat_def heartbeat_def new_session_def
      sample_heartbeat_def await_heartbeat_def wait_for_first_heartbeat_def snapshot_machine_id_def pool_insert_def stop_previous_def
      stop_session_def watch_session_def)

lemma sample_gateway_later: "\<exists>es. trace_ok gateway_enabled gateway_exec es G \<and> G = run_events gateway_exec es G"
  by (rule exI [of _ "[]"]) simp

theorem collection_covers_pool_witness:
  "sn_errors (sample_collected 7) = [] \<and> machine_ids (sample_collected 7) = [7]"
proof -
  have reach: "reachable gateway_enabled gateway_exec (new_gateway (Some (js ''secret''))) (sample_gateway 7)"
    unfolding sample_gateway_def by (rule sample_connections_reachable)
  have pool: "mset [1] = mset (pool_sessions (gw_sessions (sample_gateway 7)))" by (simp add: pool_sessions_def sample_gateway_pool)
  have "0 < ce_concurrency sample_collection" by (simp add: sample_collection_def)
  from collection_covers_pool [OF reach pool sample_gateway_later this sample_collected_def]
  show ?thesis by (simp add: sample_collected_errors RBT.keys_def_alt sample_gateway_pool)
qed

theorem collection_accepted_witness:
  "Validate (sample_collected 7) = None \<and> Validate (sample_collected 0) \<noteq> None"
proof -
  have reach: "reachable gateway_enabled gateway_exec (new_gateway (Some (js ''secret''))) (sample_gateway mid)" for mid
    unfolding sample_gateway_def by (rule sample_connections_reachable)
  have pool: "mset [1] = mset (pool_sessions (gw_sessions (sample_gateway mid)))" for mid by (simp add: pool_sessions_def sample_gateway_pool)
  have concurrency: "0 < ce_concurrency sample_collection" by (simp add: sample_collection_def)
  have sane: "sane_collection sample_collection [1] (\<lambda>a. sample_gateway mid) (\<lambda>a. sample_answers)" for mid
    unfolding sane_collection_def
    by (simp add: sample_gateway_times [unfolded One_nat_def], simp add: sample_collection_def sample_answers_def maxTimestampMS_def)
  have nil: "\<not> reports_nil_instance sample_answers" by (simp add: reports_nil_instance_def sample_answers_def)
  have "Validate (sample_collected mid) = None \<longleftrightarrow> RBT.lookup (gw_sessions (sample_gateway mid)) 0 = None" for mid
  proof -
    note accepted = collection_accepted [OF reach pool sample_gateway_later concurrency sample_collected_def sane, THEN conjunct2, THEN conjunct1]
    show ?thesis using accepted [THEN mp, OF sample_collected_errors] nil by blast
  qed
  then show ?thesis by (simp add: sample_gateway_def sample_connections_pool del: js_Cons)
qed

end
