(* ===== verification/Gateway_Api.thy ===== *)
theory Gateway_Api
  imports Collector
begin

text \<open>
  The interface of the gateway: \<^verbatim>\<open>api.rs\<close>, and \<^verbatim>\<open>topology\<close> and \<^verbatim>\<open>sessions\<close> of \<^verbatim>\<open>telemetry.rs\<close>. A request
  for the topology is answered from the last snapshot while that is young enough; otherwise it
  joins the collection in progress or starts one. Requests and collections are concurrent: a
  collection stores its snapshot under the lock and publishes it to its watch channel afterwards.
\<close>

section \<open>Sessions, health and readiness\<close>

definition gateway_sessions :: "gateway \<Rightarrow> nat list \<Rightarrow> session list" where
  "gateway_sessions G sessions =
     sort_key se_machine_id (concat (map (\<lambda>a. case and_then (session_snapshot_of (gw_heap G ! a)) session_view of
       Inl e \<Rightarrow> [] | Inr v \<Rightarrow> [v]) sessions))"

datatype gateway_body =
    HealthResponse jsstr nat
  | ErrorResponse jsstr jsstr
  | SessionsBody "session list"

definition gateway_health :: "gateway \<Rightarrow> nat \<times> gateway_body" where
  "gateway_health G = (200, HealthResponse (js ''ok'') (length (pool_sessions (gw_sessions G))))"

definition gateway_ready :: "gateway \<Rightarrow> nat \<times> gateway_body" where
  "gateway_ready G =
     (if pool_sessions (gw_sessions G) = []
      then (503, ErrorResponse (js ''no_active_sessions'') (js ''no EasyTier clients have registered''))
      else (200, HealthResponse (js ''ready'') (length (pool_sessions (gw_sessions G)))))"

definition list_sessions :: "gateway \<Rightarrow> nat list \<Rightarrow> nat \<times> gateway_body" where
  "list_sessions G sessions = (200, SessionsBody (gateway_sessions G sessions))"

definition route_not_found :: "nat \<times> gateway_body" where
  "route_not_found = (404, ErrorResponse (js ''route_not_found'') (js ''the requested gateway API route does not exist''))"

text \<open>The routes; \<^verbatim>\<open>get\<close> also serves \<^verbatim>\<open>HEAD\<close>, and the router itself answers other methods on a known path.\<close>

datatype gateway_route = HealthRoute | ReadyRoute | SessionsRoute | TopologyRoute | MethodNotAllowed | NotFoundRoute

definition gateway_router :: "jsstr \<Rightarrow> jsstr \<Rightarrow> gateway_route" where
  "gateway_router http_method path =
     (case map_of [(js ''/healthz'', HealthRoute), (js ''/readyz'', ReadyRoute), (js ''/v1/sessions'', SessionsRoute),
         (js ''/v1/topology'', TopologyRoute)] path of
        None \<Rightarrow> NotFoundRoute
      | Some h \<Rightarrow> if http_method \<in> {js ''GET'', js ''HEAD''} then h else MethodNotAllowed)"

text \<open>The listing has every session of the pool, in the order of the machines.\<close>

lemma gateway_sessions_exact:
  assumes "gateway_inv G" and "mset sessions = mset (pool_sessions (gw_sessions G))"
  shows "map se_machine_id (gateway_sessions G sessions) = RBT.keys (gw_sessions G)"
proof -
  have view: "map se_machine_id (case and_then (session_snapshot_of (gw_heap G ! a)) session_view of Inl e \<Rightarrow> [] | Inr v \<Rightarrow> [v]) =
      [listed_machine G a]" if "a \<in> set sessions" for a
    using listed_session(2) [OF assms(1) pool_session_listed [OF assms(1), of a]] mset_eq_setD [OF assms(2)] that
    by (auto simp: session_machine_def bind_eq_Some_conv session_snapshot_of_def session_view_def Let_def)
  have "map se_machine_id (concat (map (\<lambda>a. case and_then (session_snapshot_of (gw_heap G ! a)) session_view of
      Inl e \<Rightarrow> [] | Inr v \<Rightarrow> [v]) sessions)) = concat (map (\<lambda>a. [listed_machine G a]) sessions)"
    unfolding map_concat map_map comp_def by (intro arg_cong [where f = concat] map_cong refl view)
  then have "map se_machine_id (gateway_sessions G sessions) = sort (map (listed_machine G) sessions)"
    by (simp add: gateway_sessions_def sorted_ids)
  also have "\<dots> = RBT.keys (gw_sessions G)"
  proof (rule properties_for_sort)
    have "mset (map (listed_machine G) sessions) = mset (map (listed_machine G) (pool_sessions (gw_sessions G)))" by (simp add: assms(2))
    then show "mset (RBT.keys (gw_sessions G)) = mset (map (listed_machine G) sessions)" by (simp only: map_listed_machine [OF assms(1)])
  qed simp
  finally show ?thesis .
qed

section \<open>The cached topology\<close>

record collector_state =
  tc_cached :: "snapshot option"
  tc_running :: "nat option"
  tc_channels :: "snapshot option list"
  tc_collecting :: "nat list"
  tc_publishing :: "(nat \<times> snapshot) list"
  tc_waiting :: "(nat \<times> nat) list"
  tc_answered :: "(nat \<times> snapshot) list"

definition collector_start :: collector_state where
  "collector_start = \<lparr>tc_cached = None, tc_running = None, tc_channels = [], tc_collecting = [], tc_publishing = [], tc_waiting = [],
     tc_answered = []\<rparr>"

definition snapshot_age :: "64 word \<Rightarrow> snapshot \<Rightarrow> 64 word" where
  "snapshot_age now s = (if sn_completed_at_ms s \<le> now then now - sn_completed_at_ms s else 0)"

definition cache_hit :: "64 word \<Rightarrow> 64 word \<Rightarrow> collector_state \<Rightarrow> snapshot option" where
  "cache_hit ttl now st = (case tc_cached st of None \<Rightarrow> None | Some s \<Rightarrow> if snapshot_age now s \<le> ttl then Some s else None)"

definition topology_request :: "64 word \<Rightarrow> 64 word \<Rightarrow> nat \<Rightarrow> collector_state \<Rightarrow> collector_state" where
  "topology_request ttl now r st =
     (case cache_hit ttl now st of
        Some s \<Rightarrow> st\<lparr>tc_answered := tc_answered st @ [(r, s)]\<rparr>
      | None \<Rightarrow>
          (case tc_running st of
             Some c \<Rightarrow> st\<lparr>tc_waiting := tc_waiting st @ [(r, c)]\<rparr>
           | None \<Rightarrow>
               (let c = length (tc_channels st) in
                st\<lparr>tc_running := Some c, tc_channels := tc_channels st @ [None], tc_collecting := tc_collecting st @ [c],
                   tc_waiting := tc_waiting st @ [(r, c)]\<rparr>)))"

definition collection_done :: "nat \<Rightarrow> snapshot \<Rightarrow> collector_state \<Rightarrow> collector_state" where
  "collection_done c s st =
     st\<lparr>tc_cached := Some s, tc_running := None, tc_collecting := remove1 c (tc_collecting st),
        tc_publishing := tc_publishing st @ [(c, s)]\<rparr>"

definition publish :: "nat \<Rightarrow> snapshot \<Rightarrow> collector_state \<Rightarrow> collector_state" where
  "publish c s st = st\<lparr>tc_channels := (tc_channels st)[c := Some s], tc_publishing := remove1 (c, s) (tc_publishing st)\<rparr>"

definition receive :: "nat \<Rightarrow> nat \<Rightarrow> collector_state \<Rightarrow> collector_state" where
  "receive r c st =
     (case tc_channels st ! c of
        None \<Rightarrow> st
      | Some s \<Rightarrow> st\<lparr>tc_waiting := remove1 (r, c) (tc_waiting st), tc_answered := tc_answered st @ [(r, s)]\<rparr>)"

datatype topology_event =
    TopologyRequest "64 word" nat
  | CollectionDone nat snapshot
  | Publish nat snapshot
  | Receive nat nat

text \<open>A request has an identity of its own, so that its answer can be told from the others.\<close>

fun topology_enabled :: "topology_event \<Rightarrow> collector_state \<Rightarrow> bool" where
  "topology_enabled (TopologyRequest now r) st = (r \<notin> fst ` set (tc_waiting st) \<and> r \<notin> fst ` set (tc_answered st))"
| "topology_enabled (CollectionDone c s) st = (c \<in> set (tc_collecting st))"
| "topology_enabled (Publish c s) st = ((c, s) \<in> set (tc_publishing st))"
| "topology_enabled (Receive r c) st = ((r, c) \<in> set (tc_waiting st))"

fun topology_exec :: "64 word \<Rightarrow> topology_event \<Rightarrow> collector_state \<Rightarrow> collector_state" where
  "topology_exec ttl (TopologyRequest now r) st = topology_request ttl now r st"
| "topology_exec ttl (CollectionDone c s) st = collection_done c s st"
| "topology_exec ttl (Publish c s) st = publish c s st"
| "topology_exec ttl (Receive r c) st = receive r c st"

section \<open>Single flight\<close>

text \<open>
  At most one collection is in progress, and it is the one new requests join; its channel is empty
  until it publishes; every waiting request has a collection that is in progress, about to publish,
  or published.
\<close>

definition flight_inv :: "collector_state \<Rightarrow> bool" where
  "flight_inv st \<longleftrightarrow>
     tc_collecting st = (case tc_running st of None \<Rightarrow> [] | Some c \<Rightarrow> [c]) \<and>
     (\<forall>c \<in> set (tc_collecting st). c < length (tc_channels st) \<and> tc_channels st ! c = None \<and> c \<notin> fst ` set (tc_publishing st)) \<and>
     (\<forall>c \<in> fst ` set (tc_publishing st). c < length (tc_channels st)) \<and>
     (\<forall>c \<in> snd ` set (tc_waiting st). c < length (tc_channels st) \<and>
        (c \<in> set (tc_collecting st) \<or> c \<in> fst ` set (tc_publishing st) \<or> tc_channels st ! c \<noteq> None))"


lemma flight_waiting:
  "flight_inv st \<Longrightarrow> c \<in> snd ` set (tc_waiting st) \<Longrightarrow>
     c < length (tc_channels st) \<and> (c \<in> set (tc_collecting st) \<or> c \<in> fst ` set (tc_publishing st) \<or> tc_channels st ! c \<noteq> None)"
  unfolding flight_inv_def by blast

lemma flight_collecting:
  "flight_inv st \<Longrightarrow> c \<in> set (tc_collecting st) \<Longrightarrow>
     c < length (tc_channels st) \<and> tc_channels st ! c = None \<and> c \<notin> fst ` set (tc_publishing st) \<and> tc_collecting st = [c]"
  unfolding flight_inv_def by (auto split: option.splits)

lemma flight_fewer_waiting:
  assumes "flight_inv st" and "snd ` set ws \<subseteq> snd ` set (tc_waiting st)"
  shows "flight_inv (st\<lparr>tc_waiting := ws, tc_answered := xs\<rparr>)"
proof -
  have "c < length (tc_channels st) \<and> (c \<in> set (tc_collecting st) \<or> c \<in> fst ` set (tc_publishing st) \<or> tc_channels st ! c \<noteq> None)"
    if "c \<in> snd ` set ws" for c
    using flight_waiting [OF assms(1)] assms(2) that by blast
  then show ?thesis using assms(1) unfolding flight_inv_def by simp
qed

lemma flight_request: "flight_inv st \<Longrightarrow> flight_inv (topology_request ttl now r st)"
  by (auto simp: flight_inv_def topology_request_def Let_def nth_append split: option.splits)

lemma flight_done: "flight_inv st \<Longrightarrow> c \<in> set (tc_collecting st) \<Longrightarrow> flight_inv (collection_done c s st)"
  by (auto simp: flight_inv_def collection_done_def split: option.splits)

lemma image_remove1: "f ` set (remove1 x xs) \<subseteq> f ` set xs"
  using set_remove1_subset by (rule image_mono)

lemma image_remove1_other: "d \<noteq> f x \<Longrightarrow> d \<in> f ` set xs \<Longrightarrow> d \<in> f ` set (remove1 x xs)"
  by (induction xs) auto

lemma flight_publish:
  assumes "flight_inv st" and "(c, s) \<in> set (tc_publishing st)"
  shows "flight_inv (publish c s st)"
proof -
  have pub: "c \<in> fst ` set (tc_publishing st)" using assms(2) by (metis fst_conv imageI)
  have c: "c < length (tc_channels st)" and new: "c \<notin> set (tc_collecting st)" using assms(1) pub by (auto simp: flight_inv_def)
  let ?left = "fst ` set (remove1 (c, s) (tc_publishing st))"
  have sub: "?left \<subseteq> fst ` set (tc_publishing st)" by (rule image_remove1)
  have "d < length (tc_channels st) \<and> (d \<in> set (tc_collecting st) \<or> d \<in> ?left \<or> (tc_channels st)[c := Some s] ! d \<noteq> None)"
    if "d \<in> snd ` set (tc_waiting st)" for d
    using flight_waiting [OF assms(1) that] c image_remove1_other [of d fst "(c, s)" "tc_publishing st"]
    by (cases "d = c") auto
  moreover have "d < length (tc_channels st) \<and> (tc_channels st)[c := Some s] ! d = None \<and> d \<notin> ?left" if "d \<in> set (tc_collecting st)" for d
    using flight_collecting [OF assms(1) that] new sub that by (cases "d = c") auto
  moreover have "\<forall>d \<in> ?left. d < length (tc_channels st)" using assms(1) sub by (auto simp: flight_inv_def)
  ultimately show ?thesis using assms(1) unfolding flight_inv_def publish_def by simp
qed

lemma flight_receive: "flight_inv st \<Longrightarrow> flight_inv (receive r c st)"
  by (simp add: receive_def flight_fewer_waiting image_remove1 split: option.splits)

lemma flight_step: "flight_inv st \<Longrightarrow> topology_enabled e st \<Longrightarrow> flight_inv (topology_exec ttl e st)"
  by (cases e) (simp_all add: flight_request flight_done flight_publish flight_receive)

interpretation topology_cache: safe_component topology_enabled "topology_exec ttl" collector_start flight_inv for ttl
proof
  show "flight_inv collector_start" by (simp add: flight_inv_def collector_start_def)
qed (rule flight_step)


section \<open>Which snapshot answers a request\<close>

text \<open>
  Once a request waits for a collection in progress, nothing but the outcome of that collection
  gets into its channel.
\<close>

definition awaits :: "nat \<Rightarrow> nat \<Rightarrow> topology_event list \<Rightarrow> collector_state \<Rightarrow> bool" where
  "awaits r c es st \<longleftrightarrow>
     c < length (tc_channels st) \<and>
     (\<forall>s. tc_channels st ! c = Some s \<or> (c, s) \<in> set (tc_publishing st) \<longrightarrow> CollectionDone c s \<in> set es) \<and>
     (\<forall>d. (r, d) \<in> set (tc_waiting st) \<longrightarrow> d = c) \<and>
     (\<forall>s. (r, s) \<in> set (tc_answered st) \<longrightarrow> CollectionDone c s \<in> set es) \<and>
     (r \<in> fst ` set (tc_waiting st) \<or> r \<in> fst ` set (tc_answered st))"

lemma awaits_step:
  assumes "awaits r c es st" and "topology_enabled e st"
  shows "awaits r c (es @ [e]) (topology_exec ttl e st)"
proof (cases e)
  case (TopologyRequest now q)
  with assms have "q \<noteq> r" by (auto simp: awaits_def)
  with assms(1) show ?thesis
    by (auto simp: TopologyRequest awaits_def topology_request_def Let_def nth_append split: option.splits)
next
  case (CollectionDone d s)
  with assms(1) show ?thesis by (auto simp: awaits_def collection_done_def)
next
  case (Publish d s)
  have "(d, s) \<in> set (tc_publishing st)" using assms(2) Publish by simp
  with assms(1) show ?thesis
    using set_remove1_subset [of "(d, s)" "tc_publishing st"]
    by (cases "d = c") (auto simp: Publish awaits_def publish_def)
next
  case (Receive q d)
  have d: "(q, d) \<in> set (tc_waiting st)" using assms(2) Receive by simp
  show ?thesis
  proof (cases "tc_channels st ! d")
    case None
    with assms(1) show ?thesis by (auto simp: Receive awaits_def receive_def)
  next
    case (Some s)
    with assms(1) d have "q = r \<Longrightarrow> CollectionDone c s \<in> set es" by (auto simp: awaits_def)
    moreover have "r \<in> fst ` set (remove1 (q, d) (tc_waiting st)) \<or> r \<in> fst ` set (tc_answered st @ [(q, s)])"
      using assms(1) image_remove1_other [of r fst "(q, d)" "tc_waiting st"] by (cases "q = r") (auto simp: awaits_def)
    ultimately show ?thesis
      using assms(1) Some set_remove1_subset [of "(q, d)" "tc_waiting st"] by (auto simp: Receive awaits_def receive_def)
  qed
qed

lemma awaits_run:
  "awaits r c fs st \<Longrightarrow> trace_ok topology_enabled (topology_exec ttl) es st \<Longrightarrow>
     awaits r c (fs @ es) (run_events (topology_exec ttl) es st)"
proof (induction es arbitrary: st fs)
  case (Cons e es)
  from Cons.IH [OF awaits_step [OF Cons.prems(1)]] Cons.prems(2) show ?case by simp
qed simp


lemma request_awaits:
  assumes "flight_inv st" and "topology_enabled (TopologyRequest now r) st" and "cache_hit ttl now st = None"
  obtains c where "tc_collecting (topology_request ttl now r st) = [c]" and "awaits r c [] (topology_request ttl now r st)"
proof (cases "tc_running st")
  case None
  have c: "c \<noteq> length (tc_channels st)" if "(c, s) \<in> set (tc_publishing st)" for c s
    using assms(1) that unfolding flight_inv_def by (metis fst_conv image_eqI less_irrefl)
  have "tc_collecting st = []" using assms(1) None by (simp add: flight_inv_def)
  then show ?thesis
    using assms(2,3) None c that [of "length (tc_channels st)"]
    by (force simp: topology_request_def Let_def awaits_def)
next
  case (Some c)
  then have "tc_collecting st = [c]" using assms(1) by (simp add: flight_inv_def)
  with flight_collecting [OF assms(1), of c] show ?thesis
    using assms(2,3) Some that [of c] by (force simp: topology_request_def awaits_def)
qed

text \<open>A request that was answered from the cache has no other answer.\<close>

definition settled :: "nat \<Rightarrow> snapshot \<Rightarrow> collector_state \<Rightarrow> bool" where
  "settled r s st \<longleftrightarrow>
     r \<notin> fst ` set (tc_waiting st) \<and> r \<in> fst ` set (tc_answered st) \<and> (\<forall>s1. (r, s1) \<in> set (tc_answered st) \<longrightarrow> s1 = s)"

lemma settled_step: "settled r s st \<Longrightarrow> topology_enabled e st \<Longrightarrow> settled r s (topology_exec ttl e st)"
proof (cases e)
  case (Receive q d)
  assume "settled r s st" and "topology_enabled e st"
  moreover from this have "q \<noteq> r" by (force simp: Receive settled_def)
  ultimately show ?thesis
    using image_remove1 [of fst "(q, d)" "tc_waiting st"] by (auto simp: Receive settled_def receive_def split: option.splits)
qed (auto simp: settled_def topology_request_def collection_done_def publish_def Let_def split: option.splits)

lemma settled_run:
  "settled r s st \<Longrightarrow> trace_ok topology_enabled (topology_exec ttl) es st \<Longrightarrow> settled r s (run_events (topology_exec ttl) es st)"
  by (induction es arbitrary: st) (auto intro: settled_step)

text \<open>
  C18. One collection at a time, and every request gets a fresh answer. However requests and
  collections interleave, at most one collection is in progress; a request is answered with a
  cached snapshot that was within its lifetime when the request came, or with the outcome of a
  collection that was in progress then or started for it, never with an earlier one; and until it
  is answered, its collection is in progress, about to publish, or published for it to receive.
\<close>

theorem topology_answered_fresh:
  assumes "reachable topology_enabled (topology_exec ttl) collector_start st" and "topology_enabled (TopologyRequest now r) st"
    and "st1 = topology_exec ttl (TopologyRequest now r) st" and "trace_ok topology_enabled (topology_exec ttl) es st1"
    and "st2 = run_events (topology_exec ttl) es st1"
  shows "length (tc_collecting st2) \<le> 1 \<and>
    ((r, s) \<in> set (tc_answered st2) \<longrightarrow>
      tc_cached st = Some s \<and> snapshot_age now s \<le> ttl \<or> (\<exists>c. tc_collecting st1 = [c] \<and> CollectionDone c s \<in> set es)) \<and>
    (r \<in> fst ` set (tc_answered st2) \<or>
      (\<exists>c. (r, c) \<in> set (tc_waiting st2) \<and>
        (c \<in> set (tc_collecting st2) \<or> c \<in> fst ` set (tc_publishing st2) \<or> tc_channels st2 ! c \<noteq> None)))"
proof -
  have inv: "flight_inv st" using assms(1) by (rule topology_cache.inv_reachable)
  then have "flight_inv st1" using assms(2,3) by (simp only: flight_step)
  then have inv2: "flight_inv st2" unfolding assms(5) using assms(4) by (rule topology_cache.inv_run)
  have one: "length (tc_collecting st2) \<le> 1" using inv2 by (simp add: flight_inv_def split: option.splits)
  have waits: "\<exists>c. (r, c) \<in> set (tc_waiting st2) \<and>
      (c \<in> set (tc_collecting st2) \<or> c \<in> fst ` set (tc_publishing st2) \<or> tc_channels st2 ! c \<noteq> None)" if "r \<in> fst ` set (tc_waiting st2)"
  proof -
    from that obtain c where "(r, c) \<in> set (tc_waiting st2)" by auto
    with flight_waiting [OF inv2, of c] show ?thesis by force
  qed
  show ?thesis
  proof (cases "cache_hit ttl now st")
    case None
    obtain c where c: "tc_collecting st1 = [c]" and "awaits r c [] st1"
      using request_awaits [OF inv assms(2) None] assms(3) by (metis topology_exec.simps(1))
    from awaits_run [OF this(2) assms(4)] have "awaits r c es st2" by (simp add: assms(5))
    with c one waits show ?thesis by (auto simp: awaits_def)
  next
    case (Some s0)
    then have hit: "tc_cached st = Some s0 \<and> snapshot_age now s0 \<le> ttl" by (auto simp: cache_hit_def split: option.splits if_splits)
    have "settled r s0 st1" using assms(2) Some by (force simp: assms(3) topology_request_def settled_def)
    from settled_run [OF this assms(4)] have "settled r s0 st2" by (simp add: assms(5))
    with hit one show ?thesis by (auto simp: settled_def)
  qed
qed

definition sample_flight :: "topology_event list" where
  "sample_flight = [TopologyRequest 7 1, CollectionDone 0 (empty_snapshot 1 8), Publish 0 (empty_snapshot 1 8), Receive 1 0, Receive 0 0]"

theorem topology_answered_fresh_witness:
  "\<exists>st2. st2 = run_events (topology_exec 5) (TopologyRequest 6 0 # sample_flight) collector_start \<and>
     tc_answered st2 = [(1, empty_snapshot 1 8), (0, empty_snapshot 1 8)] \<and> length (tc_collecting st2) \<le> 1"
proof -
  let ?st1 = "topology_exec 5 (TopologyRequest 6 0) collector_start" and ?st2 = "run_events (topology_exec 5) (TopologyRequest 6 0 # sample_flight) collector_start"
  note defs = sample_flight_def topology_request_def cache_hit_def collector_start_def collection_done_def publish_def receive_def
  have "trace_ok topology_enabled (topology_exec 5) sample_flight ?st1" by (simp add: defs Let_def)
  moreover have "tc_answered ?st2 = [(1, empty_snapshot 1 8), (0, empty_snapshot 1 8)]" by (simp add: defs Let_def)
  ultimately show ?thesis
    using topology_answered_fresh [OF reachable.start _ refl, where now = 6 and r = 0 and ttl = 5 and es = sample_flight and ?st2.0 = ?st2]
    by (simp add: collector_start_def)
qed

end
