(* ===== verification/Ingest_Sound.thy ===== *)
theory Ingest_Sound
  imports Ingest "HOL-Library.Sublist"
begin

text \<open>
  What ingestion guarantees of the database, whatever arrives and whatever fails: the references
  between the tables hold, the rows are within the ranges the read model relies on, the recorded
  errors of a run are as many as it counts, a statement never violates a foreign key, and only
  data of the snapshot itself can violate another constraint. A collection is recognised when it
  arrives again, also after its payload was pruned.
\<close>

section \<open>Soundness of the database\<close>

definition run_ok :: "run_rec \<Rightarrow> bool" where
  "run_ok r \<longleftrightarrow>
     rc_started_at r \<le> rc_completed_at r \<and> rc_collected_at r = rc_completed_at r \<and>
     rc_status r = (if rc_error_count r > 0 then js ''partial'' else js ''complete'')"

definition machine_ok :: "database \<Rightarrow> machine_rec \<Rightarrow> bool" where
  "machine_ok db r \<longleftrightarrow> (mc_active r \<longleftrightarrow> mc_disappeared_at r = None) \<and> has_key (db_runs db) (mc_last_collection_id r)"

definition instance_ok :: "database \<Rightarrow> instance_rec \<Rightarrow> bool" where
  "instance_ok db r \<longleftrightarrow>
     (ic_active r \<longleftrightarrow> ic_disappeared_at r = None) \<and> has_key (db_machines db) (ic_machine_id r) \<and>
     has_key (db_runs db) (ic_last_collection_id r)"

definition node_ok :: "database \<Rightarrow> uuid \<Rightarrow> node_rec \<Rightarrow> bool" where
  "node_ok db iid r \<longleftrightarrow>
     has_key (db_instances db) iid \<and> has_key (db_runs db) (nc_last_collection_id r) \<and>
     0 \<le> nc_peer_id r \<and> nc_peer_id r < 2 ^ 32"

definition link_ok :: "database \<Rightarrow> uuid \<times> int \<Rightarrow> link_rec \<Rightarrow> bool" where
  "link_ok db k r \<longleftrightarrow>
     has_key (db_instances db) (fst k) \<and> has_key (db_runs db) (lc_last_collection_id r) \<and>
     0 \<le> snd k \<and> snd k < 2 ^ 32 \<and> 0 \<le> lc_next_hop_peer_id r \<and> lc_next_hop_peer_id r < 2 ^ 32 \<and>
     nonneg (lc_latency_ms r) \<and> nonneg (lc_loss_rate r) \<and> fits64 (lc_rx_bytes r) \<and> fits64 (lc_tx_bytes r) \<and>
     lc_tunnel_protocols r \<noteq> None"

definition sample_refs :: "database \<Rightarrow> sample_row \<Rightarrow> bool" where
  "sample_refs db r \<longleftrightarrow> has_key (db_runs db) (sr_collection_id r) \<and> has_key (db_instances db) (sr_instance_id r)"

definition db_sound :: "database \<Rightarrow> bool" where
  "db_sound db \<longleftrightarrow>
     table_all (\<lambda>cid. run_ok) (db_runs db) \<and> table_all (\<lambda>mid. machine_ok db) (db_machines db) \<and>
     table_all (\<lambda>iid. instance_ok db) (db_instances db) \<and> table_all (node_ok db) (db_nodes db) \<and>
     table_all (link_ok db) (db_links db) \<and> list_all (sample_refs db) (db_samples db) \<and>
     distinct (map sample_key (db_samples db))"

definition errors_exact :: "database \<Rightarrow> bool" where
  "errors_exact db \<longleftrightarrow>
     (\<forall>cid i. has_key (db_errors db) (cid, i) \<longleftrightarrow> (\<exists>r. RBT.lookup (db_runs db) cid = Some r \<and> i < rc_error_count r))"

definition db_consistent :: "database \<Rightarrow> bool" where
  "db_consistent db \<longleftrightarrow> db_sound db \<and> errors_exact db"

text \<open>While a collection is being ingested, its errors are recorded up to the index.\<close>

definition errors_upto :: "uuid \<Rightarrow> database \<Rightarrow> nat \<Rightarrow> bool" where
  "errors_upto cid db n \<longleftrightarrow>
     (\<forall>c i. has_key (db_errors db) (c, i) \<longleftrightarrow>
        (if c = cid then i < n else \<exists>r. RBT.lookup (db_runs db) c = Some r \<and> i < rc_error_count r))"

definition open_run :: "uuid \<Rightarrow> uuid set \<Rightarrow> uuid set \<Rightarrow> database \<Rightarrow> nat \<Rightarrow> bool" where
  "open_run cid mids iids db n \<longleftrightarrow>
     db_sound db \<and> has_key (db_runs db) cid \<and> errors_upto cid db n \<and>
     (\<forall>mid \<in> mids. has_key (db_machines db) mid) \<and> (\<forall>iid \<in> iids. has_key (db_instances db) iid)"

lemmas row_ok_defs = machine_ok_def instance_ok_def node_ok_def link_ok_def sample_refs_def

text \<open>Replacing one table by one with at least its keys.\<close>

lemma db_sound_machines:
  assumes "db_sound db" and "table_all (\<lambda>mid. machine_ok db) t" and "\<And>k. has_key (db_machines db) k \<Longrightarrow> has_key t k"
  shows "db_sound (db\<lparr>db_machines := t\<rparr>)"
  using assms unfolding db_sound_def by (auto simp: row_ok_defs list_all_iff elim!: table_all_mono)

lemma db_sound_instances:
  assumes "db_sound db" and "table_all (\<lambda>iid. instance_ok db) t" and "\<And>k. has_key (db_instances db) k \<Longrightarrow> has_key t k"
  shows "db_sound (db\<lparr>db_instances := t\<rparr>)"
  using assms unfolding db_sound_def by (auto simp: row_ok_defs list_all_iff elim!: table_all_mono)

lemma db_sound_runs:
  assumes "db_sound db" and "table_all (\<lambda>cid. run_ok) t" and "\<And>k. has_key (db_runs db) k \<Longrightarrow> has_key t k"
  shows "db_sound (db\<lparr>db_runs := t\<rparr>)"
  using assms unfolding db_sound_def by (auto simp: row_ok_defs list_all_iff elim!: table_all_mono)

lemma db_sound_leaves:
  "db_sound db \<Longrightarrow> table_all (node_ok db) t \<Longrightarrow> db_sound (db\<lparr>db_nodes := t\<rparr>)"
  "db_sound db \<Longrightarrow> table_all (link_ok db) l \<Longrightarrow> db_sound (db\<lparr>db_links := l\<rparr>)"
  "db_sound db \<Longrightarrow> list_all (sample_refs db) rows \<Longrightarrow> distinct (map sample_key rows) \<Longrightarrow> db_sound (db\<lparr>db_samples := rows\<rparr>)"
  "db_sound db \<Longrightarrow> db_sound (db\<lparr>db_errors := e\<rparr>)"
  unfolding db_sound_def by (auto simp: row_ok_defs list_all_iff elim!: table_all_mono)

lemma open_run_machines:
  assumes "open_run cid mids iids db n" and "table_all (\<lambda>mid. machine_ok db) t"
    and "\<And>k. has_key (db_machines db) k \<Longrightarrow> has_key t k"
  shows "open_run cid mids iids (db\<lparr>db_machines := t\<rparr>) n"
  using assms by (auto simp: open_run_def errors_upto_def intro: db_sound_machines)

lemma open_run_instances:
  assumes "open_run cid mids iids db n" and "table_all (\<lambda>iid. instance_ok db) t"
    and "\<And>k. has_key (db_instances db) k \<Longrightarrow> has_key t k"
  shows "open_run cid mids iids (db\<lparr>db_instances := t\<rparr>) n"
  using assms by (auto simp: open_run_def errors_upto_def intro: db_sound_instances)

lemma open_run_leaves:
  "open_run cid mids iids db n \<Longrightarrow> table_all (node_ok db) t \<Longrightarrow> open_run cid mids iids (db\<lparr>db_nodes := t\<rparr>) n"
  "open_run cid mids iids db n \<Longrightarrow> table_all (link_ok db) l \<Longrightarrow> open_run cid mids iids (db\<lparr>db_links := l\<rparr>) n"
  "open_run cid mids iids db n \<Longrightarrow> list_all (sample_refs db) rows \<Longrightarrow> distinct (map sample_key rows) \<Longrightarrow>
     open_run cid mids iids (db\<lparr>db_samples := rows\<rparr>) n"
  by (auto simp: open_run_def errors_upto_def intro: db_sound_leaves)

lemma open_run_tables:
  assumes "open_run cid mids iids db n"
  shows "table_all (\<lambda>mid. machine_ok db) (db_machines db)" "table_all (\<lambda>iid. instance_ok db) (db_instances db)"
    "table_all (node_ok db) (db_nodes db)" "table_all (link_ok db) (db_links db)" "list_all (sample_refs db) (db_samples db)"
    "distinct (map sample_key (db_samples db))" "has_key (db_runs db) cid"
    "mid \<in> mids \<Longrightarrow> has_key (db_machines db) mid" "iid \<in> iids \<Longrightarrow> has_key (db_instances db) iid"
  using assms by (auto simp: open_run_def db_sound_def)

section \<open>The constraints that data of a snapshot can violate\<close>

fun allowed_failure :: "ingest_error \<Rightarrow> bool" where
  "allowed_failure (StatementFailed st (Driver e)) = True"
| "allowed_failure (StatementFailed (InsertMetric name iid) UniqueKey) = True"
| "allowed_failure (StatementFailed (UpsertNode iid) NotNull) = True"
| "allowed_failure (StatementFailed (UpsertPeer pid iid) NotNull) = True"
| "allowed_failure (StatementFailed (UpsertPeer pid iid) CheckFailed) = True"
| "allowed_failure (StatementFailed st e) = False"
| "allowed_failure e = True"

abbreviation (input) run_inv :: "uuid \<Rightarrow> uuid set \<Rightarrow> uuid set \<Rightarrow> tx \<Rightarrow> bool" where
  "run_inv cid mids iids \<equiv> \<lambda>t. open_run cid mids iids (tx_db t) (tx_errorIndex t)"

lemma exec_upholds:
  assumes "\<And>db n. open_run cid mids iids db n \<Longrightarrow>
      case f db of Inl e \<Rightarrow> allowed_failure (StatementFailed st e) | Inr db1 \<Rightarrow> open_run cid mids' iids' db1 n"
    and "run_inv cid mids iids t"
  shows "case tx_exec env st f t of Inl e \<Rightarrow> allowed_failure e | Inr t1 \<Rightarrow> run_inv cid mids' iids' t1"
  using assms by (intro exec_case) auto

lemma exec_upholds_same:
  assumes "\<And>db n. open_run cid mids iids db n \<Longrightarrow>
      case f db of Inl e \<Rightarrow> allowed_failure (StatementFailed st e) | Inr db1 \<Rightarrow> open_run cid mids iids db1 n"
  shows "upholds (run_inv cid mids iids) allowed_failure (tx_exec env st f)"
  by (rule upholdsI, rule exec_upholds) (rule assms)

lemma upsertMachine_upholds:
  assumes "run_inv cid mids iids t"
  shows "case upsertMachine env cid completedAt m t of
      Inl e \<Rightarrow> allowed_failure e | Inr t1 \<Rightarrow> run_inv cid (insert (se_machine_id (sm_session m)) mids) iids t1"
  unfolding upsertMachine_def
proof (rule exec_upholds [OF _ assms])
  fix db n
  assume inv: "open_run cid mids iids db n"
  note tables = open_run_tables [OF inv]
  obtain t1 where up: "upsert machine_stamp (\<lambda>old new. new) (has_key (db_runs db) cid) (se_machine_id (sm_session m))
      (session_row (pg_now env) cid completedAt m) (db_machines db) = Inr t1"
    using machine_table.upsert_succeeds [OF tables(7)] by blast
  have "table_all (\<lambda>mid. machine_ok db) t1"
    by (rule machine_table.upsert_table_all [OF up tables(1)]) (use tables(7) in \<open>simp_all add: machine_ok_def session_row_def Let_def\<close>)
  then have "open_run cid mids iids (db\<lparr>db_machines := t1\<rparr>) n"
    by (rule open_run_machines [OF inv]) (simp add: machine_table.upsert_has_key [OF up])
  then have "open_run cid (insert (se_machine_id (sm_session m)) mids) iids (db\<lparr>db_machines := t1\<rparr>) n"
    by (auto simp: open_run_def machine_table.upsert_has_key [OF up])
  then show "case and_then (upsert machine_stamp (\<lambda>old new. new) (has_key (db_runs db) cid) (se_machine_id (sm_session m))
        (session_row (pg_now env) cid completedAt m) (db_machines db)) (\<lambda>t. Inr (db\<lparr>db_machines := t\<rparr>)) of
      Inl e \<Rightarrow> allowed_failure (StatementFailed (UpsertMachine (se_machine_id (sm_session m))) e)
    | Inr db1 \<Rightarrow> open_run cid (insert (se_machine_id (sm_session m)) mids) iids db1 n"
    by (simp add: up)
qed

lemma upsertInstance_upholds:
  assumes "run_inv cid mids iids t" and "mid \<in> mids"
  shows "case upsertInstance env cid completedAt mid i t of
      Inl e \<Rightarrow> allowed_failure e | Inr t1 \<Rightarrow> run_inv cid mids (insert (si_instance_id i) iids) t1"
  unfolding upsertInstance_def
proof (rule exec_upholds [OF _ assms(1)])
  fix db n
  assume inv: "open_run cid mids iids db n"
  note tables = open_run_tables [OF inv]
  have refs: "has_key (db_machines db) mid \<and> has_key (db_runs db) cid" using tables(7,8) assms(2) by blast
  obtain t1 where up: "upsert instance_stamp (\<lambda>old new. new) (has_key (db_machines db) mid \<and> has_key (db_runs db) cid)
      (si_instance_id i) (instance_row (pg_now env) cid completedAt mid i) (db_instances db) = Inr t1"
    using instance_table.upsert_succeeds [OF refs] by blast
  have "table_all (\<lambda>iid. instance_ok db) t1"
    by (rule instance_table.upsert_table_all [OF up tables(2)]) (use refs in \<open>simp_all add: instance_ok_def instance_row_def\<close>)
  then have "open_run cid mids iids (db\<lparr>db_instances := t1\<rparr>) n"
    by (rule open_run_instances [OF inv]) (simp add: instance_table.upsert_has_key [OF up])
  then have "open_run cid mids (insert (si_instance_id i) iids) (db\<lparr>db_instances := t1\<rparr>) n"
    by (auto simp: open_run_def instance_table.upsert_has_key [OF up])
  then show "case and_then (upsert instance_stamp (\<lambda>old new. new) (has_key (db_machines db) mid \<and> has_key (db_runs db) cid)
        (si_instance_id i) (instance_row (pg_now env) cid completedAt mid i) (db_instances db)) (\<lambda>t. Inr (db\<lparr>db_instances := t\<rparr>)) of
      Inl e \<Rightarrow> allowed_failure (StatementFailed (UpsertInstance (si_instance_id i)) e)
    | Inr db1 \<Rightarrow> open_run cid mids (insert (si_instance_id i) iids) db1 n"
    by (simp add: up)
qed

lemma upsertNode_upholds:
  assumes "si_instance_id i \<in> iids"
  shows "upholds (run_inv cid mids iids) allowed_failure (upsertNode env cid completedAt i node)"
  unfolding upsertNode_def
proof (rule exec_upholds_same, goal_cases)
  case (1 db n)
  note tables = open_run_tables [OF 1]
  have refs: "has_key (db_instances db) (si_instance_id i) \<and> has_key (db_runs db) cid" using tables(7,9) assms by blast
  show ?case
  proof (cases "nd_proxy_cidrs node")
    case cidrs: (Some cidrs)
    show ?thesis
    proof (cases "nd_listeners node")
      case (Some listeners)
      let ?row = "node_row (pg_now env) cid completedAt i node cidrs listeners"
      obtain t1 where up: "upsert node_stamp (\<lambda>old new. new) (has_key (db_instances db) (si_instance_id i) \<and> has_key (db_runs db) cid)
          (si_instance_id i) ?row (db_nodes db) = Inr t1"
        using node_table.upsert_succeeds [OF refs] by blast
      have "table_all (node_ok db) t1"
        by (rule node_table.upsert_table_all [OF up tables(3)])
          (use refs uint_lt2p [of "nd_peer_id node"] in \<open>simp_all add: node_ok_def node_row_def\<close>)
      then show ?thesis using 1 by (simp add: cidrs Some up open_run_leaves(1))
    qed (simp add: cidrs)
  qed simp
qed

lemma fits64_decimalString: "fits64 (decimalString v)"
proof (cases v)
  case (Some w)
  have "unat w < 2 ^ LENGTH(64)" by (rule unsigned_less)
  then show ?thesis by (simp add: Some fits64_def decimalString_def)
qed (simp add: fits64_def decimalString_def)

lemma upsertPeer_upholds:
  assumes "si_instance_id i \<in> iids"
  shows "upholds (run_inv cid mids iids) allowed_failure (upsertPeer env cid completedAt i detailsComplete p)"
  unfolding upsertPeer_def
proof (rule exec_upholds_same, goal_cases)
  case (1 db n)
  note tables = open_run_tables [OF 1]
  have refs: "has_key (db_instances db) (si_instance_id i) \<and> has_key (db_runs db) cid" using tables(7,9) assms by blast
  let ?row = "peer_row (pg_now env) cid completedAt i p" and ?k = "(si_instance_id i, uint (sp_peer_id p))"
  obtain t1 where up: "upsert link_stamp (merge_link detailsComplete)
      (has_key (db_instances db) (si_instance_id i) \<and> has_key (db_runs db) cid) ?k ?row (db_links db) = Inr t1"
    using link_table.upsert_succeeds [OF refs] by blast
  have row: "link_ok db ?k ?row" if "sp_tunnel_protocols p \<noteq> None" "nonneg (sp_latency_ms p)" "nonneg (sp_loss_rate p)"
    using refs that uint_lt2p [of "sp_peer_id p"] uint_lt2p [of "sp_next_hop_peer_id p"]
    by (simp add: link_ok_def peer_row_def fits64_decimalString)
  have "table_all (link_ok db) t1" if "sp_tunnel_protocols p \<noteq> None" "nonneg (sp_latency_ms p)" "nonneg (sp_loss_rate p)"
    by (rule link_table.upsert_table_all [OF up tables(4) row [OF that]])
      (use row [OF that] in \<open>auto simp: link_ok_def merge_link_def\<close>)
  then show ?case using 1 by (auto simp: up open_run_leaves(2))
qed

lemma removeStalePeers_upholds:
  "upholds (run_inv cid mids iids) allowed_failure (removeStalePeers env completedAt i)"
  unfolding removeStalePeers_def Let_def
proof (rule exec_upholds_same, goal_cases)
  case (1 db n)
  then show ?case using open_run_tables(4) [OF 1] by (simp add: open_run_leaves(2) table_all_filter)
qed

lemma insertMetric_upholds:
  assumes "si_instance_id i \<in> iids"
  shows "upholds (run_inv cid mids iids) allowed_failure (insertMetric env cid i m)"
proof (rule upholdsI)
  fix t
  assume inv: "run_inv cid mids iids t"
  show "case insertMetric env cid i m t of Inl e \<Rightarrow> allowed_failure e | Inr t1 \<Rightarrow> run_inv cid mids iids t1"
  proof (cases "pg_marshal_labels env (mt_labels m)")
    case (Inr labels)
    show ?thesis
      unfolding insertMetric_def Inr sum.case
    proof (rule exec_upholds [OF _ inv], goal_cases)
      case (1 db n)
      note tables = open_run_tables [OF 1]
      show ?case using tables(5-7) tables(9) [OF assms] open_run_leaves(3) [OF 1]
        by (simp add: insert_sample_def sample_refs_def)
    qed
  qed (simp add: insertMetric_def)
qed

lemma ingestInstance_upholds:
  assumes "mid \<in> mids"
  shows "upholds (run_inv cid mids iids) allowed_failure (ingestInstance env cid completedAt mid i)"
proof -
  let ?iids = "insert (si_instance_id i) iids"
  have "upholds (run_inv cid mids ?iids) allowed_failure (\<lambda>t.
     and_then (case si_node i of None \<Rightarrow> Inr t | Some node \<Rightarrow> upsertNode env cid completedAt i node t) (\<lambda>t.
     and_then (each (upsertPeer env cid completedAt i (\<not> hasOperationError (si_errors i) ''list_peers'')) (si_peers i) t) (\<lambda>t.
     and_then (if hasOperationError (si_errors i) ''list_routes'' then Inr t else removeStalePeers env completedAt i t)
       (each (insertMetric env cid i) (si_metrics i)))))"
    by (intro upholds_then upholds_each upholds_if upholds_option removeStalePeers_upholds insertMetric_upholds upsertPeer_upholds
        upsertNode_upholds) auto
  then have "upholds (run_inv cid mids iids) allowed_failure (\<lambda>t.
     and_then (upsertInstance env cid completedAt mid i t) (\<lambda>t.
     and_then (case si_node i of None \<Rightarrow> Inr t | Some node \<Rightarrow> upsertNode env cid completedAt i node t) (\<lambda>t.
     and_then (each (upsertPeer env cid completedAt i (\<not> hasOperationError (si_errors i) ''list_peers'')) (si_peers i) t) (\<lambda>t.
     and_then (if hasOperationError (si_errors i) ''list_routes'' then Inr t else removeStalePeers env completedAt i t)
       (each (insertMetric env cid i) (si_metrics i))))))"
    by (rule upholds_seq [rotated]) (use upsertInstance_upholds assms in \<open>auto simp: open_run_def\<close>)
  then show ?thesis by (simp add: upholds_def ingestInstance_def)
qed

section \<open>Errors and disappearance\<close>

lemma insert_error_upholds:
  assumes "run_inv cid mids iids t"
  shows "case and_then (tx_exec env st (insert_error cid (tx_errorIndex t) scope mv iv e) t)
      (\<lambda>t1. Inr (t1\<lparr>tx_errorIndex := Suc (tx_errorIndex t1)\<rparr>)) of
      Inl e \<Rightarrow> allowed_failure e | Inr t1 \<Rightarrow> run_inv cid mids iids t1"
proof -
  have "\<not> has_key (db_errors (tx_db t)) (cid, tx_errorIndex t)" "has_key (db_runs (tx_db t)) cid"
    using assms by (simp_all add: open_run_def errors_upto_def)
  moreover have "open_run cid mids iids ((tx_db t)\<lparr>db_errors := RBT.insert (cid, tx_errorIndex t) r (db_errors (tx_db t))\<rparr>)
      (Suc (tx_errorIndex t))" for r
    using assms by (auto simp: open_run_def errors_upto_def db_sound_leaves(4))
  ultimately show ?thesis
    by (auto simp: tx_exec_def insert_error_def split: option.splits)
qed

lemma insertErrors_upholds:
  "upholds (run_inv cid mids iids) allowed_failure (insertErrors env cid scope mid iid errors)"
  unfolding insertErrors_def Let_def by (intro upholds_each upholdsI insert_error_upholds)

lemma markMissingInstancesInactive_upholds:
  "upholds (run_inv cid mids iids) allowed_failure (markMissingInstancesInactive env cid completedAt m)"
  unfolding markMissingInstancesInactive_def Let_def
proof (rule exec_upholds_same, goal_cases)
  case (1 db n)
  note tables = open_run_tables [OF 1]
  have "table_all (\<lambda>iid. instance_ok db) (RBT.map (\<lambda>iid r. if P iid r then retire_instance now cid completedAt r else r) (db_instances db))"
    for P now
    using tables(2) by (rule table_all_map) (use tables(7) in \<open>auto simp: instance_ok_def retire_instance_def\<close>)
  then show ?case using 1 by (simp add: open_run_instances)
qed

lemma markMissingMachinesInactive_upholds:
  "upholds (run_inv cid mids iids) allowed_failure (markMissingMachinesInactive env cid completedAt ms)"
proof -
  have machines: "table_all (\<lambda>mid. machine_ok db) (RBT.map (\<lambda>mid r. if P mid r then retire_machine now cid completedAt r else r) (db_machines db))"
    if "open_run cid mids iids db n" for P now db n
    using open_run_tables(1) [OF that]
    by (rule table_all_map) (use open_run_tables(7) [OF that] in \<open>auto simp: machine_ok_def retire_machine_def\<close>)
  have instances: "table_all (\<lambda>iid. instance_ok db) (RBT.map (\<lambda>iid r. if P iid r then retire_instance now cid completedAt r else r) (db_instances db))"
    if "open_run cid mids iids db n" for P now db n
    using open_run_tables(2) [OF that]
    by (rule table_all_map) (use open_run_tables(7) [OF that] in \<open>auto simp: instance_ok_def retire_instance_def\<close>)
  have "upholds (run_inv cid mids iids) allowed_failure (\<lambda>t. markMissingMachinesInactive env cid completedAt ms t)"
    unfolding markMissingMachinesInactive_def Let_def
    by (intro upholds_then exec_upholds_same) (simp_all add: machines instances open_run_machines open_run_instances)
  then show ?thesis by simp
qed

lemma ingest_machine_upholds:
  "upholds (run_inv cid {} {}) allowed_failure (ingest_machine env cid completedAt m)"
proof -
  let ?mid = "se_machine_id (sm_session m)"
  have "upholds (run_inv cid {?mid} {}) allowed_failure (\<lambda>t.
      and_then (insertErrors env cid ''machine'' ?mid 0 (sm_errors m) t) (\<lambda>t.
      and_then (each (\<lambda>i t.
          and_then (ingestInstance env cid completedAt ?mid i t)
            (insertErrors env cid ''instance'' ?mid (si_instance_id i) (si_errors i))) (sm_instances m) t) (\<lambda>t.
        if hasOperationError (sm_errors m) ''list_network_instances'' then Inr t
        else markMissingInstancesInactive env cid completedAt m t)))"
    by (intro upholds_then upholds_each upholds_if insertErrors_upholds ingestInstance_upholds
        markMissingInstancesInactive_upholds) auto
  then have "upholds (run_inv cid {} {}) allowed_failure (\<lambda>t.
      and_then (upsertMachine env cid completedAt m t) (\<lambda>t.
      and_then (insertErrors env cid ''machine'' ?mid 0 (sm_errors m) t) (\<lambda>t.
      and_then (each (\<lambda>i t.
          and_then (ingestInstance env cid completedAt ?mid i t)
            (insertErrors env cid ''instance'' ?mid (si_instance_id i) (si_errors i))) (sm_instances m) t) (\<lambda>t.
        if hasOperationError (sm_errors m) ''list_network_instances'' then Inr t
        else markMissingInstancesInactive env cid completedAt m t))))"
    by (rule upholds_seq [rotated]) (use upsertMachine_upholds [where mids = "{}" and iids = "{}"] in \<open>auto simp: open_run_def\<close>)
  then show ?thesis by (simp add: upholds_def ingest_machine_def Let_def)
qed

section \<open>The error index\<close>

lemma exec_index: "tx_exec env st f t = Inr t1 \<Longrightarrow> tx_errorIndex t1 = tx_errorIndex t"
  by (auto simp: exec_Inr)

lemma each_index:
  assumes "each f xs t = Inr t1" and "\<And>x t t1. f x t = Inr t1 \<Longrightarrow> tx_errorIndex t1 = tx_errorIndex t"
  shows "tx_errorIndex t1 = tx_errorIndex t"
  using each_adds [where size_of = tx_errorIndex and w = "\<lambda>_. 0", OF assms(1)] assms(2) by simp

lemma insertErrors_index:
  assumes "insertErrors env cid scope mid iid errors t = Inr t1"
  shows "tx_errorIndex t1 = tx_errorIndex t + length errors"
proof -
  have "tx_errorIndex t1 = tx_errorIndex t + sum_list (map (\<lambda>_. 1) errors)"
    using assms unfolding insertErrors_def
    by (rule each_adds) (auto simp: Let_def and_then_eq_Inr dest: exec_index)
  then show ?thesis by (simp add: sum_list_triv)
qed

lemma ingestInstance_index:
  assumes "ingestInstance env cid completedAt mid i t = Inr t1"
  shows "tx_errorIndex t1 = tx_errorIndex t"
  using assms unfolding ingestInstance_def
  by (auto simp: and_then_eq_Inr upsertInstance_def upsertNode_def upsertPeer_def removeStalePeers_def insertMetric_def Let_def
      dest!: exec_index each_index split: option.splits if_splits sum.splits)

lemma ingest_machine_index:
  assumes "ingest_machine env cid completedAt m t = Inr t1"
  shows "tx_errorIndex t1 = tx_errorIndex t + (length (sm_errors m) + sum_list (map (\<lambda>i. length (si_errors i)) (sm_instances m)))"
proof -
  let ?mid = "se_machine_id (sm_session m)"
  obtain t2 t3 t4 where t2: "upsertMachine env cid completedAt m t = Inr t2"
    and t3: "insertErrors env cid ''machine'' ?mid 0 (sm_errors m) t2 = Inr t3"
    and t4: "each (\<lambda>i t. and_then (ingestInstance env cid completedAt ?mid i t)
      (insertErrors env cid ''instance'' ?mid (si_instance_id i) (si_errors i))) (sm_instances m) t3 = Inr t4"
    and t1: "t1 = t4 \<or> markMissingInstancesInactive env cid completedAt m t4 = Inr t1"
    using assms by (auto simp: ingest_machine_def Let_def and_then_eq_Inr split: if_splits)
  have "tx_errorIndex t4 = tx_errorIndex t3 + sum_list (map (\<lambda>i. length (si_errors i)) (sm_instances m))"
    using t4 by (rule each_adds) (auto simp: and_then_eq_Inr dest!: ingestInstance_index insertErrors_index)
  with t1 t2 insertErrors_index [OF t3] show ?thesis
    by (auto simp: upsertMachine_def markMissingInstancesInactive_def Let_def dest!: exec_index)
qed

section \<open>The transaction\<close>

lemma insert_run_valid:
  assumes "Validate s = None"
  shows "insert_run (run_row now payload sha256 s) (sn_collection_id s) db =
    Inr (if has_key (db_runs db) (sn_collection_id s) then db
         else db\<lparr>db_runs := RBT.insert (sn_collection_id s) (run_row now payload sha256 s) (db_runs db)\<rparr>)"
  using assms by (auto simp: insert_run_def run_row_def Validate_None valid_snapshot_def intro: millis_le)

text \<open>The rest of the transaction for a new collection.\<close>

definition ingest_rest :: "pg \<Rightarrow> snapshot \<Rightarrow> tx \<Rightarrow> ingest_error + tx" where
  "ingest_rest env s t =
     (let cid = sn_collection_id s; completedAt = millis (sn_completed_at_ms s) in
      and_then (insertErrors env cid ''snapshot'' 0 0 (sn_errors s) t) (\<lambda>t.
      and_then (each (ingest_machine env cid completedAt) (sn_machines s) t) (\<lambda>t.
        if sn_errors s = [] then markMissingMachinesInactive env cid completedAt (sn_machines s) t else Inr t)))"

definition with_run :: "pg \<Rightarrow> snapshot \<Rightarrow> jsstr \<Rightarrow> database \<Rightarrow> database" where
  "with_run env s payload db =
     db\<lparr>db_runs := RBT.insert (sn_collection_id s) (run_row (pg_now env) payload (pg_sha256 env payload) s) (db_runs db)\<rparr>"

lemma ingest_tx_new:
  assumes "Validate s = None" and "\<not> has_key (db_runs db) (sn_collection_id s)"
  shows "ingest_tx env s payload db =
    (case pg_fault env 0 of
       Some e \<Rightarrow> Inl (StatementFailed InsertRun (Driver e))
     | None \<Rightarrow> and_then (ingest_rest env s \<lparr>tx_db = with_run env s payload db, tx_calls = Suc 0, tx_errorIndex = 0\<rparr>) (\<lambda>t. Inr (t, True)))"
proof -
  have new: "RBT.lookup (db_runs db) (sn_collection_id s) = None" using assms(2) by (simp add: has_key_def)
  have assoc: "and_then (and_then r f) g = and_then r (\<lambda>x. and_then (f x) g)" for r :: "ingest_error + tx" and f g
    by (cases r) simp_all
  show ?thesis
    unfolding ingest_tx_def ingest_rest_def Let_def assoc
    by (simp add: tx_exec_def insert_run_valid [OF assms(1)] assms(2) new with_run_def split: option.splits)
qed

lemma ingest_tx_known:
  assumes "Validate s = None" and "RBT.lookup (db_runs db) (sn_collection_id s) = Some r"
  shows "ingest_tx env s payload db =
    (case pg_fault env 0 of
       Some e \<Rightarrow> Inl (StatementFailed InsertRun (Driver e))
     | None \<Rightarrow> (case pg_fault env 1 of
         Some e \<Rightarrow> Inl (StatementFailed VerifyDuplicate (Driver e))
       | None \<Rightarrow> if payload_matches env payload (pg_sha256 env payload) r
           then Inr (\<lparr>tx_db = db, tx_calls = 2, tx_errorIndex = 0\<rparr>, False) else Inl (PayloadReused (sn_collection_id s))))"
  using assms(2) by (simp add: ingest_tx_def Let_def tx_exec_def insert_run_valid [OF assms(1)] has_key_def numeral_2_eq_2 split: option.splits)

lemma ingest_rest_upholds:
  "upholds (run_inv (sn_collection_id s) {} {}) allowed_failure (\<lambda>t. ingest_rest env s t)"
  unfolding ingest_rest_def Let_def
  by (intro upholds_then upholds_each upholds_if upholds_skip insertErrors_upholds ingest_machine_upholds
      markMissingMachinesInactive_upholds)

lemma ingest_rest_index:
  assumes "ingest_rest env s t = Inr t1"
  shows "tx_errorIndex t1 = tx_errorIndex t + countErrors s"
proof -
  let ?cid = "sn_collection_id s" and ?at = "millis (sn_completed_at_ms s)"
  obtain t2 t3 where t2: "insertErrors env ?cid ''snapshot'' 0 0 (sn_errors s) t = Inr t2"
    and t3: "each (ingest_machine env ?cid ?at) (sn_machines s) t2 = Inr t3"
    and t1: "t1 = t3 \<or> markMissingMachinesInactive env ?cid ?at (sn_machines s) t3 = Inr t1"
    using assms by (auto simp: ingest_rest_def Let_def and_then_eq_Inr split: if_splits)
  have "tx_errorIndex t3 = tx_errorIndex t2 +
      sum_list (map (\<lambda>m. length (sm_errors m) + sum_list (map (\<lambda>i. length (si_errors i)) (sm_instances m))) (sn_machines s))"
    using t3 by (rule each_adds) (rule ingest_machine_index)
  moreover have "tx_errorIndex t1 = tx_errorIndex t3"
    using t1 by (auto simp: markMissingMachinesInactive_def Let_def and_then_eq_Inr dest!: exec_index)
  ultimately show ?thesis using insertErrors_index [OF t2] by (simp add: countErrors_def)
qed

lemma ingest_rest_runs: "leaves db_runs R (\<lambda>t. ingest_rest env s t)"
  unfolding ingest_rest_def Let_def
  by (intro upholds_then upholds_each upholds_if upholds_skip insertErrors_leaves ingest_machine_leaves
      markMissingMachinesInactive_leaves) simp_all

lemma with_run_open:
  assumes "db_consistent db" and "Validate s = None" and "\<not> has_key (db_runs db) (sn_collection_id s)"
  shows "open_run (sn_collection_id s) {} {} (with_run env s payload db) 0"
proof -
  have "run_ok (run_row (pg_now env) payload (pg_sha256 env payload) s)"
    using assms(2) by (auto simp: run_ok_def run_row_def Validate_None valid_snapshot_def intro: millis_le)
  then have "db_sound (with_run env s payload db)"
    unfolding with_run_def using assms(1)
    by (intro db_sound_runs) (auto simp: db_consistent_def db_sound_def intro: table_all_insert)
  moreover have "errors_upto (sn_collection_id s) (with_run env s payload db) 0"
    using assms(1,3) by (auto simp: errors_upto_def with_run_def db_consistent_def errors_exact_def has_key_def)
  ultimately show ?thesis by (simp add: open_run_def with_run_def)
qed

lemma ingest_tx_consistent:
  assumes "db_consistent db" and "Validate s = None"
  shows "case ingest_tx env s payload db of Inl e \<Rightarrow> allowed_failure e | Inr (t, inserted) \<Rightarrow> db_consistent (tx_db t)"
proof (cases "has_key (db_runs db) (sn_collection_id s)")
  case True
  then obtain r where "RBT.lookup (db_runs db) (sn_collection_id s) = Some r" by (auto simp: has_key_def)
  with assms show ?thesis by (simp add: ingest_tx_known split: option.splits)
next
  case False
  let ?t = "\<lparr>tx_db = with_run env s payload db, tx_calls = Suc 0, tx_errorIndex = 0\<rparr>"
  have inv: "run_inv (sn_collection_id s) {} {} ?t" using with_run_open [OF assms False] by simp
  show ?thesis
  proof (cases "ingest_rest env s ?t")
    case (Inl e)
    then have "allowed_failure e" using upholds_Inl [OF ingest_rest_upholds inv] by blast
    with False assms show ?thesis by (simp add: ingest_tx_new Inl split: option.splits)
  next
    case (Inr t)
    have "run_inv (sn_collection_id s) {} {} t" using upholds_Inr [OF ingest_rest_upholds inv Inr] .
    moreover have "tx_errorIndex t = countErrors s" using ingest_rest_index [OF Inr] by simp
    moreover have "db_runs (tx_db t) = db_runs (with_run env s payload db)"
      using upholds_Inr [OF ingest_rest_runs _ Inr, of "db_runs (with_run env s payload db)"] by simp
    ultimately have "db_consistent (tx_db t)"
      by (auto simp: db_consistent_def open_run_def errors_upto_def errors_exact_def with_run_def run_row_def)
    with False assms show ?thesis by (simp add: ingest_tx_new Inr split: option.splits)
  qed
qed

lemma Ingest_consistent:
  assumes "db_consistent db"
  shows "db_consistent (fst (Ingest env s db))"
    and "case snd (Ingest env s db) of
      Inl e \<Rightarrow> allowed_failure e \<and> (fst (Ingest env s db) = db \<or> (\<exists>b m. e = CommitFailed b m)) | Inr b \<Rightarrow> True"
proof -
  have failed: "allowed_failure e" if "Validate s = None" "ingest_tx env s payload db = Inl e" for payload e
    using ingest_tx_consistent [OF assms that(1), of env payload] that(2) by simp
  have ok: "db_consistent (tx_db t)" if "Validate s = None" "ingest_tx env s payload db = Inr (t, b)" for payload t b
    using ingest_tx_consistent [OF assms that(1), of env payload] that(2) by simp
  show "db_consistent (fst (Ingest env s db))"
    using assms by (auto simp: Ingest_def ok split: option.splits sum.splits prod.splits commit_outcome.splits)
  show "case snd (Ingest env s db) of
      Inl e \<Rightarrow> allowed_failure e \<and> (fst (Ingest env s db) = db \<or> (\<exists>b m. e = CommitFailed b m)) | Inr b \<Rightarrow> True"
    by (auto simp: Ingest_def failed split: option.splits sum.splits prod.splits commit_outcome.splits)
qed

section \<open>The store over time\<close>

text \<open>
  The retention statements work on the same tables: \<open>retention_view\<close> is what they see of the
  database, \<open>retained\<close> writes back what they change.
\<close>

definition payload_of :: "run_rec \<Rightarrow> payload_row" where
  "payload_of r =
     \<lparr>pr_completed_at = rc_completed_at r, pr_raw_payload = rc_raw_payload r,
      pr_raw_payload_sha256 = rc_raw_payload_sha256 r, pr_payload_pruned_at = rc_payload_pruned_at r\<rparr>"

definition retention_view :: "(nat \<Rightarrow> jsstr option \<times> int) \<Rightarrow> database \<Rightarrow> retention_db" where
  "retention_view outcome db =
     \<lparr>rd_samples = db_samples db, rd_runs = map (\<lambda>(cid, r). (cid, payload_of r)) (RBT.entries (db_runs db)),
      rd_calls = 0, rd_outcome = outcome\<rparr>"

definition retained :: "retention_db \<Rightarrow> database \<Rightarrow> database" where
  "retained rd db = db\<lparr>db_samples := rd_samples rd,
     db_runs := RBT.map (\<lambda>cid r. case map_of (rd_runs rd) cid of
       None \<Rightarrow> r
     | Some p \<Rightarrow> r\<lparr>rc_raw_payload := pr_raw_payload p, rc_payload_pruned_at := pr_payload_pruned_at p\<rparr>) (db_runs db)\<rparr>"

datatype store_event =
    Collect pg snapshot
  | DeleteSamples int int "nat \<Rightarrow> jsstr option \<times> int"
  | PrunePayloads int int "nat \<Rightarrow> jsstr option \<times> int"

fun store_exec :: "store_event \<Rightarrow> database \<Rightarrow> database" where
  "store_exec (Collect env s) db = fst (Ingest env s db)"
| "store_exec (DeleteSamples cutoff limit outcome) db =
     retained (fst (DeleteMetricSamplesBefore cutoff limit (retention_view outcome db))) db"
| "store_exec (PrunePayloads cutoff limit outcome) db =
     retained (fst (PruneCollectionPayloadsBefore cutoff limit (retention_view outcome db))) db"

lemma map_of_values: "map_of (map (\<lambda>(k, v). (k, f k v)) xs) k = map_option (f k) (map_of xs k)"
  by (induction xs) auto

text \<open>Both statements leave every run in place with its completion and its digest.\<close>

definition run_frozen :: "run_rec \<Rightarrow> run_rec \<Rightarrow> bool" where
  "run_frozen r r1 \<longleftrightarrow> (\<exists>payload pruned. r1 = r\<lparr>rc_raw_payload := payload, rc_payload_pruned_at := pruned\<rparr>)"

lemma run_frozen_refl: "run_frozen r r"
  unfolding run_frozen_def by (rule exI [of _ "rc_raw_payload r"], rule exI [of _ "rc_payload_pruned_at r"]) simp

lemma run_frozen_update: "run_frozen r (r\<lparr>rc_raw_payload := payload, rc_payload_pruned_at := pruned\<rparr>)"
  unfolding run_frozen_def by (intro exI) (rule refl)

lemma retained_runs:
  "RBT.lookup (db_runs (retained rd db)) cid = Some r1 \<Longrightarrow> \<exists>r. RBT.lookup (db_runs db) cid = Some r \<and> run_frozen r r1"
  "RBT.lookup (db_runs db) cid = Some r \<Longrightarrow> \<exists>r1. RBT.lookup (db_runs (retained rd db)) cid = Some r1 \<and> run_frozen r r1"
  by (auto simp: retained_def run_frozen_refl run_frozen_update split: option.splits)

lemma retained_has_run [simp]: "has_key (db_runs (retained rd db)) cid \<longleftrightarrow> has_key (db_runs db) cid"
  by (simp add: retained_def)

lemma retained_consistent:
  assumes "db_consistent db" and "subseq (rd_samples rd) (db_samples db)"
  shows "db_consistent (retained rd db)"
proof -
  have tables: "db_machines (retained rd db) = db_machines db" "db_instances (retained rd db) = db_instances db"
    "db_nodes (retained rd db) = db_nodes db" "db_links (retained rd db) = db_links db" "db_errors (retained rd db) = db_errors db"
    "db_samples (retained rd db) = rd_samples rd"
    by (simp_all add: retained_def)
  have sound: "db_sound db" and exact: "errors_exact db" using assms(1) by (simp_all add: db_consistent_def)
  have "table_all (\<lambda>cid. run_ok) (db_runs (retained rd db))"
    using sound by (auto simp: db_sound_def run_ok_def run_frozen_def intro!: table_allI dest!: retained_runs(1) table_allD)
  moreover obtain N where "rd_samples rd = nths (db_samples db) N" using assms(2) by (auto simp: subseq_conv_nths)
  then have "list_all (sample_refs db) (rd_samples rd)" "distinct (map sample_key (rd_samples rd))"
    using sound by (auto simp: db_sound_def list_all_iff nths_map [symmetric] dest: in_set_nthsD)
  ultimately have "db_sound (retained rd db)"
    using sound by (simp add: db_sound_def tables row_ok_defs [abs_def] retained_has_run)
  moreover have "(\<exists>r. RBT.lookup (db_runs (retained rd db)) cid = Some r \<and> i < rc_error_count r) \<longleftrightarrow>
      (\<exists>r. RBT.lookup (db_runs db) cid = Some r \<and> i < rc_error_count r)" for cid i
    by (cases "RBT.lookup (db_runs db) cid") (auto simp: retained_def split: option.splits)
  ultimately show ?thesis using exact by (simp add: db_consistent_def errors_exact_def tables)
qed

lemma subseq_kept: "subseq (map snd (filter P (List.enumerate n xs))) xs"
proof -
  have "subseq (map snd (filter P (List.enumerate n xs))) (map snd (List.enumerate n xs))" by (intro subseq_map subseq_filter_left)
  then show ?thesis by simp
qed

lemma store_exec_consistent: "db_consistent db \<Longrightarrow> db_consistent (store_exec e db)"
proof (cases e)
  case (DeleteSamples cutoff limit outcome)
  assume "db_consistent db"
  moreover have "subseq (rd_samples (fst (DeleteMetricSamplesBefore cutoff limit (retention_view outcome db)))) (db_samples db)"
    by (simp add: DeleteMetricSamplesBefore_def Let_def retention_view_def subseq_kept split: option.splits)
  ultimately show ?thesis by (simp add: DeleteSamples retained_consistent)
next
  case (PrunePayloads cutoff limit outcome)
  assume "db_consistent db"
  moreover have "rd_samples (fst (PruneCollectionPayloadsBefore cutoff limit (retention_view outcome db))) = db_samples db"
    by (auto simp: PruneCollectionPayloadsBefore_def Let_def retention_view_def split: option.splits prod.splits)
  ultimately show ?thesis by (simp add: PrunePayloads retained_consistent)
qed (simp add: Ingest_consistent(1))

lemma empty_consistent: "db_consistent empty_database"
  by (simp add: db_consistent_def db_sound_def errors_exact_def empty_database_def)

interpretation store: safe_component "\<lambda>e db. True" store_exec empty_database db_consistent
  by unfold_locales (rule empty_consistent, rule store_exec_consistent)

lemma trace_ok_free: "trace_ok (\<lambda>e s. True) step es s"
  by (induction es arbitrary: s) simp_all

text \<open>
  C10. The database stays consistent. After any history of collections, whichever of their
  statements and commits fail, and of retention statements, the tables refer to rows that exist, a
  row is active exactly when it has no time of disappearance, numbers are in the ranges of their
  columns, the errors recorded for a run are the first ones up to its count, and its status says
  whether there are any. The next ingestion never violates a foreign key; another constraint only
  through a duplicate metric, a missing list or a negative measurement of the snapshot; and an error
  leaves the database as it was, unless it is the commit that was not acknowledged.
\<close>

theorem database_consistent:
  "db_consistent (run_events store_exec history empty_database) \<and>
   (case Ingest env s (run_events store_exec history empty_database) of
      (db1, Inr b) \<Rightarrow> True
    | (db1, Inl e) \<Rightarrow> allowed_failure e \<and> (db1 = run_events store_exec history empty_database \<or> (\<exists>b m. e = CommitFailed b m)))"
proof -
  have "db_consistent (run_events store_exec history empty_database)"
    by (rule store.inv_run [OF store.inv_start trace_ok_free])
  from this Ingest_consistent(2) [OF this, of env s] show ?thesis
    by (cases "Ingest env s (run_events store_exec history empty_database)") (auto split: sum.splits)
qed

section \<open>A collection that arrives again\<close>

lemma store_exec_runs:
  assumes "RBT.lookup (db_runs db) cid = Some r"
  shows "\<exists>r1. RBT.lookup (db_runs (store_exec e db)) cid = Some r1 \<and> run_frozen r r1"
proof (cases e)
  case (Collect env s)
  have "RBT.lookup (db_runs (tx_db t)) cid = Some r" if "Validate s = None" "ingest_tx env s payload db = Inr (t, b)" for payload t b
  proof (cases "RBT.lookup (db_runs db) (sn_collection_id s)")
    case None
    then have new: "\<not> has_key (db_runs db) (sn_collection_id s)" by (simp add: has_key_def)
    have rest: "ingest_rest env s \<lparr>tx_db = with_run env s payload db, tx_calls = Suc 0, tx_errorIndex = 0\<rparr> = Inr t"
      using that(2) unfolding ingest_tx_new [OF that(1) new] by (auto simp: and_then_eq_Inr split: option.splits)
    have "db_runs (tx_db t) = db_runs (with_run env s payload db)"
      by (rule upholds_Inr [OF ingest_rest_runs _ rest]) simp
    with assms None show ?thesis by (auto simp: with_run_def)
  next
    case (Some r2)
    with that assms show ?thesis by (auto simp: ingest_tx_known split: option.splits if_splits)
  qed
  with assms have "RBT.lookup (db_runs (fst (Ingest env s db))) cid = Some r"
    by (auto simp: Ingest_def split: option.splits sum.splits prod.splits commit_outcome.splits)
  with run_frozen_refl show ?thesis by (auto simp: Collect)
qed (use assms in \<open>auto dest: retained_runs(2)\<close>)

lemma run_digest_stable:
  assumes "map_option rc_raw_payload_sha256 (RBT.lookup (db_runs db) cid) = Some h"
  shows "map_option rc_raw_payload_sha256 (RBT.lookup (db_runs (run_events store_exec history db)) cid) = Some h"
  using assms
proof (induction history arbitrary: db)
  case (Cons e history)
  obtain r where r: "RBT.lookup (db_runs db) cid = Some r" and h: "rc_raw_payload_sha256 r = h" using Cons.prems by auto
  obtain r1 where "RBT.lookup (db_runs (store_exec e db)) cid = Some r1" and "run_frozen r r1"
    using store_exec_runs [OF r] by blast
  then have "map_option rc_raw_payload_sha256 (RBT.lookup (db_runs (store_exec e db)) cid) = Some h"
    using h by (auto simp: run_frozen_def)
  from Cons.IH [OF this] show ?case by simp
qed simp

definition undisturbed :: "pg \<Rightarrow> bool" where
  "undisturbed env \<longleftrightarrow> pg_begin env = None \<and> (\<forall>n. pg_fault env n = None) \<and> pg_commit env = Committed"

lemma Ingest_new_digest:
  assumes "Ingest env s db = (db1, Inr True)" and "pg_marshal env s = Inr payload"
  shows "map_option rc_raw_payload_sha256 (RBT.lookup (db_runs db1) (sn_collection_id s)) = Some (Some (pg_sha256 env payload))"
proof -
  have v: "Validate s = None" using assms(1) by (auto simp: Ingest_def split: option.splits)
  obtain t where tx: "ingest_tx env s payload db = Inr (t, True)" and db1: "db1 = tx_db t"
    using assms by (auto simp: Ingest_def v split: option.splits sum.splits prod.splits commit_outcome.splits)
  have new: "\<not> has_key (db_runs db) (sn_collection_id s)"
  proof
    assume "has_key (db_runs db) (sn_collection_id s)"
    then obtain r where "RBT.lookup (db_runs db) (sn_collection_id s) = Some r" by (auto simp: has_key_def)
    from tx ingest_tx_known [OF v this] show False by (auto split: option.splits if_splits)
  qed
  have rest: "ingest_rest env s \<lparr>tx_db = with_run env s payload db, tx_calls = Suc 0, tx_errorIndex = 0\<rparr> = Inr t"
    using tx unfolding ingest_tx_new [OF v new] by (auto simp: and_then_eq_Inr split: option.splits)
  have "db_runs (tx_db t) = db_runs (with_run env s payload db)"
    by (rule upholds_Inr [OF ingest_rest_runs _ rest]) simp
  then show ?thesis by (simp add: db1 with_run_def run_row_def)
qed

text \<open>
  C11. Exactly once. Once a collection has been ingested, a later arrival of the same identifier
  changes nothing, after any history of further collections and retention statements, also when
  the stored payload has been pruned: it is reported as a duplicate if its payload has the same
  digest, and as an error if it has another one.
\<close>

theorem collection_ingested_once:
  assumes "Ingest env s db = (db1, Inr True)" and "pg_marshal env s = Inr payload"
    and "Validate s2 = None" and "sn_collection_id s2 = sn_collection_id s"
    and "pg_marshal env2 s2 = Inr payload2" and "undisturbed env2"
  shows "Ingest env2 s2 (run_events store_exec history db1) =
    (run_events store_exec history db1,
     if pg_sha256 env2 payload2 = pg_sha256 env payload then Inr False else Inl (PayloadReused (sn_collection_id s)))"
proof -
  let ?db = "run_events store_exec history db1"
  obtain r where r: "RBT.lookup (db_runs ?db) (sn_collection_id s2) = Some r"
    and h: "rc_raw_payload_sha256 r = Some (pg_sha256 env payload)"
    using run_digest_stable [OF Ingest_new_digest [OF assms(1,2)], of history] assms(4) by auto
  show ?thesis
    using assms(3-6) by (auto simp: Ingest_def ingest_tx_known [OF assms(3) r] undisturbed_def payload_matches_def h)
qed

definition quiet_pg :: pg where
  "quiet_pg = \<lparr>pg_now = 0, pg_begin = None, pg_fault = (\<lambda>_. None), pg_commit = Committed, pg_marshal = (\<lambda>s. Inr (nat_str (length (sn_machines s)))),
     pg_marshal_labels = (\<lambda>_. Inr []), pg_sha256 = (\<lambda>s. s), pg_jsonb_eq = (\<lambda>a b. a = Some b)\<rparr>"

lemma empty_snapshot_valid: "Validate (empty_snapshot 1 5) = None"
  by (simp add: Validate_None valid_snapshot_def empty_snapshot_def maxTimestampMS_def)

lemma empty_snapshot_ingested: "\<exists>db1. Ingest quiet_pg (empty_snapshot 1 5) empty_database = (db1, Inr True)"
proof -
  have "pg_fault quiet_pg = (\<lambda>_. None)" "pg_begin quiet_pg = None" "pg_commit quiet_pg = Committed"
    "pg_marshal quiet_pg (empty_snapshot 1 5) = Inr (nat_str 0)" "sn_machines (empty_snapshot 1 5) = []" "sn_errors (empty_snapshot 1 5) = []"
    "\<not> has_key (db_runs empty_database) (sn_collection_id (empty_snapshot 1 5))"
    by (simp_all add: quiet_pg_def empty_snapshot_def empty_database_def)
  then show ?thesis
    by (simp add: Ingest_def empty_snapshot_valid ingest_tx_new ingest_rest_def insertErrors_def markMissingMachinesInactive_def tx_exec_def Let_def)
qed

theorem collection_ingested_once_witness:
  "\<forall>history. \<exists>db1. Ingest quiet_pg (empty_snapshot 1 5) empty_database = (db1, Inr True) \<and>
     Ingest quiet_pg (empty_snapshot 1 5) (run_events store_exec history db1) = (run_events store_exec history db1, Inr False)"
proof
  fix history
  obtain db1 where db1: "Ingest quiet_pg (empty_snapshot 1 5) empty_database = (db1, Inr True)"
    using empty_snapshot_ingested by blast
  have m: "pg_marshal quiet_pg (empty_snapshot 1 5) = Inr (nat_str 0)" by (simp add: quiet_pg_def empty_snapshot_def)
  have "undisturbed quiet_pg" by (simp add: undisturbed_def quiet_pg_def)
  from collection_ingested_once [OF db1 m empty_snapshot_valid refl m this, of history] db1
  show "\<exists>db1. Ingest quiet_pg (empty_snapshot 1 5) empty_database = (db1, Inr True) \<and>
     Ingest quiet_pg (empty_snapshot 1 5) (run_events store_exec history db1) = (run_events store_exec history db1, Inr False)"
    by auto
qed

end
