(* ===== verification/Ingest_Current.thy ===== *)
theory Ingest_Current
  imports Ingest_Sound
begin

text \<open>
  What a collection does to the picture of the network. A collection that is later than everything
  in the database makes its machines, instances, nodes and links current and retires exactly what
  it knows to be gone; what it could not see is left alone; and no history of collections, in
  whatever order they arrive, takes back an observation. A collection that arrives late can bring
  back a machine that a later one has found gone.
\<close>

section \<open>Taking a step apart\<close>

lemma each_related:
  assumes "each f xs s = Inr s1" and "\<And>s. R s s" and "\<And>a b c. R a b \<Longrightarrow> R b c \<Longrightarrow> R a c"
    and "\<And>x s s1. x \<in> set xs \<Longrightarrow> f x s = Inr s1 \<Longrightarrow> R s s1"
  shows "R s s1"
  using assms(1)
proof (rule each_induct [where I = "\<lambda>ys. R s"], goal_cases)
  case (2 ys x zs u u1)
  then have "R u u1" by (intro assms(4) [of x]) auto
  with 2(2) show ?case by (rule assms(3))
qed (rule assms(2))

lemma leaves_Inr:
  assumes "f t = Inr t1" and "leaves g (g (tx_db t)) f"
  shows "g (tx_db t1) = g (tx_db t)"
  using upholds_Inr [OF assms(2) _ assms(1)] by simp

lemma upsertMachine_Inr:
  assumes "upsertMachine env cid T m t = Inr t1"
  obtains tab where "upsert machine_stamp (\<lambda>old new. new) (has_key (db_runs (tx_db t)) cid) (se_machine_id (sm_session m))
      (session_row (pg_now env) cid T m) (db_machines (tx_db t)) = Inr tab" and "tx_db t1 = (tx_db t)\<lparr>db_machines := tab\<rparr>"
  using assms by (auto simp: upsertMachine_def exec_Inr and_then_eq_Inr)

lemma upsertInstance_Inr:
  assumes "upsertInstance env cid T mid i t = Inr t1"
  obtains tab where "upsert instance_stamp (\<lambda>old new. new) (has_key (db_machines (tx_db t)) mid \<and> has_key (db_runs (tx_db t)) cid)
      (si_instance_id i) (instance_row (pg_now env) cid T mid i) (db_instances (tx_db t)) = Inr tab"
    and "tx_db t1 = (tx_db t)\<lparr>db_instances := tab\<rparr>"
  using assms by (auto simp: upsertInstance_def exec_Inr and_then_eq_Inr)

lemma upsertNode_Inr:
  assumes "upsertNode env cid T i node t = Inr t1"
  obtains tab cidrs listeners where "nd_proxy_cidrs node = Some cidrs" and "nd_listeners node = Some listeners"
    and "upsert node_stamp (\<lambda>old new. new) (has_key (db_instances (tx_db t)) (si_instance_id i) \<and> has_key (db_runs (tx_db t)) cid)
      (si_instance_id i) (node_row (pg_now env) cid T i node cidrs listeners) (db_nodes (tx_db t)) = Inr tab"
    and "tx_db t1 = (tx_db t)\<lparr>db_nodes := tab\<rparr>"
  using assms by (auto simp: upsertNode_def exec_Inr and_then_eq_Inr split: option.splits)

lemma upsertPeer_Inr:
  assumes "upsertPeer env cid T i details p t = Inr t1"
  obtains tab where "upsert link_stamp (merge_link details)
      (has_key (db_instances (tx_db t)) (si_instance_id i) \<and> has_key (db_runs (tx_db t)) cid)
      (si_instance_id i, uint (sp_peer_id p)) (peer_row (pg_now env) cid T i p) (db_links (tx_db t)) = Inr tab"
    and "tx_db t1 = (tx_db t)\<lparr>db_links := tab\<rparr>"
  using assms by (auto simp: upsertPeer_def exec_Inr and_then_eq_Inr split: if_splits)

text \<open>The statements of one instance, and of one machine, with what the rest of them leaves alone.\<close>

lemma ingestInstance_Inr:
  assumes "ingestInstance env cid T mid i t = Inr t1"
  obtains t2 t3 t4 where "upsertInstance env cid T mid i t = Inr t2"
    and "(case si_node i of None \<Rightarrow> Inr t2 | Some node \<Rightarrow> upsertNode env cid T i node t2) = Inr t3"
    and "each (upsertPeer env cid T i (\<not> hasOperationError (si_errors i) ''list_peers'')) (si_peers i) t3 = Inr t4"
    and "db_instances (tx_db t1) = db_instances (tx_db t2)" and "db_nodes (tx_db t1) = db_nodes (tx_db t3)"
    and "db_links (tx_db t3) = db_links (tx_db t)" and "db_nodes (tx_db t2) = db_nodes (tx_db t)"
    and "db_links (tx_db t1) = (if hasOperationError (si_errors i) ''list_routes'' then db_links (tx_db t4)
      else RBT.filter (\<lambda>(src, pid) r. \<not> (src = si_instance_id i \<and> link_stamp r < (millis (si_observed_at_ms i), T) \<and>
        pid \<notin> set (map (\<lambda>p. uint (sp_peer_id p)) (si_peers i)))) (db_links (tx_db t4)))"
proof -
  obtain t2 t3 t4 t5 where t2: "upsertInstance env cid T mid i t = Inr t2"
    and t3: "(case si_node i of None \<Rightarrow> Inr t2 | Some node \<Rightarrow> upsertNode env cid T i node t2) = Inr t3"
    and t4: "each (upsertPeer env cid T i (\<not> hasOperationError (si_errors i) ''list_peers'')) (si_peers i) t3 = Inr t4"
    and t5: "(if hasOperationError (si_errors i) ''list_routes'' then Inr t4 else removeStalePeers env T i t4) = Inr t5"
    and t1: "each (insertMetric env cid i) (si_metrics i) t5 = Inr t1"
    using assms by (auto simp: ingestInstance_def and_then_eq_Inr)
  have metrics: "g (tx_db t1) = g (tx_db t5)" if "\<And>db rows. g (db\<lparr>db_samples := rows\<rparr>) = g db" for g :: "database \<Rightarrow> 'x"
    using t1 by (rule leaves_Inr [where g = g]) (intro upholds_each insertMetric_leaves that)
  have stale: "g (tx_db t5) = g (tx_db t4)" if "\<And>db rows. g (db\<lparr>db_links := rows\<rparr>) = g db" for g :: "database \<Rightarrow> 'x"
    using t5 leaves_Inr [where g = g and f = "removeStalePeers env T i", OF _ removeStalePeers_leaves] that by (auto split: if_splits)
  have peers: "g (tx_db t4) = g (tx_db t3)" if "\<And>db rows. g (db\<lparr>db_links := rows\<rparr>) = g db" for g :: "database \<Rightarrow> 'x"
    using t4 by (rule leaves_Inr [where g = g]) (intro upholds_each upsertPeer_leaves that)
  have node: "g (tx_db t3) = g (tx_db t2)" if "\<And>db rows. g (db\<lparr>db_nodes := rows\<rparr>) = g db" for g :: "database \<Rightarrow> 'x"
    using t3 leaves_Inr [where g = g and f = "upsertNode env cid T i node" for node, OF _ upsertNode_leaves] that
    by (auto split: option.splits)
  have inst: "g (tx_db t2) = g (tx_db t)" if "\<And>db rows. g (db\<lparr>db_instances := rows\<rparr>) = g db" for g :: "database \<Rightarrow> 'x"
    using t2 by (rule leaves_Inr [where g = g]) (intro upsertInstance_leaves that)
  have "db_links (tx_db t5) = (if hasOperationError (si_errors i) ''list_routes'' then db_links (tx_db t4)
      else RBT.filter (\<lambda>(src, pid) r. \<not> (src = si_instance_id i \<and> link_stamp r < (millis (si_observed_at_ms i), T) \<and>
        pid \<notin> set (map (\<lambda>p. uint (sp_peer_id p)) (si_peers i)))) (db_links (tx_db t4)))"
    using t5 by (auto simp: removeStalePeers_def Let_def exec_Inr split: if_splits)
  then show thesis
    using metrics [of db_links] metrics [of db_instances] metrics [of db_nodes] stale [of db_instances] stale [of db_nodes]
      peers [of db_instances] peers [of db_nodes] node [of db_instances] node [of db_links] inst [of db_nodes] inst [of db_links]
    by (intro that [OF t2 t3 t4]) simp_all
qed

definition report_instance :: "pg \<Rightarrow> uuid \<Rightarrow> int \<Rightarrow> uuid \<Rightarrow> snapshot_instance \<Rightarrow> tx \<Rightarrow> ingest_error + tx" where
  "report_instance env cid T mid i t =
     and_then (ingestInstance env cid T mid i t) (insertErrors env cid ''instance'' mid (si_instance_id i) (si_errors i))"

lemma report_instance_Inr:
  assumes "report_instance env cid T mid i t = Inr t1"
  obtains t2 where "ingestInstance env cid T mid i t = Inr t2" and "db_instances (tx_db t1) = db_instances (tx_db t2)"
    and "db_nodes (tx_db t1) = db_nodes (tx_db t2)" and "db_links (tx_db t1) = db_links (tx_db t2)"
proof -
  obtain t2 where t2: "ingestInstance env cid T mid i t = Inr t2"
    and t1: "insertErrors env cid ''instance'' mid (si_instance_id i) (si_errors i) t2 = Inr t1"
    using assms by (auto simp: report_instance_def and_then_eq_Inr)
  have same: "g (tx_db t1) = g (tx_db t2)" if "\<And>db rows. g (db\<lparr>db_errors := rows\<rparr>) = g db" for g :: "database \<Rightarrow> 'x"
    using t1 by (rule leaves_Inr [where g = g]) (intro insertErrors_leaves that)
  show thesis using same [of db_instances] same [of db_nodes] same [of db_links] by (intro that [OF t2]) simp_all
qed

lemma ingest_machine_Inr:
  assumes "ingest_machine env cid T m t = Inr t1"
  obtains t2 t3 t4 where "upsertMachine env cid T m t = Inr t2" and "db_machines (tx_db t1) = db_machines (tx_db t2)"
    and "each (report_instance env cid T (se_machine_id (sm_session m))) (sm_instances m) t3 = Inr t4"
    and "db_instances (tx_db t3) = db_instances (tx_db t)" and "db_nodes (tx_db t3) = db_nodes (tx_db t)"
    and "db_links (tx_db t3) = db_links (tx_db t)"
    and "db_nodes (tx_db t1) = db_nodes (tx_db t4)" and "db_links (tx_db t1) = db_links (tx_db t4)"
    and "db_instances (tx_db t1) = (if hasOperationError (sm_errors m) ''list_network_instances'' then db_instances (tx_db t4)
      else RBT.map (\<lambda>iid r. if ic_machine_id r = se_machine_id (sm_session m) \<and> ic_active r \<and>
          iid \<notin> set (map si_instance_id (sm_instances m)) \<and> ic_last_collection_completed_at r < T
        then retire_instance (pg_now env) cid T r else r) (db_instances (tx_db t4)))"
proof -
  let ?mid = "se_machine_id (sm_session m)"
  obtain t2 t3 t4 where t2: "upsertMachine env cid T m t = Inr t2"
    and t3: "insertErrors env cid ''machine'' ?mid 0 (sm_errors m) t2 = Inr t3"
    and t4: "each (report_instance env cid T ?mid) (sm_instances m) t3 = Inr t4"
    and t1: "(if hasOperationError (sm_errors m) ''list_network_instances'' then Inr t4
      else markMissingInstancesInactive env cid T m t4) = Inr t1"
    using assms by (auto simp: ingest_machine_def Let_def and_then_eq_Inr report_instance_def [abs_def])
  have mark: "g (tx_db t1) = g (tx_db t4)" if "\<And>db rows. g (db\<lparr>db_instances := rows\<rparr>) = g db" for g :: "database \<Rightarrow> 'x"
    using t1 leaves_Inr [where g = g and f = "markMissingInstancesInactive env cid T m", OF _ markMissingInstancesInactive_leaves] that
    by (auto split: if_splits)
  have quiet: "db_machines (tx_db t4) = db_machines (tx_db t3)"
    using t4 unfolding report_instance_def
    by (rule leaves_Inr) (intro upholds_each upholds_then ingestInstance_leaves insertErrors_leaves; simp)
  have errors: "g (tx_db t3) = g (tx_db t2)" if "\<And>db rows. g (db\<lparr>db_errors := rows\<rparr>) = g db" for g :: "database \<Rightarrow> 'x"
    using t3 by (rule leaves_Inr [where g = g]) (intro insertErrors_leaves that)
  have machine: "g (tx_db t2) = g (tx_db t)" if "\<And>db rows. g (db\<lparr>db_machines := rows\<rparr>) = g db" for g :: "database \<Rightarrow> 'x"
    using t2 by (rule leaves_Inr [where g = g]) (intro upsertMachine_leaves that)
  have "db_instances (tx_db t1) = (if hasOperationError (sm_errors m) ''list_network_instances'' then db_instances (tx_db t4)
      else RBT.map (\<lambda>iid r. if ic_machine_id r = ?mid \<and> ic_active r \<and>
          iid \<notin> set (map si_instance_id (sm_instances m)) \<and> ic_last_collection_completed_at r < T
        then retire_instance (pg_now env) cid T r else r) (db_instances (tx_db t4)))"
    using t1 by (auto simp: markMissingInstancesInactive_def Let_def exec_Inr split: if_splits)
  then show thesis
    using quiet mark [of db_machines] mark [of db_nodes] mark [of db_links] errors [of db_machines] errors [of db_instances]
      errors [of db_nodes] errors [of db_links] machine [of db_instances] machine [of db_nodes] machine [of db_links]
    by (intro that [OF t2 _ t4]) simp_all
qed

text \<open>The whole transaction of a new collection.\<close>

definition mark_machines :: "pg \<Rightarrow> uuid \<Rightarrow> int \<Rightarrow> uuid list \<Rightarrow> (uuid, machine_rec) RBT.rbt \<Rightarrow> (uuid, machine_rec) RBT.rbt" where
  "mark_machines env cid T mids =
     RBT.map (\<lambda>mid r. if mc_active r \<and> mid \<notin> set mids \<and> mc_last_collection_completed_at r < T
       then retire_machine (pg_now env) cid T r else r)"

definition mark_instances :: "pg \<Rightarrow> uuid \<Rightarrow> int \<Rightarrow> uuid list \<Rightarrow> (uuid, instance_rec) RBT.rbt \<Rightarrow> (uuid, instance_rec) RBT.rbt" where
  "mark_instances env cid T mids =
     RBT.map (\<lambda>iid r. if ic_active r \<and> ic_machine_id r \<notin> set mids \<and> ic_last_collection_completed_at r < T
       then retire_instance (pg_now env) cid T r else r)"

lemma Ingest_changes:
  assumes "Ingest env s db = (db1, result)" and "result = Inr True \<or> db1 \<noteq> db"
  obtains t2 t3 where "Validate s = None" and "\<not> has_key (db_runs db) (sn_collection_id s)"
    and "each (ingest_machine env (sn_collection_id s) (millis (sn_completed_at_ms s))) (sn_machines s) t2 = Inr t3"
    and "db_machines (tx_db t2) = db_machines db" and "db_instances (tx_db t2) = db_instances db"
    and "db_nodes (tx_db t2) = db_nodes db" and "db_links (tx_db t2) = db_links db"
    and "db_nodes db1 = db_nodes (tx_db t3)" and "db_links db1 = db_links (tx_db t3)"
    and "db_machines db1 = (if sn_errors s = [] then mark_machines env (sn_collection_id s) (millis (sn_completed_at_ms s))
      (map (\<lambda>m. se_machine_id (sm_session m)) (sn_machines s)) (db_machines (tx_db t3)) else db_machines (tx_db t3))"
    and "db_instances db1 = (if sn_errors s = [] then mark_instances env (sn_collection_id s) (millis (sn_completed_at_ms s))
      (map (\<lambda>m. se_machine_id (sm_session m)) (sn_machines s)) (db_instances (tx_db t3)) else db_instances (tx_db t3))"
proof -
  let ?cid = "sn_collection_id s" and ?T = "millis (sn_completed_at_ms s)"
  have v: "Validate s = None" using assms by (auto simp: Ingest_def split: option.splits)
  obtain payload t inserted where t: "ingest_tx env s payload db = Inr (t, inserted)" and db1: "db1 = tx_db t"
    and inserted: "result = Inr True \<longrightarrow> inserted"
    using assms by (auto simp: Ingest_def v split: option.splits sum.splits prod.splits commit_outcome.splits)
  have "inserted"
  proof (rule ccontr)
    assume no: "\<not> inserted"
    have "has_key (db_runs db) ?cid"
    proof (rule ccontr)
      assume "\<not> has_key (db_runs db) ?cid"
      from t [unfolded ingest_tx_new [OF v this]] no show False by (auto simp: and_then_eq_Inr split: option.splits)
    qed
    then obtain r where "RBT.lookup (db_runs db) ?cid = Some r" by (auto simp: has_key_def)
    from t ingest_tx_known [OF v this, of env payload] have "tx_db t = db" by (auto split: option.splits if_splits)
    with no inserted assms(2) show False by (simp add: db1)
  qed
  with t have tx: "ingest_tx env s payload db = Inr (t, True)" by simp
  have new: "\<not> has_key (db_runs db) ?cid"
  proof
    assume "has_key (db_runs db) ?cid"
    then obtain r where "RBT.lookup (db_runs db) ?cid = Some r" by (auto simp: has_key_def)
    from tx ingest_tx_known [OF v this] show False by (auto split: option.splits if_splits)
  qed
  let ?t = "\<lparr>tx_db = with_run env s payload db, tx_calls = Suc 0, tx_errorIndex = 0\<rparr>"
  have "ingest_rest env s ?t = Inr t"
    using tx unfolding ingest_tx_new [OF v new] by (auto simp: and_then_eq_Inr split: option.splits)
  then obtain t2 t3 where t2: "insertErrors env ?cid ''snapshot'' 0 0 (sn_errors s) ?t = Inr t2"
    and t3: "each (ingest_machine env ?cid ?T) (sn_machines s) t2 = Inr t3"
    and t: "(if sn_errors s = [] then markMissingMachinesInactive env ?cid ?T (sn_machines s) t3 else Inr t3) = Inr t"
    by (auto simp: ingest_rest_def Let_def and_then_eq_Inr)
  have same: "g (tx_db t2) = g (with_run env s payload db)" if "\<And>db rows. g (db\<lparr>db_errors := rows\<rparr>) = g db" for g :: "database \<Rightarrow> 'x"
  proof -
    have "leaves g (g (tx_db ?t)) (insertErrors env ?cid ''snapshot'' 0 0 (sn_errors s))" by (intro insertErrors_leaves that)
    from leaves_Inr [OF t2 this] show ?thesis by simp
  qed
  show thesis
    using t same [of db_machines] same [of db_instances] same [of db_nodes] same [of db_links]
    by (intro that [OF v new t3])
      (auto simp: db1 with_run_def markMissingMachinesInactive_def Let_def and_then_eq_Inr exec_Inr mark_machines_def mark_instances_def
        split: if_splits)
qed

section \<open>What was not reported\<close>

abbreviation (input) machine_of :: "snapshot_machine \<Rightarrow> uuid" where
  "machine_of m \<equiv> se_machine_id (sm_session m)"

lemma ingest_machine_other:
  assumes "machine_of m \<noteq> mid"
  shows "upholds (\<lambda>t. RBT.lookup (db_machines (tx_db t)) mid = R) (\<lambda>_. True) (ingest_machine env cid T m)"
proof (rule upholdsI)
  fix t :: tx
  assume R: "RBT.lookup (db_machines (tx_db t)) mid = R"
  show "case ingest_machine env cid T m t of Inl e \<Rightarrow> True | Inr t1 \<Rightarrow> RBT.lookup (db_machines (tx_db t1)) mid = R"
  proof (cases "ingest_machine env cid T m t")
    case (Inr t1)
    then obtain t2 where "upsertMachine env cid T m t = Inr t2" and same: "db_machines (tx_db t1) = db_machines (tx_db t2)"
      by (rule ingest_machine_Inr)
    then obtain tab where "upsert machine_stamp (\<lambda>old new. new) (has_key (db_runs (tx_db t)) cid) (machine_of m)
        (session_row (pg_now env) cid T m) (db_machines (tx_db t)) = Inr tab" and "tx_db t2 = (tx_db t)\<lparr>db_machines := tab\<rparr>"
      by (elim upsertMachine_Inr)
    with machine_table.upsert_other [OF this(1), of mid] assms R same show ?thesis by (simp add: Inr)
  qed simp
qed

text \<open>A row of the instances that a report does not touch.\<close>

lemma report_instance_other:
  assumes "report_instance env cid T mid i t = Inr t1" and "si_instance_id i \<noteq> iid"
  shows "RBT.lookup (db_instances (tx_db t1)) iid = RBT.lookup (db_instances (tx_db t)) iid"
    and "RBT.lookup (db_nodes (tx_db t1)) iid = RBT.lookup (db_nodes (tx_db t)) iid"
    and "RBT.lookup (db_links (tx_db t1)) (iid, pid) = RBT.lookup (db_links (tx_db t)) (iid, pid)"
proof -
  obtain t0 where t0: "ingestInstance env cid T mid i t = Inr t0"
    and same: "db_instances (tx_db t1) = db_instances (tx_db t0)" "db_nodes (tx_db t1) = db_nodes (tx_db t0)"
      "db_links (tx_db t1) = db_links (tx_db t0)"
    using assms(1) by (rule report_instance_Inr)
  from t0 obtain t2 t3 t4 where t2: "upsertInstance env cid T mid i t = Inr t2"
    and t3: "(case si_node i of None \<Rightarrow> Inr t2 | Some node \<Rightarrow> upsertNode env cid T i node t2) = Inr t3"
    and t4: "each (upsertPeer env cid T i (\<not> hasOperationError (si_errors i) ''list_peers'')) (si_peers i) t3 = Inr t4"
    and inst: "db_instances (tx_db t0) = db_instances (tx_db t2)" and node: "db_nodes (tx_db t0) = db_nodes (tx_db t3)"
      "db_nodes (tx_db t2) = db_nodes (tx_db t)" and link: "db_links (tx_db t3) = db_links (tx_db t)"
    and stale: "db_links (tx_db t0) = (if hasOperationError (si_errors i) ''list_routes'' then db_links (tx_db t4)
      else RBT.filter (\<lambda>(src, pid) r. \<not> (src = si_instance_id i \<and> link_stamp r < (millis (si_observed_at_ms i), T) \<and>
        pid \<notin> set (map (\<lambda>p. uint (sp_peer_id p)) (si_peers i)))) (db_links (tx_db t4)))"
    by (rule ingestInstance_Inr)
  show "RBT.lookup (db_instances (tx_db t1)) iid = RBT.lookup (db_instances (tx_db t)) iid"
    using t2 by (rule upsertInstance_Inr) (use assms(2) same inst in \<open>auto simp: instance_table.upsert_other\<close>)
  show "RBT.lookup (db_nodes (tx_db t1)) iid = RBT.lookup (db_nodes (tx_db t)) iid"
  proof (cases "si_node i")
    case (Some nd)
    with t3 have "upsertNode env cid T i nd t2 = Inr t3" by simp
    then show ?thesis by (rule upsertNode_Inr) (use assms(2) same node in \<open>auto simp: node_table.upsert_other\<close>)
  qed (use t3 same node in auto)
  have "RBT.lookup (db_links (tx_db t4)) (iid, pid) = RBT.lookup (db_links (tx_db t3)) (iid, pid)"
    using t4
  proof (rule each_induct, goal_cases)
    case (2 ys p zs u u1)
    from 2(3) show ?case
      by (rule upsertPeer_Inr) (use 2(2) assms(2) in \<open>auto simp: link_table.upsert_other\<close>)
  qed simp
  then show "RBT.lookup (db_links (tx_db t1)) (iid, pid) = RBT.lookup (db_links (tx_db t)) (iid, pid)"
    using same(3) stale link assms(2) by (auto simp: RBT.lookup_filter split: option.splits)
qed

lemma ingest_machine_instance_kept:
  assumes "ingest_machine env cid T m t = Inr t1" and "RBT.lookup (db_instances (tx_db t)) iid = Some r"
    and "iid \<notin> si_instance_id ` set (sm_instances m)"
    and "ic_machine_id r = machine_of m \<Longrightarrow> hasOperationError (sm_errors m) ''list_network_instances''"
  shows "RBT.lookup (db_instances (tx_db t1)) iid = Some r"
  using assms(1)
proof (rule ingest_machine_Inr)
  fix t2 t3 t4
  assume t4: "each (report_instance env cid T (machine_of m)) (sm_instances m) t3 = Inr t4"
    and t3: "db_instances (tx_db t3) = db_instances (tx_db t)"
    and t1: "db_instances (tx_db t1) = (if hasOperationError (sm_errors m) ''list_network_instances'' then db_instances (tx_db t4)
      else RBT.map (\<lambda>iid r. if ic_machine_id r = machine_of m \<and> ic_active r \<and>
          iid \<notin> set (map si_instance_id (sm_instances m)) \<and> ic_last_collection_completed_at r < T
        then retire_instance (pg_now env) cid T r else r) (db_instances (tx_db t4)))"
  have "RBT.lookup (db_instances (tx_db t4)) iid = Some r"
    using t4
  proof (rule each_induct, goal_cases)
    case (2 ys i zs u u1)
    then have "si_instance_id i \<noteq> iid" using assms(3) by auto
    from report_instance_other(1) [OF 2(3) this] 2(2) show ?case by simp
  qed (simp add: t3 assms(2))
  with t1 assms(4) show ?thesis by auto
qed

lemma report_instance_routes_failed:
  assumes "report_instance env cid T mid i t = Inr t1" and "hasOperationError (si_errors i) ''list_routes''"
    and "pid \<notin> (\<lambda>p. uint (sp_peer_id p)) ` set (si_peers i)"
  shows "RBT.lookup (db_links (tx_db t1)) (iid, pid) = RBT.lookup (db_links (tx_db t)) (iid, pid)"
proof -
  obtain t0 where t0: "ingestInstance env cid T mid i t = Inr t0" and same: "db_links (tx_db t1) = db_links (tx_db t0)"
    using assms(1) by (rule report_instance_Inr)
  from t0 show ?thesis
  proof (rule ingestInstance_Inr, goal_cases)
    case (1 t2 t3 t4)
    have "RBT.lookup (db_links (tx_db t4)) (iid, pid) = RBT.lookup (db_links (tx_db t3)) (iid, pid)"
      using 1(3)
    proof (rule each_induct, goal_cases)
      case (2 ys p zs u u1)
      then have "pid \<noteq> uint (sp_peer_id p)" using assms(3) by auto
      from 2(3) show ?case
        by (rule upsertPeer_Inr) (use 2(2) \<open>pid \<noteq> uint (sp_peer_id p)\<close> in \<open>auto simp: link_table.upsert_other\<close>)
    qed simp
    with 1 same assms(2) show ?thesis by simp
  qed
qed

lemma ingest_machine_link_kept:
  assumes "ingest_machine env cid T m t = Inr t1"
    and "\<And>i. i \<in> set (sm_instances m) \<Longrightarrow> si_instance_id i = iid \<Longrightarrow>
      hasOperationError (si_errors i) ''list_routes'' \<and> pid \<notin> (\<lambda>p. uint (sp_peer_id p)) ` set (si_peers i)"
  shows "RBT.lookup (db_links (tx_db t1)) (iid, pid) = RBT.lookup (db_links (tx_db t)) (iid, pid)"
  using assms(1)
proof (rule ingest_machine_Inr, goal_cases)
  case (1 t2 t3 t4)
  have "RBT.lookup (db_links (tx_db t4)) (iid, pid) = RBT.lookup (db_links (tx_db t3)) (iid, pid)"
    using 1(3)
  proof (rule each_induct, goal_cases)
    case (2 ys i zs u u1)
    have "RBT.lookup (db_links (tx_db u1)) (iid, pid) = RBT.lookup (db_links (tx_db u)) (iid, pid)"
    proof (cases "si_instance_id i = iid")
      case True
      with assms(2) [of i] 2(1) show ?thesis by (intro report_instance_routes_failed [OF 2(3)]) auto
    qed (rule report_instance_other(3) [OF 2(3)])
    with 2(2) show ?case by simp
  qed simp
  with 1 show ?thesis by simp
qed

text \<open>A small network: one machine with one instance that has one peer.\<close>

definition reported_peer :: snapshot_peer where
  "reported_peer = \<lparr>sp_peer_id = 7, sp_ipv4 = None, sp_hostname = js ''b'', sp_next_hop_peer_id = 7, sp_direct = True, sp_path_cost = 1,
     sp_latency_ms = Some 18, sp_loss_rate = None, sp_rx_bytes = Some 10, sp_tx_bytes = None, sp_tunnel_protocols = Some [], sp_version = []\<rparr>"

definition reported_instance :: "64 word \<Rightarrow> snapshot_instance" where
  "reported_instance observed = \<lparr>si_instance_id = 9, si_observed_at_ms = observed,
     si_node = Some \<lparr>nd_peer_id = 3, nd_ipv4 = [], nd_hostname = js ''a'', nd_proxy_cidrs = Some [], nd_listeners = Some [], nd_version = []\<rparr>,
     si_peers = [reported_peer], si_metrics = [], si_errors = []\<rparr>"

definition sample_report :: "64 word \<Rightarrow> snapshot_machine" where
  "sample_report observed =
     \<lparr>sm_session = \<lparr>se_machine_id = 5, se_remote_url = [], se_hostname = js ''a'', se_easytier_version = [], se_report_time = [],
        se_connected_at_ms = 1, se_last_heartbeat_at_ms = 2, se_running_instance_ids = [9], se_device = None\<rparr>,
      sm_observed_at_ms = observed, sm_instances = [reported_instance observed], sm_errors = []\<rparr>"

definition sample_snapshot :: "uuid \<Rightarrow> 64 word \<Rightarrow> snapshot_machine list \<Rightarrow> snapshot" where
  "sample_snapshot cid completed machines =
     \<lparr>sn_schema_version = SchemaVersion, sn_collection_id = cid, sn_started_at_ms = 1, sn_completed_at_ms = completed,
      sn_collected_at_ms = completed, sn_machines = machines, sn_errors = []\<rparr>"

lemma network_fields:
  "sn_collection_id (sample_snapshot cid T ms) = cid" "sn_completed_at_ms (sample_snapshot cid T ms) = T"
  "sn_machines (sample_snapshot cid T ms) = ms" "sn_errors (sample_snapshot cid T ms) = []"
  "machine_of (sample_report obs) = 5" "sm_instances (sample_report obs) = [reported_instance obs]" "sm_observed_at_ms (sample_report obs) = obs"
  "si_instance_id (reported_instance obs) = 9" "si_peers (reported_instance obs) = [reported_peer]" "si_errors (reported_instance obs) = []"
  "sp_peer_id reported_peer = 7"
  by (simp_all add: sample_snapshot_def sample_report_def reported_instance_def reported_peer_def)

text \<open>
  C21. What was not seen is left alone. When a snapshot comes with an error of its own, a machine it
  does not report keeps its row; when the instances of a machine could not be listed, an instance
  of it that is not reported keeps its row; when the routes of an instance could not be listed, a
  link of it that is not reported keeps its row. This holds for every way an ingestion can end.
\<close>

theorem unseen_rows_kept:
  "(sn_errors s \<noteq> [] \<and> mid \<notin> machine_of ` set (sn_machines s) \<longrightarrow>
      RBT.lookup (db_machines (fst (Ingest env s db))) mid = RBT.lookup (db_machines db) mid) \<and>
   (RBT.lookup (db_instances db) iid = Some r \<and> (\<forall>m \<in> set (sn_machines s). iid \<notin> si_instance_id ` set (sm_instances m)) \<and>
      ic_machine_id r \<in> machine_of ` set (sn_machines s) \<and>
      (\<forall>m \<in> set (sn_machines s). machine_of m = ic_machine_id r \<longrightarrow> hasOperationError (sm_errors m) ''list_network_instances'') \<longrightarrow>
      RBT.lookup (db_instances (fst (Ingest env s db))) iid = Some r) \<and>
   ((\<forall>m \<in> set (sn_machines s). \<forall>i \<in> set (sm_instances m). si_instance_id i = iid \<longrightarrow>
        hasOperationError (si_errors i) ''list_routes'' \<and> pid \<notin> (\<lambda>p. uint (sp_peer_id p)) ` set (si_peers i)) \<longrightarrow>
      RBT.lookup (db_links (fst (Ingest env s db))) (iid, pid) = RBT.lookup (db_links db) (iid, pid))"
    (is "?machines \<and> ?instances \<and> ?links")
proof (cases "fst (Ingest env s db) = db")
  case False
  obtain db1 result where ingest: "Ingest env s db = (db1, result)" by fastforce
  with False have "result = Inr True \<or> db1 \<noteq> db" by simp
  from ingest this show ?thesis
  proof (rule Ingest_changes, goal_cases)
    case (1 t2 t3)
    note loop = 1(3) and before = 1(4-7) and after = 1(8-11)
    have ?machines
    proof (intro impI, elim conjE)
      assume "sn_errors s \<noteq> []" and mid: "mid \<notin> machine_of ` set (sn_machines s)"
      have "RBT.lookup (db_machines (tx_db t3)) mid = RBT.lookup (db_machines db) mid"
        by (rule upholds_Inr [OF upholds_each _ loop]) (use mid before in \<open>auto intro!: ingest_machine_other\<close>)
      with \<open>sn_errors s \<noteq> []\<close> after show "RBT.lookup (db_machines (fst (Ingest env s db))) mid = RBT.lookup (db_machines db) mid"
        by (simp add: ingest)
    qed
    moreover have ?instances
    proof (intro impI, elim conjE)
      assume r: "RBT.lookup (db_instances db) iid = Some r"
        and iid: "\<forall>m \<in> set (sn_machines s). iid \<notin> si_instance_id ` set (sm_instances m)"
        and mid: "ic_machine_id r \<in> machine_of ` set (sn_machines s)"
        and failed: "\<forall>m \<in> set (sn_machines s). machine_of m = ic_machine_id r \<longrightarrow> hasOperationError (sm_errors m) ''list_network_instances''"
      have "RBT.lookup (db_instances (tx_db t3)) iid = Some r"
        using loop
      proof (rule each_induct, goal_cases)
        case (2 ys m zs u u1)
        then show ?case using iid failed by (intro ingest_machine_instance_kept [OF 2(3)]) auto
      qed (simp add: before r)
      with after mid show "RBT.lookup (db_instances (fst (Ingest env s db))) iid = Some r"
        by (auto simp: ingest mark_instances_def)
    qed
    moreover have ?links
    proof
      assume seen: "\<forall>m \<in> set (sn_machines s). \<forall>i \<in> set (sm_instances m). si_instance_id i = iid \<longrightarrow>
        hasOperationError (si_errors i) ''list_routes'' \<and> pid \<notin> (\<lambda>p. uint (sp_peer_id p)) ` set (si_peers i)"
      have "RBT.lookup (db_links (tx_db t3)) (iid, pid) = RBT.lookup (db_links db) (iid, pid)"
        using loop
      proof (rule each_induct, goal_cases)
        case (2 ys m zs u u1)
        then have "RBT.lookup (db_links (tx_db u1)) (iid, pid) = RBT.lookup (db_links (tx_db u)) (iid, pid)"
          using seen by (intro ingest_machine_link_kept [OF 2(3)]) auto
        with 2(2) show ?case by simp
      qed (simp add: before)
      with after show "RBT.lookup (db_links (fst (Ingest env s db))) (iid, pid) = RBT.lookup (db_links db) (iid, pid)"
        by (simp add: ingest)
    qed
    ultimately show ?thesis by blast
  qed
qed simp

theorem unseen_rows_kept_witness:
  "RBT.lookup (db_machines (fst (Ingest quiet_pg (sample_snapshot 2 20 []\<lparr>sn_errors := [\<lparr>te_code = [], te_operation = [], te_message = []\<rparr>]\<rparr>)
     (fst (Ingest quiet_pg (sample_snapshot 1 10 [sample_report 5]) empty_database))))) 5 =
   RBT.lookup (db_machines (fst (Ingest quiet_pg (sample_snapshot 1 10 [sample_report 5]) empty_database))) 5"
  using unseen_rows_kept [of "sample_snapshot 2 20 []\<lparr>sn_errors := [\<lparr>te_code = [], te_operation = [], te_message = []\<rparr>]\<rparr>" 5 quiet_pg
      "fst (Ingest quiet_pg (sample_snapshot 1 10 [sample_report 5]) empty_database)"]
  by (simp add: network_fields)

section \<open>Observations are never taken back\<close>

text \<open>Every row is still there, observed no earlier.\<close>

definition later :: "('r \<Rightarrow> int) \<Rightarrow> ('k :: linorder, 'r) RBT.rbt \<Rightarrow> ('k, 'r) RBT.rbt \<Rightarrow> bool" where
  "later obs t t1 \<longleftrightarrow> (\<forall>k r. RBT.lookup t k = Some r \<longrightarrow> (\<exists>r1. RBT.lookup t1 k = Some r1 \<and> obs r \<le> obs r1))"

lemma later_refl [simp]: "later obs t t"
  by (auto simp: later_def)

lemma later_trans: "later obs t t1 \<Longrightarrow> later obs t1 t2 \<Longrightarrow> later obs t t2"
  unfolding later_def by (meson order_trans)

lemma later_map: "(\<And>k r. obs (f k r) = obs r) \<Longrightarrow> later obs t (RBT.map f t)"
  by (auto simp: later_def)

lemma fst_mono: "a \<le> b \<Longrightarrow> fst a \<le> fst b" for a b :: "int \<times> int"
  by (auto simp: less_eq_prod_def)

context versioned_table
begin

lemma upsert_later: "upsert stamp merge refs k new t = Inr t1 \<Longrightarrow> later (\<lambda>r. fst (stamp r)) t t1"
  unfolding later_def by (meson fst_mono upsert_version)

end

lemma machine_later: "upsert machine_stamp (\<lambda>old new. new) refs k new t = Inr t1 \<Longrightarrow> later mc_last_observed_at t t1"
  by (drule machine_table.upsert_later) (simp add: machine_stamp_def)

lemma instance_later: "upsert instance_stamp (\<lambda>old new. new) refs k new t = Inr t1 \<Longrightarrow> later ic_last_observed_at t t1"
  by (drule instance_table.upsert_later) (simp add: instance_stamp_def)

lemma node_later: "upsert node_stamp (\<lambda>old new. new) refs k new t = Inr t1 \<Longrightarrow> later nc_last_observed_at t t1"
  by (drule node_table.upsert_later) (simp add: node_stamp_def)

lemma report_instance_later:
  assumes "report_instance env cid T mid i t = Inr t1"
  shows "later ic_last_observed_at (db_instances (tx_db t)) (db_instances (tx_db t1))"
    and "later nc_last_observed_at (db_nodes (tx_db t)) (db_nodes (tx_db t1))"
proof -
  obtain t0 where t0: "ingestInstance env cid T mid i t = Inr t0"
    and same: "db_instances (tx_db t1) = db_instances (tx_db t0)" "db_nodes (tx_db t1) = db_nodes (tx_db t0)"
    using assms(1) by (rule report_instance_Inr)
  from t0 obtain t2 t3 where t2: "upsertInstance env cid T mid i t = Inr t2"
    and t3: "(case si_node i of None \<Rightarrow> Inr t2 | Some node \<Rightarrow> upsertNode env cid T i node t2) = Inr t3"
    and inst: "db_instances (tx_db t0) = db_instances (tx_db t2)" and node: "db_nodes (tx_db t0) = db_nodes (tx_db t3)"
      "db_nodes (tx_db t2) = db_nodes (tx_db t)"
    by (rule ingestInstance_Inr)
  show "later ic_last_observed_at (db_instances (tx_db t)) (db_instances (tx_db t1))"
    using t2 by (rule upsertInstance_Inr) (simp add: same inst, erule instance_later)
  show "later nc_last_observed_at (db_nodes (tx_db t)) (db_nodes (tx_db t1))"
  proof (cases "si_node i")
    case (Some nd)
    with t3 have "upsertNode env cid T i nd t2 = Inr t3" by simp
    then show ?thesis by (rule upsertNode_Inr) (simp add: same node, erule node_later)
  qed (use t3 same node in auto)
qed

lemma ingest_machine_later:
  assumes "ingest_machine env cid T m t = Inr t1"
  shows "later mc_last_observed_at (db_machines (tx_db t)) (db_machines (tx_db t1))"
    and "later ic_last_observed_at (db_instances (tx_db t)) (db_instances (tx_db t1))"
    and "later nc_last_observed_at (db_nodes (tx_db t)) (db_nodes (tx_db t1))"
proof -
  from assms obtain t2 t3 t4 where t2: "upsertMachine env cid T m t = Inr t2"
    and machines: "db_machines (tx_db t1) = db_machines (tx_db t2)"
    and loop: "each (report_instance env cid T (machine_of m)) (sm_instances m) t3 = Inr t4"
    and before: "db_instances (tx_db t3) = db_instances (tx_db t)" "db_nodes (tx_db t3) = db_nodes (tx_db t)"
    and nodes: "db_nodes (tx_db t1) = db_nodes (tx_db t4)"
    and instances: "db_instances (tx_db t1) = (if hasOperationError (sm_errors m) ''list_network_instances'' then db_instances (tx_db t4)
      else RBT.map (\<lambda>iid r. if ic_machine_id r = machine_of m \<and> ic_active r \<and>
          iid \<notin> set (map si_instance_id (sm_instances m)) \<and> ic_last_collection_completed_at r < T
        then retire_instance (pg_now env) cid T r else r) (db_instances (tx_db t4)))"
    by (rule ingest_machine_Inr)
  show "later mc_last_observed_at (db_machines (tx_db t)) (db_machines (tx_db t1))"
    using t2 by (rule upsertMachine_Inr) (simp add: machines, erule machine_later)
  have "later ic_last_observed_at (db_instances (tx_db t3)) (db_instances (tx_db t4))"
    using loop by (rule each_related) (rule later_refl, erule (1) later_trans, rule report_instance_later(1))
  moreover have "later nc_last_observed_at (db_nodes (tx_db t3)) (db_nodes (tx_db t4))"
    using loop by (rule each_related) (rule later_refl, erule (1) later_trans, rule report_instance_later(2))
  moreover have "later ic_last_observed_at (db_instances (tx_db t4)) (db_instances (tx_db t1))"
    unfolding instances by (simp add: later_map retire_instance_def)
  ultimately show "later ic_last_observed_at (db_instances (tx_db t)) (db_instances (tx_db t1))"
    and "later nc_last_observed_at (db_nodes (tx_db t)) (db_nodes (tx_db t1))"
    unfolding nodes before by (blast intro: later_trans)+
qed

definition no_earlier :: "database \<Rightarrow> database \<Rightarrow> bool" where
  "no_earlier db db1 \<longleftrightarrow>
     later mc_last_observed_at (db_machines db) (db_machines db1) \<and>
     later ic_last_observed_at (db_instances db) (db_instances db1) \<and>
     later nc_last_observed_at (db_nodes db) (db_nodes db1)"

lemma no_earlier_refl [simp]: "no_earlier db db"
  by (simp add: no_earlier_def)

lemma no_earlier_trans: "no_earlier db db1 \<Longrightarrow> no_earlier db1 db2 \<Longrightarrow> no_earlier db db2"
  unfolding no_earlier_def by (meson later_trans)

lemma Ingest_no_earlier: "no_earlier db (fst (Ingest env s db))"
proof (cases "fst (Ingest env s db) = db")
  case False
  obtain db1 result where ingest: "Ingest env s db = (db1, result)" by fastforce
  with False have "result = Inr True \<or> db1 \<noteq> db" by simp
  from ingest this show ?thesis
  proof (rule Ingest_changes, goal_cases)
    case (1 t2 t3)
    have "no_earlier (tx_db t2) (tx_db t3)"
      using 1(3) by (rule each_related [where R = "\<lambda>t t1. no_earlier (tx_db t) (tx_db t1)"])
        (rule no_earlier_refl, erule (1) no_earlier_trans, simp add: no_earlier_def ingest_machine_later)
    moreover have "no_earlier (tx_db t3) db1"
      unfolding no_earlier_def 1(8) 1(10) 1(11) mark_machines_def mark_instances_def
      by (simp add: later_map retire_machine_def retire_instance_def)
    ultimately have "no_earlier (tx_db t2) db1" by (rule no_earlier_trans)
    then show ?thesis using 1(4-7) by (simp add: ingest no_earlier_def)
  qed
qed simp

lemma store_exec_no_earlier: "no_earlier db (store_exec e db)"
  by (cases e) (simp_all add: Ingest_no_earlier, simp_all add: no_earlier_def retained_def)

text \<open>
  C20. No observation is taken back. Whatever collections arrive, in whatever order and however
  their ingestions end, a machine, an instance and a node that have a row keep one, and the time
  of its last observation never decreases.
\<close>

theorem observations_never_regress:
  "(case RBT.lookup (db_machines db) mid of None \<Rightarrow> True
    | Some r \<Rightarrow> \<exists>r1. RBT.lookup (db_machines (run_events store_exec history db)) mid = Some r1 \<and> mc_last_observed_at r \<le> mc_last_observed_at r1) \<and>
   (case RBT.lookup (db_instances db) iid of None \<Rightarrow> True
    | Some r \<Rightarrow> \<exists>r1. RBT.lookup (db_instances (run_events store_exec history db)) iid = Some r1 \<and> ic_last_observed_at r \<le> ic_last_observed_at r1) \<and>
   (case RBT.lookup (db_nodes db) iid of None \<Rightarrow> True
    | Some r \<Rightarrow> \<exists>r1. RBT.lookup (db_nodes (run_events store_exec history db)) iid = Some r1 \<and> nc_last_observed_at r \<le> nc_last_observed_at r1)"
proof -
  have "no_earlier db (run_events store_exec history db)"
  proof (induction history arbitrary: db)
    case (Cons e history)
    from no_earlier_trans [OF store_exec_no_earlier [of db e] Cons.IH [of "store_exec e db"]] show ?case by simp
  qed simp
  then show ?thesis by (auto simp: no_earlier_def later_def split: option.splits)
qed

section \<open>A later collection\<close>

text \<open>The instances of a snapshot, with the machine that reports them.\<close>

abbreviation (input) machine_reports :: "snapshot_machine \<Rightarrow> (uuid \<times> snapshot_instance) list" where
  "machine_reports m \<equiv> map (Pair (machine_of m)) (sm_instances m)"

definition reports :: "snapshot_machine list \<Rightarrow> (uuid \<times> snapshot_instance) list" where
  "reports ms = concat (map machine_reports ms)"

abbreviation (input) report_id :: "uuid \<times> snapshot_instance \<Rightarrow> uuid" where
  "report_id \<equiv> \<lambda>x. si_instance_id (snd x)"

text \<open>
  The snapshot reports every identifier once, and it is later than what the database holds: each
  machine and instance was observed after its row, and the collection completed after all others.
\<close>

definition supersedes :: "snapshot \<Rightarrow> database \<Rightarrow> bool" where
  "supersedes s db \<longleftrightarrow>
     distinct (map machine_of (sn_machines s)) \<and> distinct (map report_id (reports (sn_machines s))) \<and>
     list_all (\<lambda>m. case RBT.lookup (db_machines db) (machine_of m) of None \<Rightarrow> True
       | Some r \<Rightarrow> mc_last_observed_at r < millis (sm_observed_at_ms m)) (sn_machines s) \<and>
     list_all (\<lambda>(mid, i). distinct (map sp_peer_id (si_peers i)) \<and>
       (case RBT.lookup (db_instances db) (si_instance_id i) of None \<Rightarrow> True
        | Some r \<Rightarrow> ic_last_observed_at r < millis (si_observed_at_ms i)) \<and>
       (case RBT.lookup (db_nodes db) (si_instance_id i) of None \<Rightarrow> True
        | Some r \<Rightarrow> nc_last_observed_at r < millis (si_observed_at_ms i)) \<and>
       table_all (\<lambda>k r. fst k = si_instance_id i \<longrightarrow> lc_last_observed_at r < millis (si_observed_at_ms i)) (db_links db))
       (reports (sn_machines s)) \<and>
     table_all (\<lambda>mid r. mc_last_collection_completed_at r < millis (sn_completed_at_ms s)) (db_machines db) \<and>
     table_all (\<lambda>iid r. ic_last_collection_completed_at r < millis (sn_completed_at_ms s)) (db_instances db)"

text \<open>
  What one element of a loop does to its own part of the state, when the other elements leave that
  part alone.
\<close>

lemma each_other:
  assumes "each f xs s = Inr s1" and "\<And>x s s1. x \<in> set xs \<Longrightarrow> f x s = Inr s1 \<Longrightarrow> g s1 = g s"
  shows "g s1 = g s"
  using assms(1) by (rule each_induct [where I = "\<lambda>ys u. g u = g s"]) (auto dest: assms(2) [rotated])

lemma each_own:
  assumes "each f (ys @ x # zs) s = Inr s1"
    and "\<And>y s s1. y \<in> set ys \<union> set zs \<Longrightarrow> f y s = Inr s1 \<Longrightarrow> g s1 = g s"
  shows "\<exists>u u1. g u = g s \<and> f x u = Inr u1 \<and> g s1 = g u1"
proof -
  have append: "each f (as @ bs) s = and_then (each f as s) (each f bs)" for as bs s
    by (induction as arbitrary: s) (simp_all, metis and_then.simps(1) and_then.simps(2) sum.exhaust_sel)
  obtain u u1 where u: "each f ys s = Inr u" and x: "f x u = Inr u1" and s1: "each f zs u1 = Inr s1"
    using assms(1) by (auto simp: append and_then_eq_Inr)
  have "g u = g s" using u by (rule each_other) (rule assms(2), simp_all)
  moreover have "g s1 = g u1" using s1 by (rule each_other) (rule assms(2), simp_all)
  ultimately show ?thesis using x by blast
qed

lemma ingest_machine_row:
  assumes "ingest_machine env cid T m t = Inr t1"
    and "\<And>r. RBT.lookup (db_machines (tx_db t)) (machine_of m) = Some r \<Longrightarrow> mc_last_observed_at r < millis (sm_observed_at_ms m)"
  shows "RBT.lookup (db_machines (tx_db t1)) (machine_of m) = Some (session_row (pg_now env) cid T m)"
proof -
  from assms(1) obtain t2 where t2: "upsertMachine env cid T m t = Inr t2" and same: "db_machines (tx_db t1) = db_machines (tx_db t2)"
    by (rule ingest_machine_Inr)
  from t2 show ?thesis
  proof (rule upsertMachine_Inr)
    fix tab
    assume up: "upsert machine_stamp (\<lambda>old new. new) (has_key (db_runs (tx_db t)) cid) (machine_of m)
        (session_row (pg_now env) cid T m) (db_machines (tx_db t)) = Inr tab" and t2: "tx_db t2 = (tx_db t)\<lparr>db_machines := tab\<rparr>"
    have "RBT.lookup tab (machine_of m) = Some (session_row (pg_now env) cid T m)"
      using machine_table.upsert_newer [OF up] assms(2)
      by (auto simp: machine_stamp_def session_row_def Let_def less_prod_def split: option.splits)
    then show ?thesis by (simp add: same t2)
  qed
qed

text \<open>The row of an instance right after its report.\<close>

lemma report_instance_row:
  assumes "report_instance env cid T mid i t = Inr t1"
    and "\<And>r. RBT.lookup (db_instances (tx_db t)) (si_instance_id i) = Some r \<Longrightarrow> ic_last_observed_at r < millis (si_observed_at_ms i)"
  shows "RBT.lookup (db_instances (tx_db t1)) (si_instance_id i) = Some (instance_row (pg_now env) cid T mid i)"
proof -
  obtain t0 where t0: "ingestInstance env cid T mid i t = Inr t0" and same: "db_instances (tx_db t1) = db_instances (tx_db t0)"
    using assms(1) by (rule report_instance_Inr)
  from t0 obtain t2 where t2: "upsertInstance env cid T mid i t = Inr t2" and inst: "db_instances (tx_db t0) = db_instances (tx_db t2)"
    by (rule ingestInstance_Inr)
  from t2 show ?thesis
  proof (rule upsertInstance_Inr)
    fix tab
    assume up: "upsert instance_stamp (\<lambda>old new. new) (has_key (db_machines (tx_db t)) mid \<and> has_key (db_runs (tx_db t)) cid)
        (si_instance_id i) (instance_row (pg_now env) cid T mid i) (db_instances (tx_db t)) = Inr tab"
      and t2: "tx_db t2 = (tx_db t)\<lparr>db_instances := tab\<rparr>"
    have "RBT.lookup tab (si_instance_id i) = Some (instance_row (pg_now env) cid T mid i)"
      using instance_table.upsert_newer [OF up] assms(2)
      by (auto simp: instance_stamp_def instance_row_def less_prod_def split: option.splits)
    then show ?thesis by (simp add: same inst t2)
  qed
qed

text \<open>
  The table of instances while the machines are processed: a reported instance has the row of its
  report, any other one the row it had before, perhaps retired.
\<close>

definition stale_of :: "instance_rec \<Rightarrow> instance_rec \<Rightarrow> bool" where
  "stale_of r0 r \<longleftrightarrow>
     ic_machine_id r = ic_machine_id r0 \<and> ic_last_observed_at r = ic_last_observed_at r0 \<and> (ic_active r \<longrightarrow> r = r0)"

definition instances_after ::
  "pg \<Rightarrow> uuid \<Rightarrow> int \<Rightarrow> (uuid \<times> snapshot_instance) list \<Rightarrow> (uuid, instance_rec) RBT.rbt \<Rightarrow> (uuid, instance_rec) RBT.rbt \<Rightarrow> bool" where
  "instances_after env cid T ds tab0 tab \<longleftrightarrow>
     (\<forall>(mid, i) \<in> set ds. RBT.lookup tab (si_instance_id i) = Some (instance_row (pg_now env) cid T mid i)) \<and>
     (\<forall>iid. iid \<notin> report_id ` set ds \<longrightarrow> rel_option stale_of (RBT.lookup tab0 iid) (RBT.lookup tab iid))"

lemma stale_of_refl: "stale_of r r"
  by (simp add: stale_of_def)

lemma instances_after_start: "instances_after env cid T [] tab tab"
  by (simp add: instances_after_def option.rel_refl stale_of_refl)

lemma instances_after_reported:
  "instances_after env cid T ds tab0 tab \<Longrightarrow> x \<in> set ds \<Longrightarrow>
     RBT.lookup tab (report_id x) = Some (instance_row (pg_now env) cid T (fst x) (snd x))"
  by (auto simp: instances_after_def)

lemma instances_after_stale:
  "instances_after env cid T ds tab0 tab \<Longrightarrow> iid \<notin> report_id ` set ds \<Longrightarrow>
     rel_option stale_of (RBT.lookup tab0 iid) (RBT.lookup tab iid)"
  by (simp add: instances_after_def)

lemma instances_after_report:
  assumes "instances_after env cid T ds tab0 (db_instances (tx_db t))" and "report_instance env cid T mid i t = Inr t1"
    and "si_instance_id i \<notin> report_id ` set ds"
    and "\<And>r. RBT.lookup tab0 (si_instance_id i) = Some r \<Longrightarrow> ic_last_observed_at r < millis (si_observed_at_ms i)"
  shows "instances_after env cid T (ds @ [(mid, i)]) tab0 (db_instances (tx_db t1))"
proof -
  have "ic_last_observed_at r < millis (si_observed_at_ms i)" if "RBT.lookup (db_instances (tx_db t)) (si_instance_id i) = Some r" for r
  proof -
    have "rel_option stale_of (RBT.lookup tab0 (si_instance_id i)) (Some r)"
      using instances_after_stale [OF assms(1,3)] that by simp
    then show ?thesis using assms(4) by (cases "RBT.lookup tab0 (si_instance_id i)") (auto simp: stale_of_def)
  qed
  note row = report_instance_row [OF assms(2) this] and other = report_instance_other(1) [OF assms(2)]
  show ?thesis
    unfolding instances_after_def
  proof (intro conjI allI impI ballI)
    fix x
    assume x: "x \<in> set (ds @ [(mid, i)])"
    show "case x of (mid, i) \<Rightarrow> RBT.lookup (db_instances (tx_db t1)) (si_instance_id i) = Some (instance_row (pg_now env) cid T mid i)"
    proof (cases "x \<in> set ds")
      case True
      with assms(3) have "si_instance_id i \<noteq> report_id x" by (metis image_eqI)
      from other [OF this] instances_after_reported [OF assms(1) True]
      show ?thesis by (simp add: case_prod_unfold)
    qed (use x row in auto)
  next
    fix iid
    assume "iid \<notin> report_id ` set (ds @ [(mid, i)])"
    then have "si_instance_id i \<noteq> iid" and "iid \<notin> report_id ` set ds" by auto
    with other [OF this(1)] assms(1) show "rel_option stale_of (RBT.lookup tab0 iid) (RBT.lookup (db_instances (tx_db t1)) iid)"
      by (simp add: instances_after_def)
  qed
qed

lemma instances_after_retire:
  assumes "instances_after env cid T ds tab0 tab" and "\<And>iid r. P iid r \<Longrightarrow> ic_last_collection_completed_at r < T"
  shows "instances_after env cid T ds tab0 (RBT.map (\<lambda>iid r. if P iid r then retire_instance now cid T r else r) tab)"
proof -
  have "\<not> P iid (instance_row (pg_now env) cid T mid i)" for iid mid i
    using assms(2) [of iid "instance_row (pg_now env) cid T mid i"] by (auto simp: instance_row_def)
  moreover have stale: "rel_option stale_of (RBT.lookup tab0 iid)
      (map_option (\<lambda>r. if P iid r then retire_instance now cid T r else r) (RBT.lookup tab iid))"
    if "rel_option stale_of (RBT.lookup tab0 iid) (RBT.lookup tab iid)" for iid
    using that by (cases "RBT.lookup tab0 iid"; cases "RBT.lookup tab iid") (auto simp: stale_of_def retire_instance_def)
  ultimately show ?thesis using assms(1) unfolding instances_after_def by (auto split: prod.splits)
qed

text \<open>An active row belongs to a report, or it is the row from before.\<close>

lemma instances_after_active:
  assumes "instances_after env cid T ds tab0 tab" and "RBT.lookup tab iid = Some r" and "ic_active r"
  shows "(\<exists>(mid, i) \<in> set ds. si_instance_id i = iid \<and> r = instance_row (pg_now env) cid T mid i) \<or>
    iid \<notin> report_id ` set ds \<and> RBT.lookup tab0 iid = Some r"
proof (cases "iid \<in> report_id ` set ds")
  case True
  then obtain x where x: "x \<in> set ds" and "iid = report_id x" by blast
  with instances_after_reported [OF assms(1) x] assms(2) have "r = instance_row (pg_now env) cid T (fst x) (snd x)" by simp
  with x \<open>iid = report_id x\<close> show ?thesis by (intro disjI1 bexI [OF _ x]) (simp add: case_prod_unfold)
next
  case False
  from instances_after_stale [OF assms(1) this] assms(2) have "rel_option stale_of (RBT.lookup tab0 iid) (Some r)" by simp
  with assms(3) False show ?thesis by (cases "RBT.lookup tab0 iid") (auto simp: stale_of_def)
qed

lemma retire_instance_fields [simp]:
  "\<not> ic_active (retire_instance now cid T r)" "ic_machine_id (retire_instance now cid T r) = ic_machine_id r"
  "ic_last_observed_at (retire_instance now cid T r) = ic_last_observed_at r"
  by (simp_all add: retire_instance_def)

lemma retire_instance_changes [simp]: "ic_active r \<Longrightarrow> retire_instance now cid T r \<noteq> r"
  by (metis retire_instance_fields(1))

lemma ingest_machine_instances:
  assumes "ingest_machine env cid T m t = Inr t1" and "instances_after env cid T ds tab0 (db_instances (tx_db t))"
    and "distinct (map report_id (ds @ machine_reports m))"
    and "\<And>i r. i \<in> set (sm_instances m) \<Longrightarrow> RBT.lookup tab0 (si_instance_id i) = Some r \<Longrightarrow>
      ic_last_observed_at r < millis (si_observed_at_ms i)"
  shows "instances_after env cid T (ds @ machine_reports m) tab0 (db_instances (tx_db t1))"
    and "\<not> hasOperationError (sm_errors m) ''list_network_instances'' \<Longrightarrow> RBT.lookup (db_instances (tx_db t1)) iid = Some r \<Longrightarrow>
      ic_machine_id r = machine_of m \<Longrightarrow> ic_active r \<Longrightarrow>
      iid \<in> si_instance_id ` set (sm_instances m) \<or> \<not> ic_last_collection_completed_at r < T"
proof -
  from assms(1) obtain t3 t4 where loop: "each (report_instance env cid T (machine_of m)) (sm_instances m) t3 = Inr t4"
    and before: "db_instances (tx_db t3) = db_instances (tx_db t)"
    and after: "db_instances (tx_db t1) = (if hasOperationError (sm_errors m) ''list_network_instances'' then db_instances (tx_db t4)
      else RBT.map (\<lambda>iid r. if ic_machine_id r = machine_of m \<and> ic_active r \<and>
          iid \<notin> set (map si_instance_id (sm_instances m)) \<and> ic_last_collection_completed_at r < T
        then retire_instance (pg_now env) cid T r else r) (db_instances (tx_db t4)))"
    by (rule ingest_machine_Inr)
  have "instances_after env cid T (ds @ machine_reports m) tab0 (db_instances (tx_db t4))"
    using loop
  proof (rule each_induct [where I = "\<lambda>ys u. instances_after env cid T (ds @ map (Pair (machine_of m)) ys) tab0 (db_instances (tx_db u))"],
      goal_cases)
    case (2 ys i zs u u1)
    have "si_instance_id i \<notin> report_id ` set (ds @ map (Pair (machine_of m)) ys)"
      using assms(3) unfolding 2(1) by auto
    from instances_after_report [OF 2(2,3) this] assms(4) 2(1) show ?case by simp
  qed (use assms(2) before in simp)
  then show "instances_after env cid T (ds @ machine_reports m) tab0 (db_instances (tx_db t1))"
    unfolding after by (auto intro: instances_after_retire)
  show "iid \<in> si_instance_id ` set (sm_instances m) \<or> \<not> ic_last_collection_completed_at r < T"
    if "\<not> hasOperationError (sm_errors m) ''list_network_instances''" "RBT.lookup (db_instances (tx_db t1)) iid = Some r"
      "ic_machine_id r = machine_of m" "ic_active r"
    using that unfolding after by (auto split: if_splits)
qed

lemma reports_snoc: "reports (ms @ [m]) = reports ms @ machine_reports m"
  by (simp add: reports_def)

lemma reports_prefix:
  assumes "distinct (map report_id (reports (ys @ m # zs)))"
  shows "distinct (map report_id (reports ys @ machine_reports m))"
proof -
  have "reports (ys @ m # zs) = (reports ys @ machine_reports m) @ reports zs" by (simp add: reports_def)
  with assms show ?thesis by (simp only: map_append distinct_append)
qed

lemma set_reports: "x \<in> set (reports ms) \<longleftrightarrow> (\<exists>m \<in> set ms. fst x = machine_of m \<and> snd x \<in> set (sm_instances m))"
  by (cases x) (auto simp: reports_def)

lemma machines_loop_instances:
  assumes "each (ingest_machine env cid T) ms t = Inr t1" and "distinct (map report_id (reports ms))"
    and "\<And>mid i r. (mid, i) \<in> set (reports ms) \<Longrightarrow> RBT.lookup (db_instances (tx_db t)) (si_instance_id i) = Some r \<Longrightarrow>
      ic_last_observed_at r < millis (si_observed_at_ms i)"
  shows "instances_after env cid T (reports ms) (db_instances (tx_db t)) (db_instances (tx_db t1))"
  using assms(1)
proof (rule each_induct [where I = "\<lambda>ys u. instances_after env cid T (reports ys) (db_instances (tx_db t)) (db_instances (tx_db u))"],
    goal_cases)
  case 1
  show ?case by (simp add: reports_def instances_after_start)
next
  case (2 ys m zs u u1)
  have "distinct (map report_id (reports ys @ machine_reports m))"
    using assms(2) unfolding 2(1) by (rule reports_prefix)
  moreover have "ic_last_observed_at r < millis (si_observed_at_ms i)"
    if "i \<in> set (sm_instances m)" "RBT.lookup (db_instances (tx_db t)) (si_instance_id i) = Some r" for i r
    using that 2(1) by (intro assms(3) [of "machine_of m" i]) (auto simp: set_reports)
  ultimately show ?case unfolding reports_snoc using ingest_machine_instances(1) [OF 2(3,2)] by blast
qed

text \<open>The instances of a machine that lists them completely.\<close>

definition listed :: "int \<Rightarrow> snapshot_machine \<Rightarrow> (uuid, instance_rec) RBT.rbt \<Rightarrow> bool" where
  "listed T m tab \<longleftrightarrow> table_all (\<lambda>iid r. ic_machine_id r = machine_of m \<longrightarrow> ic_active r \<longrightarrow>
     iid \<in> si_instance_id ` set (sm_instances m) \<or> \<not> ic_last_collection_completed_at r < T) tab"

lemma ingest_machine_listed:
  assumes "ingest_machine env cid T z t = Inr t1" and "machine_of z \<noteq> machine_of m" and "listed T m (db_instances (tx_db t))"
  shows "listed T m (db_instances (tx_db t1))"
proof -
  from assms(1) obtain t3 t4 where loop: "each (report_instance env cid T (machine_of z)) (sm_instances z) t3 = Inr t4"
    and before: "db_instances (tx_db t3) = db_instances (tx_db t)"
    and after: "db_instances (tx_db t1) = (if hasOperationError (sm_errors z) ''list_network_instances'' then db_instances (tx_db t4)
      else RBT.map (\<lambda>iid r. if ic_machine_id r = machine_of z \<and> ic_active r \<and>
          iid \<notin> set (map si_instance_id (sm_instances z)) \<and> ic_last_collection_completed_at r < T
        then retire_instance (pg_now env) cid T r else r) (db_instances (tx_db t4)))"
    by (rule ingest_machine_Inr)
  have "listed T m (db_instances (tx_db t4))"
    using loop
  proof (rule each_induct [where I = "\<lambda>ys u. listed T m (db_instances (tx_db u))"], goal_cases)
    case (2 ys i zs u u1)
    obtain u0 where u0: "ingestInstance env cid T (machine_of z) i u = Inr u0" and same: "db_instances (tx_db u1) = db_instances (tx_db u0)"
      using 2(3) by (rule report_instance_Inr)
    from u0 obtain u2 where u2: "upsertInstance env cid T (machine_of z) i u = Inr u2"
      and inst: "db_instances (tx_db u0) = db_instances (tx_db u2)" by (rule ingestInstance_Inr)
    from u2 show ?case
    proof (rule upsertInstance_Inr)
      fix tab
      assume up: "upsert instance_stamp (\<lambda>old new. new) (has_key (db_machines (tx_db u)) (machine_of z) \<and> has_key (db_runs (tx_db u)) cid)
          (si_instance_id i) (instance_row (pg_now env) cid T (machine_of z) i) (db_instances (tx_db u)) = Inr tab"
        and u2: "tx_db u2 = (tx_db u)\<lparr>db_instances := tab\<rparr>"
      have "listed T m tab"
        unfolding listed_def
        by (rule instance_table.upsert_table_all [OF up 2(2) [unfolded listed_def]]) (use assms(2) in \<open>auto simp: instance_row_def\<close>)
      then show ?case by (simp add: same inst u2)
    qed
  qed (use assms(3) before in simp)
  then show ?thesis
    unfolding after listed_def by (cases "hasOperationError (sm_errors z) ''list_network_instances''") (simp_all, erule table_all_map, simp)
qed

lemma machines_loop_listed:
  assumes "each (ingest_machine env cid T) ms t = Inr t1" and "distinct (map report_id (reports ms))" and "distinct (map machine_of ms)"
    and "\<And>mid i r. (mid, i) \<in> set (reports ms) \<Longrightarrow> RBT.lookup (db_instances (tx_db t)) (si_instance_id i) = Some r \<Longrightarrow>
      ic_last_observed_at r < millis (si_observed_at_ms i)"
    and "m \<in> set ms" and "\<not> hasOperationError (sm_errors m) ''list_network_instances''"
  shows "listed T m (db_instances (tx_db t1))"
proof -
  let ?I = "\<lambda>ys u. instances_after env cid T (reports ys) (db_instances (tx_db t)) (db_instances (tx_db u)) \<and>
      (m \<in> set ys \<longrightarrow> listed T m (db_instances (tx_db u)))"
  have "?I ms t1"
    using assms(1)
  proof (rule each_induct [where I = ?I], goal_cases)
    case 1
    show ?case by (simp add: reports_def instances_after_start)
  next
    case (2 ys x zs u u1)
    have "distinct (map report_id (reports ys @ machine_reports x))"
      using assms(2) unfolding 2(1) by (rule reports_prefix)
    moreover have "ic_last_observed_at r < millis (si_observed_at_ms i)"
      if "i \<in> set (sm_instances x)" "RBT.lookup (db_instances (tx_db t)) (si_instance_id i) = Some r" for i r
      using that 2(1) by (intro assms(4) [of "machine_of x" i]) (auto simp: set_reports)
    ultimately have step: "instances_after env cid T (reports (ys @ [x])) (db_instances (tx_db t)) (db_instances (tx_db u1))"
      and own: "\<And>iid r. \<not> hasOperationError (sm_errors x) ''list_network_instances'' \<Longrightarrow>
        RBT.lookup (db_instances (tx_db u1)) iid = Some r \<Longrightarrow> ic_machine_id r = machine_of x \<Longrightarrow> ic_active r \<Longrightarrow>
        iid \<in> si_instance_id ` set (sm_instances x) \<or> \<not> ic_last_collection_completed_at r < T"
      using ingest_machine_instances [OF 2(3) conjunct1 [OF 2(2)]] unfolding reports_snoc by blast+
    show ?case
    proof (cases "x = m")
      case True
      with step own assms(6) show ?thesis by (auto simp: listed_def intro!: table_allI)
    next
      case False
      have "machine_of x \<noteq> machine_of m" if "m \<in> set ys"
        using that assms(3) unfolding 2(1) by (auto simp: image_iff)
      with step False 2(2) ingest_machine_listed [OF 2(3)] show ?thesis by auto
    qed
  qed
  with assms(5) show ?thesis by blast
qed

text \<open>The node and the links of an instance right after its report.\<close>

lemma report_instance_node:
  assumes "report_instance env cid T mid i t = Inr t1" and "si_node i = Some nd"
    and "\<And>r. RBT.lookup (db_nodes (tx_db t)) (si_instance_id i) = Some r \<Longrightarrow> nc_last_observed_at r < millis (si_observed_at_ms i)"
  shows "\<exists>cidrs listeners. nd_proxy_cidrs nd = Some cidrs \<and> nd_listeners nd = Some listeners \<and>
    RBT.lookup (db_nodes (tx_db t1)) (si_instance_id i) = Some (node_row (pg_now env) cid T i nd cidrs listeners)"
proof -
  obtain t0 where t0: "ingestInstance env cid T mid i t = Inr t0" and same: "db_nodes (tx_db t1) = db_nodes (tx_db t0)"
    using assms(1) by (rule report_instance_Inr)
  from t0 obtain t2 t3 where t3: "(case si_node i of None \<Rightarrow> Inr t2 | Some node \<Rightarrow> upsertNode env cid T i node t2) = Inr t3"
    and node: "db_nodes (tx_db t0) = db_nodes (tx_db t3)" "db_nodes (tx_db t2) = db_nodes (tx_db t)"
    by (rule ingestInstance_Inr)
  from t3 have "upsertNode env cid T i nd t2 = Inr t3" by (simp add: assms(2))
  then show ?thesis
  proof (rule upsertNode_Inr)
    fix tab cidrs listeners
    assume lists: "nd_proxy_cidrs nd = Some cidrs" "nd_listeners nd = Some listeners"
      and up: "upsert node_stamp (\<lambda>old new. new) (has_key (db_instances (tx_db t2)) (si_instance_id i) \<and> has_key (db_runs (tx_db t2)) cid)
        (si_instance_id i) (node_row (pg_now env) cid T i nd cidrs listeners) (db_nodes (tx_db t2)) = Inr tab"
      and t3: "tx_db t3 = (tx_db t2)\<lparr>db_nodes := tab\<rparr>"
    have "RBT.lookup tab (si_instance_id i) = Some (node_row (pg_now env) cid T i nd cidrs listeners)"
      using node_table.upsert_newer [OF up] assms(3)
      by (auto simp: node_stamp_def node_row_def less_prod_def node split: option.splits)
    with lists show ?thesis by (simp add: same node t3)
  qed
qed

abbreviation (input) details :: "snapshot_instance \<Rightarrow> bool" where
  "details i \<equiv> \<not> hasOperationError (si_errors i) ''list_peers''"

text \<open>The row of a reported link: without the details it keeps what was measured before.\<close>

definition link_row :: "pg \<Rightarrow> uuid \<Rightarrow> int \<Rightarrow> snapshot_instance \<Rightarrow> snapshot_peer \<Rightarrow> link_rec option \<Rightarrow> link_rec" where
  "link_row env cid T i p old =
     (case old of
        None \<Rightarrow> peer_row (pg_now env) cid T i p
      | Some r \<Rightarrow> merge_link (details i) r (peer_row (pg_now env) cid T i p))"

lemma upsertPeer_row:
  assumes "upsertPeer env cid T i d p t = Inr t1"
    and "\<And>r. RBT.lookup (db_links (tx_db t)) (si_instance_id i, uint (sp_peer_id p)) = Some r \<Longrightarrow>
      lc_last_observed_at r < millis (si_observed_at_ms i)"
  shows "RBT.lookup (db_links (tx_db t1)) (si_instance_id i, uint (sp_peer_id p)) =
    Some (case RBT.lookup (db_links (tx_db t)) (si_instance_id i, uint (sp_peer_id p)) of
      None \<Rightarrow> peer_row (pg_now env) cid T i p | Some r \<Rightarrow> merge_link d r (peer_row (pg_now env) cid T i p))"
  using assms(1)
proof (rule upsertPeer_Inr)
  fix tab
  assume up: "upsert link_stamp (merge_link d) (has_key (db_instances (tx_db t)) (si_instance_id i) \<and> has_key (db_runs (tx_db t)) cid)
      (si_instance_id i, uint (sp_peer_id p)) (peer_row (pg_now env) cid T i p) (db_links (tx_db t)) = Inr tab"
    and t1: "tx_db t1 = (tx_db t)\<lparr>db_links := tab\<rparr>"
  show ?thesis
    using link_table.upsert_newer [OF up] assms(2) by (simp add: t1 link_stamp_def peer_row_def less_prod_def)
qed

lemma upsertPeer_other:
  assumes "upsertPeer env cid T i d p t = Inr t1" and "k \<noteq> (si_instance_id i, uint (sp_peer_id p))"
  shows "RBT.lookup (db_links (tx_db t1)) k = RBT.lookup (db_links (tx_db t)) k"
  using assms(1) by (rule upsertPeer_Inr) (use assms(2) in \<open>auto simp: link_table.upsert_other\<close>)

lemma peers_loop:
  assumes "each (upsertPeer env cid T i d) (si_peers i) t = Inr t1" and "distinct (map sp_peer_id (si_peers i))"
    and "\<And>pid r. RBT.lookup (db_links (tx_db t)) (si_instance_id i, pid) = Some r \<Longrightarrow> lc_last_observed_at r < millis (si_observed_at_ms i)"
  shows "p \<in> set (si_peers i) \<Longrightarrow> RBT.lookup (db_links (tx_db t1)) (si_instance_id i, uint (sp_peer_id p)) =
      Some (case RBT.lookup (db_links (tx_db t)) (si_instance_id i, uint (sp_peer_id p)) of
        None \<Rightarrow> peer_row (pg_now env) cid T i p | Some r \<Rightarrow> merge_link d r (peer_row (pg_now env) cid T i p))"
    and "pid \<notin> (\<lambda>p. uint (sp_peer_id p)) ` set (si_peers i) \<Longrightarrow>
      RBT.lookup (db_links (tx_db t1)) (si_instance_id i, pid) = RBT.lookup (db_links (tx_db t)) (si_instance_id i, pid)"
proof -
  show "RBT.lookup (db_links (tx_db t1)) (si_instance_id i, pid) = RBT.lookup (db_links (tx_db t)) (si_instance_id i, pid)"
    if "pid \<notin> (\<lambda>p. uint (sp_peer_id p)) ` set (si_peers i)"
    using assms(1) by (rule each_other) (use that in \<open>auto intro!: upsertPeer_other\<close>)
  assume "p \<in> set (si_peers i)"
  then obtain ys zs where split: "si_peers i = ys @ p # zs" by (meson split_list)
  let ?g = "\<lambda>u. RBT.lookup (db_links (tx_db u)) (si_instance_id i, uint (sp_peer_id p))"
  have other: "?g u1 = ?g u" if "y \<in> set ys \<union> set zs" "upsertPeer env cid T i d y u = Inr u1" for y u u1
    using that(1) assms(2) by (intro upsertPeer_other [OF that(2)]) (auto simp: split simp flip: word_uint_eq_iff)
  have "\<exists>u u1. ?g u = ?g t \<and> upsertPeer env cid T i d p u = Inr u1 \<and> ?g t1 = ?g u1"
    using assms(1) unfolding split by (rule each_own) (rule other)
  then obtain u u1 where u: "?g u = ?g t" and p: "upsertPeer env cid T i d p u = Inr u1" and u1: "?g t1 = ?g u1" by blast
  have "lc_last_observed_at r < millis (si_observed_at_ms i)" if "?g u = Some r" for r using that u assms(3) by simp
  from upsertPeer_row [OF p this] show "?g t1 = Some (case ?g t of None \<Rightarrow> peer_row (pg_now env) cid T i p
      | Some r \<Rightarrow> merge_link d r (peer_row (pg_now env) cid T i p))"
    unfolding u1 u by simp
qed

lemma report_instance_links:
  assumes "report_instance env cid T mid i t = Inr t1" and "distinct (map sp_peer_id (si_peers i))"
    and "\<And>pid r. RBT.lookup (db_links (tx_db t)) (si_instance_id i, pid) = Some r \<Longrightarrow> lc_last_observed_at r < millis (si_observed_at_ms i)"
  shows "p \<in> set (si_peers i) \<Longrightarrow> RBT.lookup (db_links (tx_db t1)) (si_instance_id i, uint (sp_peer_id p)) =
      Some (link_row env cid T i p (RBT.lookup (db_links (tx_db t)) (si_instance_id i, uint (sp_peer_id p))))"
    and "\<not> hasOperationError (si_errors i) ''list_routes'' \<Longrightarrow> has_key (db_links (tx_db t1)) (si_instance_id i, pid) \<Longrightarrow>
      pid \<in> (\<lambda>p. uint (sp_peer_id p)) ` set (si_peers i)"
proof -
  obtain t0 where t0: "ingestInstance env cid T mid i t = Inr t0" and same: "db_links (tx_db t1) = db_links (tx_db t0)"
    using assms(1) by (rule report_instance_Inr)
  from t0 obtain t3 t4 where t4: "each (upsertPeer env cid T i (details i)) (si_peers i) t3 = Inr t4"
    and link: "db_links (tx_db t3) = db_links (tx_db t)"
    and stale: "db_links (tx_db t0) = (if hasOperationError (si_errors i) ''list_routes'' then db_links (tx_db t4)
      else RBT.filter (\<lambda>(src, pid) r. \<not> (src = si_instance_id i \<and> link_stamp r < (millis (si_observed_at_ms i), T) \<and>
        pid \<notin> set (map (\<lambda>p. uint (sp_peer_id p)) (si_peers i)))) (db_links (tx_db t4)))"
    by (rule ingestInstance_Inr)
  have fresh: "lc_last_observed_at r < millis (si_observed_at_ms i)"
    if "RBT.lookup (db_links (tx_db t3)) (si_instance_id i, pid) = Some r" for pid r
    using that assms(3) by (simp add: link)
  have loop1: "RBT.lookup (db_links (tx_db t4)) (si_instance_id i, uint (sp_peer_id p)) =
      Some (link_row env cid T i p (RBT.lookup (db_links (tx_db t)) (si_instance_id i, uint (sp_peer_id p))))"
    if "p \<in> set (si_peers i)" for p
    unfolding link_row_def link [symmetric] by (rule peers_loop(1) [OF t4 assms(2) _ that]) (rule fresh)
  have loop2: "RBT.lookup (db_links (tx_db t4)) (si_instance_id i, pid) = RBT.lookup (db_links (tx_db t)) (si_instance_id i, pid)"
    if "pid \<notin> (\<lambda>p. uint (sp_peer_id p)) ` set (si_peers i)" for pid
    unfolding link [symmetric] by (rule peers_loop(2) [OF t4 assms(2) _ that]) (rule fresh)
  show "RBT.lookup (db_links (tx_db t1)) (si_instance_id i, uint (sp_peer_id p)) =
      Some (link_row env cid T i p (RBT.lookup (db_links (tx_db t)) (si_instance_id i, uint (sp_peer_id p))))"
    if "p \<in> set (si_peers i)"
    using loop1 [OF that] that by (simp add: same stale RBT.lookup_filter)
  show "pid \<in> (\<lambda>p. uint (sp_peer_id p)) ` set (si_peers i)"
    if routes: "\<not> hasOperationError (si_errors i) ''list_routes''" and here: "has_key (db_links (tx_db t1)) (si_instance_id i, pid)"
  proof (rule ccontr)
    assume pid: "pid \<notin> (\<lambda>p. uint (sp_peer_id p)) ` set (si_peers i)"
    obtain r where r: "RBT.lookup (db_links (tx_db t4)) (si_instance_id i, pid) = Some r"
      and kept: "\<not> link_stamp r < (millis (si_observed_at_ms i), T)"
      using here pid routes unfolding same stale has_key_def by (auto simp: RBT.lookup_filter split: option.splits if_splits)
    from r loop2 [OF pid] have "lc_last_observed_at r < millis (si_observed_at_ms i)" by (auto intro: assms(3))
    with kept show False by (simp add: link_stamp_def less_prod_def)
  qed
qed

text \<open>What an instance has in the tables of nodes and links is written by its report alone.\<close>

definition slice :: "uuid \<Rightarrow> tx \<Rightarrow> node_rec option \<times> (int \<Rightarrow> link_rec option)" where
  "slice iid t = (RBT.lookup (db_nodes (tx_db t)) iid, \<lambda>pid. RBT.lookup (db_links (tx_db t)) (iid, pid))"

lemma report_instance_slice:
  "report_instance env cid T mid i t = Inr t1 \<Longrightarrow> si_instance_id i \<noteq> iid \<Longrightarrow> slice iid t1 = slice iid t"
  by (simp add: slice_def report_instance_other)

lemma ingest_machine_slice:
  assumes "ingest_machine env cid T m t = Inr t1"
  obtains t3 t4 where "each (report_instance env cid T (machine_of m)) (sm_instances m) t3 = Inr t4"
    and "slice iid t3 = slice iid t" and "slice iid t1 = slice iid t4"
  using assms by (rule ingest_machine_Inr) (auto simp: slice_def intro: that)

lemma ingest_machine_slice_other:
  assumes "ingest_machine env cid T m t = Inr t1" and "iid \<notin> si_instance_id ` set (sm_instances m)"
  shows "slice iid t1 = slice iid t"
proof -
  obtain t3 t4 where loop: "each (report_instance env cid T (machine_of m)) (sm_instances m) t3 = Inr t4"
    and ends: "slice iid t3 = slice iid t" "slice iid t1 = slice iid t4"
    using assms(1) by (rule ingest_machine_slice)
  have "slice iid t4 = slice iid t3"
    using loop by (rule each_other) (use assms(2) in \<open>auto intro: report_instance_slice\<close>)
  with ends show ?thesis by simp
qed

lemma machines_loop_slice:
  assumes "each (ingest_machine env cid T) ms t = Inr t1" and "distinct (map report_id (reports ms))" and "(mid, i) \<in> set (reports ms)"
  shows "\<exists>u u1. slice (si_instance_id i) u = slice (si_instance_id i) t \<and> report_instance env cid T mid i u = Inr u1 \<and>
    slice (si_instance_id i) t1 = slice (si_instance_id i) u1"
proof -
  let ?g = "slice (si_instance_id i)"
  obtain m where m: "m \<in> set ms" and mid: "mid = machine_of m" and i: "i \<in> set (sm_instances m)"
    using assms(3) by (auto simp: set_reports)
  obtain ys zs where ms: "ms = ys @ m # zs" using m by (meson split_list)
  obtain as bs where ins: "sm_instances m = as @ i # bs" using i by (meson split_list)
  have split: "reports ms = (reports ys @ map (Pair mid) as) @ (mid, i) # (map (Pair mid) bs @ reports zs)"
    by (simp add: reports_def ms ins mid)
  have fresh: "si_instance_id i \<notin> report_id ` set (reports ys @ map (Pair mid) as)" "si_instance_id i \<notin> report_id ` set (map (Pair mid) bs @ reports zs)"
    using assms(2) unfolding split map_append list.map distinct_append distinct.simps by auto
  have "si_instance_id i \<notin> si_instance_id ` set (sm_instances y)" if "y \<in> set ys \<union> set zs" for y
  proof
    assume "si_instance_id i \<in> si_instance_id ` set (sm_instances y)"
    then obtain j where "j \<in> set (sm_instances y)" and j: "si_instance_id i = report_id (machine_of y, j)" by auto
    with that have "(machine_of y, j) \<in> set (reports ys) \<union> set (reports zs)" by (auto simp: set_reports)
    with fresh j show False by (metis Un_iff image_eqI set_append)
  qed
  then have "\<exists>v v1. ?g v = ?g t \<and> ingest_machine env cid T m v = Inr v1 \<and> ?g t1 = ?g v1"
    using assms(1) unfolding ms by (intro each_own [where g = ?g]) (auto intro: ingest_machine_slice_other)
  then obtain v v1 where v: "?g v = ?g t" and step: "ingest_machine env cid T m v = Inr v1" and v1: "?g t1 = ?g v1" by blast
  obtain t3 t4 where loop: "each (report_instance env cid T mid) (sm_instances m) t3 = Inr t4"
    and ends: "?g t3 = ?g v" "?g v1 = ?g t4"
    using step unfolding mid by (rule ingest_machine_slice)
  have "si_instance_id j \<noteq> si_instance_id i" if "j \<in> set as \<union> set bs" for j
    using that fresh by (force simp: image_iff)
  then have "\<exists>u u1. ?g u = ?g t3 \<and> report_instance env cid T mid i u = Inr u1 \<and> ?g t4 = ?g u1"
    using loop unfolding ins by (intro each_own [where g = ?g]) (auto intro: report_instance_slice)
  then show ?thesis using v v1 ends by metis
qed

lemma machines_loop_rows:
  assumes "each (ingest_machine env cid T) ms t = Inr t1" and "distinct (map machine_of ms)" and "m \<in> set ms"
    and "\<And>r. RBT.lookup (db_machines (tx_db t)) (machine_of m) = Some r \<Longrightarrow> mc_last_observed_at r < millis (sm_observed_at_ms m)"
  shows "RBT.lookup (db_machines (tx_db t1)) (machine_of m) = Some (session_row (pg_now env) cid T m)"
proof -
  let ?g = "\<lambda>u. RBT.lookup (db_machines (tx_db u)) (machine_of m)"
  obtain ys zs where ms: "ms = ys @ m # zs" using assms(3) by (meson split_list)
  have other: "?g u1 = ?g u" if y: "y \<in> set ys \<union> set zs" "ingest_machine env cid T y u = Inr u1" for y u u1
  proof -
    have "machine_of y \<noteq> machine_of m" using y(1) assms(2) by (force simp: ms image_iff)
    from upholds_Inr [OF ingest_machine_other [OF this] refl y(2)] show ?thesis .
  qed
  have "\<exists>u u1. ?g u = ?g t \<and> ingest_machine env cid T m u = Inr u1 \<and> ?g t1 = ?g u1"
    using assms(1) unfolding ms by (rule each_own) (rule other)
  then obtain u u1 where u: "?g u = ?g t" and step: "ingest_machine env cid T m u = Inr u1" and u1: "?g t1 = ?g u1" by blast
  have "?g u1 = Some (session_row (pg_now env) cid T m)"
    using step by (rule ingest_machine_row) (use u assms(4) in simp)
  with u1 show ?thesis by simp
qed

lemma machines_loop_untouched:
  assumes "each (ingest_machine env cid T) ms t = Inr t1" and "mid \<notin> machine_of ` set ms"
  shows "RBT.lookup (db_machines (tx_db t1)) mid = RBT.lookup (db_machines (tx_db t)) mid"
  by (rule upholds_Inr [OF upholds_each refl assms(1)]) (use assms(2) in \<open>auto intro: ingest_machine_other\<close>)

text \<open>The contents of \<^term>\<open>supersedes\<close>, ready for the loops.\<close>

lemma supersedesD:
  assumes "supersedes s db"
  shows "distinct (map machine_of (sn_machines s))" and "distinct (map report_id (reports (sn_machines s)))"
    and "m \<in> set (sn_machines s) \<Longrightarrow> RBT.lookup (db_machines db) (machine_of m) = Some r \<Longrightarrow>
      mc_last_observed_at r < millis (sm_observed_at_ms m)"
    and "(mid, i) \<in> set (reports (sn_machines s)) \<Longrightarrow> distinct (map sp_peer_id (si_peers i))"
    and "(mid, i) \<in> set (reports (sn_machines s)) \<Longrightarrow> RBT.lookup (db_instances db) (si_instance_id i) = Some r' \<Longrightarrow>
      ic_last_observed_at r' < millis (si_observed_at_ms i)"
    and "(mid, i) \<in> set (reports (sn_machines s)) \<Longrightarrow> RBT.lookup (db_nodes db) (si_instance_id i) = Some n \<Longrightarrow>
      nc_last_observed_at n < millis (si_observed_at_ms i)"
    and "(mid, i) \<in> set (reports (sn_machines s)) \<Longrightarrow> RBT.lookup (db_links db) (si_instance_id i, pid) = Some l \<Longrightarrow>
      lc_last_observed_at l < millis (si_observed_at_ms i)"
    and "RBT.lookup (db_machines db) mid' = Some r'' \<Longrightarrow> mc_last_collection_completed_at r'' < millis (sn_completed_at_ms s)"
    and "RBT.lookup (db_instances db) iid = Some r' \<Longrightarrow> ic_last_collection_completed_at r' < millis (sn_completed_at_ms s)"
  using assms by (fastforce simp: supersedes_def list_all_iff table_all_def split: option.splits)+

text \<open>The table of instances after the loop and the final marking.\<close>

lemma mark_instances_eq:
  "mark_instances env cid T mids tab = RBT.map (\<lambda>iid r.
     if ic_active r \<and> ic_machine_id r \<notin> set mids \<and> ic_last_collection_completed_at r < T
     then retire_instance (pg_now env) cid T r else r) tab"
  by (simp add: mark_instances_def)

lemma current_instances:
  assumes "Ingest env s db = (db1, Inr True)" and "supersedes s db"
  shows "instances_after env (sn_collection_id s) (millis (sn_completed_at_ms s)) (reports (sn_machines s)) (db_instances db) (db_instances db1)"
    and "m \<in> set (sn_machines s) \<Longrightarrow> \<not> hasOperationError (sm_errors m) ''list_network_instances'' \<Longrightarrow>
      RBT.lookup (db_instances db1) iid = Some r \<Longrightarrow> ic_machine_id r = machine_of m \<Longrightarrow> ic_active r \<Longrightarrow>
      iid \<in> si_instance_id ` set (sm_instances m)"
    and "sn_errors s = [] \<Longrightarrow> RBT.lookup (db_instances db1) iid = Some r \<Longrightarrow> ic_active r \<Longrightarrow>
      ic_machine_id r \<in> machine_of ` set (sn_machines s)"
proof -
  let ?cid = "sn_collection_id s" and ?T = "millis (sn_completed_at_ms s)" and ?ms = "sn_machines s"
  note D = supersedesD [OF assms(2)]
  obtain t2 t3 where loop: "each (ingest_machine env ?cid ?T) ?ms t2 = Inr t3" and before: "db_instances (tx_db t2) = db_instances db"
    and after: "db_instances db1 = (if sn_errors s = [] then mark_instances env ?cid ?T (map machine_of ?ms) (db_instances (tx_db t3))
      else db_instances (tx_db t3))"
    using assms(1) disjI1 [OF refl] by (rule Ingest_changes)
  have mid: "instances_after env ?cid ?T (reports ?ms) (db_instances db) (db_instances (tx_db t3))"
    unfolding before [symmetric] by (rule machines_loop_instances [OF loop D(2)]) (auto simp: before intro: D(5))
  then show final: "instances_after env ?cid ?T (reports ?ms) (db_instances db) (db_instances db1)"
    unfolding after mark_instances_eq by (auto intro: instances_after_retire)
  have active: "RBT.lookup (db_instances (tx_db t3)) iid = Some r" if "RBT.lookup (db_instances db1) iid = Some r" "ic_active r" for iid r
    using that unfolding after mark_instances_eq by (auto split: if_splits)
  have origin: "(\<exists>x \<in> set (reports ?ms). report_id x = iid \<and> ic_machine_id r = fst x) \<or> ic_last_collection_completed_at r < ?T"
    if "RBT.lookup (db_instances db1) iid = Some r" "ic_active r" for iid r
    using instances_after_active [OF final that]
  proof
    assume "\<exists>(mid, i) \<in> set (reports ?ms). si_instance_id i = iid \<and> r = instance_row (pg_now env) ?cid ?T mid i"
    then obtain mid i where "(mid, i) \<in> set (reports ?ms)" "si_instance_id i = iid" "r = instance_row (pg_now env) ?cid ?T mid i" by blast
    then show ?thesis by (intro disjI1 bexI [of _ "(mid, i)"]) (simp_all add: instance_row_def)
  next
    assume "iid \<notin> report_id ` set (reports ?ms) \<and> RBT.lookup (db_instances db) iid = Some r"
    then show ?thesis using D(9) by blast
  qed
  show "iid \<in> si_instance_id ` set (sm_instances m)"
    if m: "m \<in> set ?ms" "\<not> hasOperationError (sm_errors m) ''list_network_instances''"
      and r: "RBT.lookup (db_instances db1) iid = Some r" "ic_machine_id r = machine_of m" "ic_active r"
  proof -
    have "listed ?T m (db_instances (tx_db t3))"
      by (rule machines_loop_listed [OF loop D(2,1) _ m]) (auto simp: before intro: D(5))
    with active [OF r(1,3)] r have or: "iid \<in> si_instance_id ` set (sm_instances m) \<or> \<not> ic_last_collection_completed_at r < ?T"
      by (auto simp: listed_def table_all_def)
    with origin [OF r(1,3)] consider "iid \<in> si_instance_id ` set (sm_instances m)"
      | x where "x \<in> set (reports ?ms)" "report_id x = iid" "ic_machine_id r = fst x" by blast
    then show ?thesis
    proof cases
      case (2 x)
      then obtain m' where m': "m' \<in> set ?ms" "machine_of m' = machine_of m" "snd x \<in> set (sm_instances m')"
        using r(2) by (auto simp: set_reports)
      with D(1) m(1) have "m' = m" by (auto simp: distinct_map inj_on_def)
      with m' 2 show ?thesis by auto
    qed
  qed
  show "ic_machine_id r \<in> machine_of ` set ?ms"
    if s: "sn_errors s = []" and r: "RBT.lookup (db_instances db1) iid = Some r" "ic_active r"
  proof (rule ccontr)
    assume no: "ic_machine_id r \<notin> machine_of ` set ?ms"
    then have "ic_last_collection_completed_at r < ?T"
      using origin [OF r] by (fastforce simp: set_reports)
    with active [OF r] no s r show False unfolding after mark_instances_eq by (auto split: if_splits)
  qed
qed

lemma current_machines:
  assumes "Ingest env s db = (db1, Inr True)" and "supersedes s db"
  shows "m \<in> set (sn_machines s) \<Longrightarrow> RBT.lookup (db_machines db1) (machine_of m) =
      Some (session_row (pg_now env) (sn_collection_id s) (millis (sn_completed_at_ms s)) m)"
    and "sn_errors s = [] \<Longrightarrow> RBT.lookup (db_machines db1) mid = Some r \<Longrightarrow>
      mc_active r \<longleftrightarrow> mid \<in> machine_of ` set (sn_machines s)"
proof -
  let ?cid = "sn_collection_id s" and ?T = "millis (sn_completed_at_ms s)" and ?ms = "sn_machines s"
  note D = supersedesD [OF assms(2)]
  obtain t2 t3 where loop: "each (ingest_machine env ?cid ?T) ?ms t2 = Inr t3" and before: "db_machines (tx_db t2) = db_machines db"
    and after: "db_machines db1 = (if sn_errors s = [] then mark_machines env ?cid ?T (map machine_of ?ms) (db_machines (tx_db t3))
      else db_machines (tx_db t3))"
    using assms(1) disjI1 [OF refl] by (rule Ingest_changes)
  have rows: "RBT.lookup (db_machines (tx_db t3)) (machine_of m) = Some (session_row (pg_now env) ?cid ?T m)" if "m \<in> set ?ms" for m
    by (rule machines_loop_rows [OF loop D(1) that]) (use that in \<open>auto simp: before intro: D(3)\<close>)
  then show "RBT.lookup (db_machines db1) (machine_of m) = Some (session_row (pg_now env) ?cid ?T m)" if "m \<in> set ?ms"
    using that by (simp add: after mark_machines_def)
  show "mc_active r \<longleftrightarrow> mid \<in> machine_of ` set ?ms" if "sn_errors s = []" "RBT.lookup (db_machines db1) mid = Some r"
  proof (cases "mid \<in> machine_of ` set ?ms")
    case True
    then obtain m where "m \<in> set ?ms" "mid = machine_of m" by blast
    with rows [OF this(1)] that show ?thesis by (auto simp: after mark_machines_def session_row_def Let_def split: if_splits)
  next
    case False
    from machines_loop_untouched [OF loop this] have "RBT.lookup (db_machines (tx_db t3)) mid = RBT.lookup (db_machines db) mid"
      by (simp add: before)
    with that obtain r0 where "RBT.lookup (db_machines db) mid = Some r0"
      and "r = (if mc_active r0 \<and> mid \<notin> machine_of ` set ?ms \<and> mc_last_collection_completed_at r0 < ?T
        then retire_machine (pg_now env) ?cid ?T r0 else r0)"
      by (auto simp: after mark_machines_def)
    with False D(8) [OF this(1)] show ?thesis by (simp add: retire_machine_def)
  qed
qed

lemma current_slice:
  assumes "Ingest env s db = (db1, Inr True)" and "supersedes s db" and "(mid, i) \<in> set (reports (sn_machines s))"
  shows "si_node i = Some nd \<Longrightarrow> \<exists>cidrs listeners. nd_proxy_cidrs nd = Some cidrs \<and> nd_listeners nd = Some listeners \<and>
      RBT.lookup (db_nodes db1) (si_instance_id i) =
        Some (node_row (pg_now env) (sn_collection_id s) (millis (sn_completed_at_ms s)) i nd cidrs listeners)"
    and "p \<in> set (si_peers i) \<Longrightarrow> RBT.lookup (db_links db1) (si_instance_id i, uint (sp_peer_id p)) =
      Some (link_row env (sn_collection_id s) (millis (sn_completed_at_ms s)) i p
        (RBT.lookup (db_links db) (si_instance_id i, uint (sp_peer_id p))))"
    and "\<not> hasOperationError (si_errors i) ''list_routes'' \<Longrightarrow> has_key (db_links db1) (si_instance_id i, pid) \<Longrightarrow>
      pid \<in> (\<lambda>p. uint (sp_peer_id p)) ` set (si_peers i)"
proof -
  let ?cid = "sn_collection_id s" and ?T = "millis (sn_completed_at_ms s)" and ?ms = "sn_machines s"
  note D = supersedesD [OF assms(2)]
  obtain t2 t3 where loop: "each (ingest_machine env ?cid ?T) ?ms t2 = Inr t3"
    and before: "db_nodes (tx_db t2) = db_nodes db" "db_links (tx_db t2) = db_links db"
    and after: "db_nodes db1 = db_nodes (tx_db t3)" "db_links db1 = db_links (tx_db t3)"
    using assms(1) disjI1 [OF refl] by (rule Ingest_changes)
  obtain u u1 where u: "slice (si_instance_id i) u = slice (si_instance_id i) t2" and step: "report_instance env ?cid ?T mid i u = Inr u1"
    and u1: "slice (si_instance_id i) t3 = slice (si_instance_id i) u1"
    using machines_loop_slice [OF loop D(2) assms(3)] by blast
  have node: "RBT.lookup (db_nodes (tx_db u)) (si_instance_id i) = RBT.lookup (db_nodes db) (si_instance_id i)"
    and link: "\<And>pid. RBT.lookup (db_links (tx_db u)) (si_instance_id i, pid) = RBT.lookup (db_links db) (si_instance_id i, pid)"
    using u by (simp_all add: slice_def before fun_eq_iff)
  have node1: "RBT.lookup (db_nodes db1) (si_instance_id i) = RBT.lookup (db_nodes (tx_db u1)) (si_instance_id i)"
    and link1: "\<And>pid. RBT.lookup (db_links db1) (si_instance_id i, pid) = RBT.lookup (db_links (tx_db u1)) (si_instance_id i, pid)"
    using u1 by (simp_all add: slice_def after fun_eq_iff)
  show "\<exists>cidrs listeners. nd_proxy_cidrs nd = Some cidrs \<and> nd_listeners nd = Some listeners \<and>
      RBT.lookup (db_nodes db1) (si_instance_id i) = Some (node_row (pg_now env) ?cid ?T i nd cidrs listeners)" if "si_node i = Some nd"
    unfolding node1 by (rule report_instance_node [OF step that]) (auto simp: node intro: D(6) [OF assms(3)])
  have fresh: "lc_last_observed_at r < millis (si_observed_at_ms i)" if "RBT.lookup (db_links (tx_db u)) (si_instance_id i, pid) = Some r" for pid r
    using that D(7) [OF assms(3)] by (simp add: link)
  show "RBT.lookup (db_links db1) (si_instance_id i, uint (sp_peer_id p)) =
      Some (link_row env ?cid ?T i p (RBT.lookup (db_links db) (si_instance_id i, uint (sp_peer_id p))))" if "p \<in> set (si_peers i)"
    unfolding link1 link [symmetric] by (rule report_instance_links(1) [OF step D(4) [OF assms(3)] _ that]) (rule fresh)
  show "pid \<in> (\<lambda>p. uint (sp_peer_id p)) ` set (si_peers i)"
    if "\<not> hasOperationError (si_errors i) ''list_routes''" "has_key (db_links db1) (si_instance_id i, pid)"
    by (rule report_instance_links(2) [OF step D(4) [OF assms(3)] _ that(1)]) (use that(2) in \<open>auto simp: has_key_def link1 intro: fresh\<close>)
qed

text \<open>
  C9. A later collection becomes the current picture. When it has been ingested, every machine and
  every instance it reports has exactly the reported row and is active, the node of an instance
  too, and every reported link, which keeps the measured values from before where they could not be
  collected; an instance has no further links if its routes were listed, and a machine no further
  active instances if its instances were listed. When the snapshot has no error of its own, the
  active machines are exactly the reported ones, and no instance of another machine is active.
\<close>

theorem collection_becomes_current:
  assumes "Ingest env s db = (db1, Inr True)" and "supersedes s db"
    and "cid = sn_collection_id s" and "T = millis (sn_completed_at_ms s)"
  shows "(\<forall>m \<in> set (sn_machines s). RBT.lookup (db_machines db1) (machine_of m) = Some (session_row (pg_now env) cid T m)) \<and>
    (\<forall>m \<in> set (sn_machines s). \<forall>i \<in> set (sm_instances m).
       RBT.lookup (db_instances db1) (si_instance_id i) = Some (instance_row (pg_now env) cid T (machine_of m) i) \<and>
       (\<forall>nd. si_node i = Some nd \<longrightarrow> (\<exists>cidrs listeners. nd_proxy_cidrs nd = Some cidrs \<and> nd_listeners nd = Some listeners \<and>
          RBT.lookup (db_nodes db1) (si_instance_id i) = Some (node_row (pg_now env) cid T i nd cidrs listeners))) \<and>
       (\<forall>p \<in> set (si_peers i). RBT.lookup (db_links db1) (si_instance_id i, uint (sp_peer_id p)) =
          Some (link_row env cid T i p (RBT.lookup (db_links db) (si_instance_id i, uint (sp_peer_id p))))) \<and>
       (\<not> hasOperationError (si_errors i) ''list_routes'' \<longrightarrow>
          (\<forall>pid. has_key (db_links db1) (si_instance_id i, pid) \<longrightarrow> pid \<in> (\<lambda>p. uint (sp_peer_id p)) ` set (si_peers i)))) \<and>
    (\<forall>m \<in> set (sn_machines s). \<not> hasOperationError (sm_errors m) ''list_network_instances'' \<longrightarrow>
       (\<forall>iid r. RBT.lookup (db_instances db1) iid = Some r \<and> ic_machine_id r = machine_of m \<longrightarrow>
          (ic_active r \<longleftrightarrow> iid \<in> si_instance_id ` set (sm_instances m)))) \<and>
    (sn_errors s = [] \<longrightarrow>
       (\<forall>mid r. RBT.lookup (db_machines db1) mid = Some r \<longrightarrow> (mc_active r \<longleftrightarrow> mid \<in> machine_of ` set (sn_machines s))) \<and>
       (\<forall>iid r. RBT.lookup (db_instances db1) iid = Some r \<and> ic_active r \<longrightarrow> ic_machine_id r \<in> machine_of ` set (sn_machines s)))"
proof -
  have reported: "(machine_of m, i) \<in> set (reports (sn_machines s))" if "m \<in> set (sn_machines s)" "i \<in> set (sm_instances m)" for m i
    using that by (auto simp: set_reports)
  have row: "RBT.lookup (db_instances db1) (si_instance_id i) = Some (instance_row (pg_now env) cid T (machine_of m) i)"
    if "m \<in> set (sn_machines s)" "i \<in> set (sm_instances m)" for m i
    using instances_after_reported [OF current_instances(1) [OF assms(1,2)] reported [OF that]] by (simp add: assms(3,4))
  have "ic_active r" if "m \<in> set (sn_machines s)" "RBT.lookup (db_instances db1) iid = Some r" "iid \<in> si_instance_id ` set (sm_instances m)"
    for m iid r
    using row [OF that(1)] that(2,3) by (auto simp: instance_row_def)
  note active = this and machines = current_machines [OF assms(1,2)] and slices = current_slice [OF assms(1,2) reported]
    and instances = current_instances(2,3) [OF assms(1,2)]
  show ?thesis
    by (intro conjI ballI allI impI; (elim conjE)?)
      (simp_all only: assms(3,4) row machines(1) slices(1,2), simp_all add: machines(2) slices(3) instances active iffI)
qed

lemma sample_ingested:
  "snd (Ingest quiet_pg (sample_snapshot 1 10 [sample_report 5]) empty_database) = Inr True"
  by code_simp

lemma sample_supersedes: "supersedes (sample_snapshot 1 10 [sample_report 5]) empty_database"
  by (simp add: supersedes_def reports_def empty_database_def network_fields)

theorem collection_becomes_current_witness:
  "\<exists>db1. Ingest quiet_pg (sample_snapshot 1 10 [sample_report 5]) empty_database = (db1, Inr True) \<and>
     RBT.lookup (db_machines db1) 5 = Some (session_row (pg_now quiet_pg) 1 (millis 10) (sample_report 5)) \<and>
     (\<forall>pid. has_key (db_links db1) (9, pid) \<longrightarrow> pid = 7)"
proof -
  obtain db1 where db1: "Ingest quiet_pg (sample_snapshot 1 10 [sample_report 5]) empty_database = (db1, Inr True)"
    using sample_ingested by (metis prod.collapse)
  note current = collection_becomes_current [OF db1 sample_supersedes refl refl]
  have "RBT.lookup (db_machines db1) 5 = Some (session_row (pg_now quiet_pg) 1 (millis 10) (sample_report 5))"
    using bspec [OF conjunct1 [OF current], of "sample_report 5"] by (simp add: network_fields)
  moreover have "\<forall>pid. has_key (db_links db1) (9, pid) \<longrightarrow> pid = 7"
    using bspec [OF bspec [OF conjunct1 [OF conjunct2 [OF current]], of "sample_report 5"], of "reported_instance 5"]
    by (simp add: network_fields hasOperationError_def)
  ultimately show ?thesis using db1 by blast
qed

section \<open>A collection that arrives late\<close>

text \<open>
  C36. A late collection brings a machine back. When a collection has found a machine gone, an older
  one that is ingested afterwards and observed the machine after its last recorded observation
  makes it active again, although the later collection did not see it, and its row goes back to the
  older collection.
\<close>

theorem late_collection_reactivates:
  assumes "Ingest env s db = (db1, Inr True)" and "distinct (map machine_of (sn_machines s))" and "m \<in> set (sn_machines s)"
    and "RBT.lookup (db_machines db) (machine_of m) = Some r" and "\<not> mc_active r"
    and "mc_last_observed_at r < millis (sm_observed_at_ms m)"
    and "millis (sn_completed_at_ms s) < mc_last_collection_completed_at r"
  shows "\<exists>r1. RBT.lookup (db_machines db1) (machine_of m) = Some r1 \<and> mc_active r1 \<and> mc_disappeared_at r1 = None \<and>
    mc_last_collection_completed_at r1 < mc_last_collection_completed_at r"
proof -
  let ?cid = "sn_collection_id s" and ?T = "millis (sn_completed_at_ms s)"
  obtain t2 t3 where loop: "each (ingest_machine env ?cid ?T) (sn_machines s) t2 = Inr t3" and before: "db_machines (tx_db t2) = db_machines db"
    and after: "db_machines db1 = (if sn_errors s = [] then mark_machines env ?cid ?T (map machine_of (sn_machines s)) (db_machines (tx_db t3))
      else db_machines (tx_db t3))"
    using assms(1) disjI1 [OF refl] by (rule Ingest_changes)
  have "RBT.lookup (db_machines (tx_db t3)) (machine_of m) = Some (session_row (pg_now env) ?cid ?T m)"
    by (rule machines_loop_rows [OF loop assms(2,3)]) (use assms(4,6) in \<open>simp add: before\<close>)
  then have "RBT.lookup (db_machines db1) (machine_of m) = Some (session_row (pg_now env) ?cid ?T m)"
    using assms(3) by (simp add: after mark_machines_def)
  with assms(7) show ?thesis by (simp add: session_row_def Let_def)
qed

text \<open>The machine is seen at 5, found gone by the collection that completes at 20, and brought back by the one of 15.\<close>

definition sample_gone :: database where
  "sample_gone = fst (Ingest quiet_pg (sample_snapshot 2 20 [])
     (fst (Ingest quiet_pg (sample_snapshot 1 10 [sample_report 5]) empty_database)))"

lemma sample_gone_facts:
  "map_option (\<lambda>r. (mc_active r, mc_last_observed_at r, mc_last_collection_completed_at r)) (RBT.lookup (db_machines sample_gone) 5) =
     Some (False, 5000000, 20000000)"
  "snd (Ingest quiet_pg (sample_snapshot 3 15 [sample_report 12]) sample_gone) = Inr True"
  by code_simp+

theorem late_collection_reactivates_witness:
  "\<exists>r r1. RBT.lookup (db_machines sample_gone) 5 = Some r \<and> \<not> mc_active r \<and>
     RBT.lookup (db_machines (fst (Ingest quiet_pg (sample_snapshot 3 15 [sample_report 12]) sample_gone))) 5 = Some r1 \<and> mc_active r1"
proof -
  let ?s = "sample_snapshot 3 15 [sample_report 12]"
  obtain r where r: "RBT.lookup (db_machines sample_gone) 5 = Some r" "\<not> mc_active r" "mc_last_observed_at r = 5000000"
    "mc_last_collection_completed_at r = 20000000"
    using sample_gone_facts(1) by (auto simp: map_option_eq_Some)
  obtain db1 where db1: "Ingest quiet_pg ?s sample_gone = (db1, Inr True)" using sample_gone_facts(2) by (metis prod.collapse)
  have "distinct (map machine_of (sn_machines ?s))" "sample_report 12 \<in> set (sn_machines ?s)"
    "RBT.lookup (db_machines sample_gone) (machine_of (sample_report 12)) = Some r"
    "mc_last_observed_at r < millis (sm_observed_at_ms (sample_report 12))"
    "millis (sn_completed_at_ms ?s) < mc_last_collection_completed_at r"
    using r by (simp_all add: network_fields millis_def)
  from late_collection_reactivates [OF db1 this(1-3) r(2) this(4,5)] r db1 show ?thesis
    by (auto simp: network_fields)
qed

end
