(* ===== verification/Pipeline.thy ===== *)
theory Pipeline
  imports Ingest_Current Read_Model Poller
begin

text \<open>
  From the gateway to the console: what the endpoint serves after a collection, as a function of the
  snapshot alone, and the polling worker on top of the client and the store.
\<close>

section \<open>What the read model relies on\<close>

lemma consistent_links_ok: "db_consistent db \<Longrightarrow> links_ok db"
  unfolding db_consistent_def db_sound_def links_ok_def table_all_entries
  by (auto simp: list_all_iff link_ok_def)

text \<open>The rows of a table that meet a condition, given by a list in key order.\<close>

lemma filter_entries:
  assumes "sorted (map fst xs)" and "distinct (map fst xs)"
    and "\<And>k v. (k, v) \<in> set xs \<longleftrightarrow> RBT.lookup t k = Some v \<and> P (k, v)"
  shows "filter P (RBT.entries t) = xs"
proof (rule map_sorted_distinct_set_unique [where f = fst])
  have entries: "(k, v) \<in> set (RBT.entries t) \<longleftrightarrow> RBT.lookup t k = Some v" for k v by (simp add: RBT.lookup_in_tree)
  show "set (filter P (RBT.entries t)) = set xs" using assms(3) entries by auto
  then show "inj_on fst (set (filter P (RBT.entries t)) \<union> set xs)"
    using assms(2) by (auto simp: distinct_map)
  show "sorted (map fst (filter P (RBT.entries t)))" by (intro sorted_filter RBT.sorted_entries)
  show "distinct (map fst (filter P (RBT.entries t)))" by (intro distinct_map_filter RBT.distinct_entries)
qed (use assms in auto)

section \<open>The served topology as a function of the snapshot\<close>

definition served_peer :: "codec \<Rightarrow> snapshot_instance \<Rightarrow> snapshot_peer \<Rightarrow> peer" where
  "served_peer c i p =
     \<lparr>p_peer_id = unat (sp_peer_id p), p_ipv4 = sp_ipv4 p, p_hostname = Some (sp_hostname p),
      p_next_hop_peer_id = unat (sp_next_hop_peer_id p), p_direct = sp_direct p, p_path_cost = sint (sp_path_cost p),
      p_latency_ms = sp_latency_ms p, p_loss_rate = sp_loss_rate p,
      p_rx_bytes = map_option (\<lambda>n. rnd (of_nat (unat n))) (sp_rx_bytes p),
      p_tx_bytes = map_option (\<lambda>n. rnd (of_nat (unat n))) (sp_tx_bytes p),
      p_tunnel_protocols = Some (nonNilStrings (sp_tunnel_protocols p)), p_easytier_version = Some (sp_version p),
      p_last_observed_at = Some (cd_time c (millis (si_observed_at_ms i)))\<rparr>"

definition served_node :: "codec \<Rightarrow> snapshot_instance \<Rightarrow> snapshot_node \<Rightarrow> node_info" where
  "served_node c i n =
     \<lparr>n_peer_id = unat (nd_peer_id n), n_ipv4 = Some (nd_ipv4 n), n_hostname = Some (nd_hostname n),
      n_proxy_cidrs = nonNilStrings (nd_proxy_cidrs n), n_listeners = nonNilStrings (nd_listeners n),
      n_easytier_version = Some (nd_version n), n_last_observed_at = Some (cd_time c (millis (si_observed_at_ms i)))\<rparr>"

definition served_instance :: "codec \<Rightarrow> uuid \<Rightarrow> snapshot_instance \<Rightarrow> net_instance" where
  "served_instance c cid i =
     \<lparr>i_instance_id = cd_uuid c (si_instance_id i), i_active = True, i_disappeared_at = None,
      i_last_observed_at = Some (cd_time c (millis (si_observed_at_ms i))), i_last_collection_id = Some (cd_uuid c cid),
      i_node = map_option (served_node c i) (si_node i),
      i_peers = Some (map (served_peer c i) (sort_key sp_peer_id (si_peers i)))\<rparr>"

definition served_machine :: "codec \<Rightarrow> uuid \<Rightarrow> snapshot_machine \<Rightarrow> machine" where
  "served_machine c cid m =
     (let s = sm_session m in
      \<lparr>m_machine_id = cd_uuid c (se_machine_id s), m_remote_url = Some (se_remote_url s), m_hostname = Some (se_hostname s),
       m_easytier_version = Some (se_easytier_version s), m_report_time = Some (se_report_time s),
       m_connected_at = Some (cd_time c (millis (se_connected_at_ms s))),
       m_last_heartbeat_at = Some (cd_time c (millis (se_last_heartbeat_at_ms s))),
       m_device = map_option (\<lambda>d. \<lparr>d_os_type = Some (sd_os_type d), d_os_version = Some (sd_os_version d),
         d_distribution = Some (sd_distribution d)\<rparr>) (se_device s),
       m_active = True, m_disappeared_at = None, m_last_observed_at = Some (cd_time c (millis (sm_observed_at_ms m))),
       m_last_collection_id = Some (cd_uuid c cid),
       m_network_instances = Some (map (served_instance c cid) (sort_key si_instance_id (sm_instances m)))\<rparr>)"

text \<open>Everything was collected.\<close>

definition complete :: "snapshot \<Rightarrow> bool" where
  "complete s \<longleftrightarrow> sn_errors s = [] \<and>
     list_all (\<lambda>m. sm_errors m = [] \<and> list_all (\<lambda>i. si_errors i = [] \<and> si_node i \<noteq> None) (sm_instances m)) (sn_machines s)"

lemma to_uint32_uint [simp]: "to_uint32 (uint (w :: 32 word)) = unat w"
  using uint_lt2p [of w] by (simp add: to_uint32_def)

lemma json_peer_served:
  "json_peer c (k, peer_row now cid T i p) = (served_peer c i p)\<lparr>p_peer_id := to_uint32 (snd k)\<rparr>"
  by (cases k) (simp add: json_peer_def peer_row_def served_peer_def decimalString_def option.map_comp comp_def)

lemma scan_node_served:
  "nd_proxy_cidrs n = Some cidrs \<Longrightarrow> nd_listeners n = Some listeners \<Longrightarrow>
     scan_node c (node_row now cid T i n cidrs listeners) = served_node c i n"
  by (simp add: scan_node_def node_row_def served_node_def nonNilStrings_def)

lemma merge_link_details [simp]: "merge_link True old new = new"
  by (simp add: merge_link_def)

lemma sort_key_distinct: "distinct (map f xs) \<Longrightarrow> distinct (map f (sort_key f xs))" for f :: "'a \<Rightarrow> 'b :: linorder"
  by (simp add: distinct_map)

lemma served_links:
  assumes "Ingest env s db = (db1, Inr True)" and "supersedes s db" and "complete s"
    and "m \<in> set (sn_machines s)" and "i \<in> set (sm_instances m)"
  shows "json_peers c db1 (si_instance_id i) = map (served_peer c i) (sort_key sp_peer_id (si_peers i))"
proof -
  let ?cid = "sn_collection_id s" and ?T = "millis (sn_completed_at_ms s)" and ?iid = "si_instance_id i"
  let ?row = "\<lambda>p. ((?iid, uint (sp_peer_id p)), peer_row (pg_now env) ?cid ?T i p)"
  let ?xs = "map ?row (sort_key sp_peer_id (si_peers i))"
  have reported: "(machine_of m, i) \<in> set (reports (sn_machines s))" using assms(4,5) by (auto simp: set_reports)
  have e: "si_errors i = []" using assms(3-5) by (auto simp: complete_def list_all_iff)
  note slice = current_slice [OF assms(1,2) reported] and d = supersedesD(4) [OF assms(2) reported]
  have row: "RBT.lookup (db_links db1) (?iid, uint (sp_peer_id p)) = Some (peer_row (pg_now env) ?cid ?T i p)" if "p \<in> set (si_peers i)" for p
    using slice(2) [OF that] by (simp add: link_row_def e hasOperationError_def split: option.splits)
  have only: "pid \<in> (\<lambda>p. uint (sp_peer_id p)) ` set (si_peers i)" if "RBT.lookup (db_links db1) (?iid, pid) = Some r" for pid r
    using slice(3) [of pid] that by (simp add: e hasOperationError_def has_key_def)
  have "filter (\<lambda>row. fst (fst row) = ?iid) (RBT.entries (db_links db1)) = ?xs"
  proof (rule filter_entries)
    have "sorted (map sp_peer_id (sort_key sp_peer_id (si_peers i)))" by simp
    then show "sorted (map fst ?xs)"
      by (simp add: comp_def sorted_map less_eq_prod_def word_le_def)
    have "distinct (map sp_peer_id (sort_key sp_peer_id (si_peers i)))" using d by (rule sort_key_distinct)
    then show "distinct (map fst ?xs)"
      by (auto simp: comp_def distinct_map inj_on_def simp flip: word_uint_eq_iff)
    show "(k, v) \<in> set ?xs \<longleftrightarrow> RBT.lookup (db_links db1) k = Some v \<and> fst (fst (k, v)) = ?iid" for k v
    proof (cases k)
      case (Pair src pid)
      show ?thesis using row only by (fastforce simp: Pair)
    qed
  qed
  then show ?thesis by (simp add: json_peers_def comp_def json_peer_served served_peer_def)
qed

lemma served_instance_row:
  assumes "Ingest env s db = (db1, Inr True)" and "supersedes s db" and "complete s"
    and "m \<in> set (sn_machines s)" and "i \<in> set (sm_instances m)"
  shows "json_instance c db1 (si_instance_id i, instance_row now (sn_collection_id s) T mid i) = served_instance c (sn_collection_id s) i"
proof -
  have reported: "(machine_of m, i) \<in> set (reports (sn_machines s))" using assms(4,5) by (auto simp: set_reports)
  obtain nd where nd: "si_node i = Some nd" using assms(3-5) by (auto simp: complete_def list_all_iff)
  obtain cidrs listeners where "nd_proxy_cidrs nd = Some cidrs" "nd_listeners nd = Some listeners"
    and "RBT.lookup (db_nodes db1) (si_instance_id i) =
      Some (node_row (pg_now env) (sn_collection_id s) (millis (sn_completed_at_ms s)) i nd cidrs listeners)"
    using current_slice(1) [OF assms(1,2) reported nd] by blast
  then show ?thesis
    by (simp add: json_instance_def scan_instance_def instance_row_def served_instance_def nd scan_node_served served_links [OF assms])
qed

lemma served_instances:
  assumes "Ingest env s db = (db1, Inr True)" and "supersedes s db" and "complete s" and "m \<in> set (sn_machines s)"
  shows "map (json_instance c db1) (machine_instances db1 (Some True) (machine_of m)) =
    map (served_instance c (sn_collection_id s)) (sort_key si_instance_id (sm_instances m))"
proof -
  let ?cid = "sn_collection_id s" and ?T = "millis (sn_completed_at_ms s)" and ?mid = "machine_of m"
  let ?xs = "map (\<lambda>i. (si_instance_id i, instance_row (pg_now env) ?cid ?T ?mid i)) (sort_key si_instance_id (sm_instances m))"
  have e: "\<not> hasOperationError (sm_errors m) ''list_network_instances''"
    using assms(3,4) by (auto simp: complete_def list_all_iff hasOperationError_def)
  have row: "RBT.lookup (db_instances db1) (si_instance_id i) = Some (instance_row (pg_now env) ?cid ?T ?mid i)" if "i \<in> set (sm_instances m)" for i
    using instances_after_reported [OF current_instances(1) [OF assms(1,2)], of "(?mid, i)"] that assms(4) by (auto simp: set_reports)
  have only: "iid \<in> si_instance_id ` set (sm_instances m)"
    if "RBT.lookup (db_instances db1) iid = Some r" "ic_machine_id r = ?mid" "ic_active r" for iid r
    using current_instances(2) [OF assms(1,2,4) e that] .
  have "filter (\<lambda>row. ic_machine_id (snd row) = ?mid \<and> (Some True = None \<or> Some True = Some (ic_active (snd row)))) (RBT.entries (db_instances db1)) = ?xs"
  proof (rule filter_entries)
    show "sorted (map fst ?xs)" by (simp add: comp_def)
    have "distinct (map report_id (reports (sn_machines s)))" using assms(2) by (rule supersedesD(2))
    moreover obtain ys zs where "sn_machines s = ys @ m # zs" using assms(4) by (meson split_list)
    ultimately have "distinct (map si_instance_id (sm_instances m))" by (simp add: reports_def comp_def)
    then show "distinct (map fst ?xs)" using sort_key_distinct by (simp add: comp_def)
    show "(k, v) \<in> set ?xs \<longleftrightarrow> RBT.lookup (db_instances db1) k = Some v \<and>
        ic_machine_id (snd (k, v)) = ?mid \<and> (Some True = None \<or> Some True = Some (ic_active (snd (k, v))))" for k v
      using row only by (fastforce simp: instance_row_def)
  qed
  then show ?thesis
    by (simp add: machine_instances_def comp_def served_instance_row [OF assms] cong: map_cong)
qed

lemma scan_device_served:
  "scan_device (session_row now cid T m) = map_option (\<lambda>d. \<lparr>d_os_type = Some (sd_os_type d), d_os_version = Some (sd_os_version d),
     d_distribution = Some (sd_distribution d)\<rparr>) (se_device (sm_session m))"
  by (cases "se_device (sm_session m)") (simp_all add: scan_device_def session_row_def Let_def valueOrEmpty_def)

lemma served_machines:
  assumes "Ingest env s db = (db1, Inr True)" and "supersedes s db" and "complete s"
    and "tq_active q = Some True" and "tq_machine q = None" and "tq_cursor q = None"
  shows "map (json_machine c db1 (tq_active q)) (matching_rows db1 q) =
    map (served_machine c (sn_collection_id s)) (sort_key machine_of (sn_machines s))"
proof -
  let ?cid = "sn_collection_id s" and ?T = "millis (sn_completed_at_ms s)" and ?ms = "sn_machines s"
  let ?xs = "map (\<lambda>m. (machine_of m, session_row (pg_now env) ?cid ?T m)) (sort_key machine_of ?ms)"
  note rows = current_machines [OF assms(1,2)]
  have e: "sn_errors s = []" using assms(3) by (simp add: complete_def)
  have "matching_rows db1 q = ?xs"
    unfolding matching_rows_def
  proof (rule filter_entries)
    show "sorted (map fst ?xs)" by (simp add: comp_def)
    show "distinct (map fst ?xs)" using sort_key_distinct [OF supersedesD(1) [OF assms(2)]] by (simp add: comp_def)
    show "(k, v) \<in> set ?xs \<longleftrightarrow> RBT.lookup (db_machines db1) k = Some v \<and> row_matches q (k, v)" for k v
      using rows(1) rows(2) [OF e, of k v] assms(4-6)
      by (auto simp: row_matches_def session_row_def Let_def)
  qed
  moreover have "json_machine c db1 (Some True) (machine_of m, session_row (pg_now env) ?cid ?T m) = served_machine c ?cid m" if "m \<in> set ?ms" for m
    using served_instances [OF assms(1-3) that, of c] scan_device_served [of "pg_now env" ?cid ?T m]
    by (simp add: json_machine_def scan_machine_def served_machine_def Let_def session_row_def)
  ultimately show ?thesis using assms(4) by (simp cong: map_cong)
qed

lemma snapshot_served:
  assumes "Ingest env s db = (db1, Inr True)" and "db_consistent db" and "supersedes s db" and "complete s"
    and "\<forall>st. faults st = None" and "tq_active q = Some True" and "tq_machine q = None" and "tq_cursor q = None"
    and "length (sn_machines s) \<le> page_limit q"
  shows "\<exists>page. CurrentTopology c now faults db1 q = Inr page \<and> next_cursor page = None \<and>
    t_machines page = Some (map (served_machine c (sn_collection_id s)) (sort_key machine_of (sn_machines s)))"
proof -
  have "links_ok db1"
    using consistent_links_ok [OF Ingest_consistent(1) [OF assms(2), of env s]] assms(1) by simp
  note page = CurrentTopology_page [OF this assms(5), of c now q]
  note served = served_machines [OF assms(1,3,4,6-8), of c]
  have "length (matching_rows db1 q) = length (sn_machines s)" using arg_cong [OF served, of length] by simp
  with page served assms(9) show ?thesis by auto
qed

text \<open>
  C8. What the gateway reports is what the console gets. After a complete collection that is later
  than everything in a consistent database, the endpoint answers the console's query for active
  machines, when a page has room for them, with exactly the snapshot, machines, instances and peers in
  the order of their identifiers, every field carried over; nothing from earlier collections shows.
\<close>

theorem snapshot_reaches_response:
  assumes "Ingest env s db = (db1, Inr True)" and "db_consistent db" and "supersedes s db" and "complete s"
    and "\<forall>st. faults st = None" and "tq_active q = Some True" and "tq_machine q = None" and "tq_cursor q = None"
    and "length (sn_machines s) \<le> page_limit q"
  shows "\<exists>page. CurrentTopology c now faults db1 q = Inr page \<and> next_cursor page = None \<and>
    t_machines page = Some (map (served_machine c (sn_collection_id s)) (sort_key machine_of (sn_machines s)))"
  using assms by (rule snapshot_served)

theorem snapshot_reaches_response_witness:
  "\<exists>db1 page. Ingest quiet_pg (sample_snapshot 1 10 [sample_report 5]) empty_database = (db1, Inr True) \<and>
     CurrentTopology text_codec 0 no_faults db1 \<lparr>tq_active = Some True, tq_machine = None, tq_cursor = None, tq_limit = 200\<rparr> = Inr page \<and>
     t_machines page = Some [served_machine text_codec 1 (sample_report 5)]"
proof -
  obtain db1 where db1: "Ingest quiet_pg (sample_snapshot 1 10 [sample_report 5]) empty_database = (db1, Inr True)"
    using sample_ingested by (metis prod.collapse)
  have "complete (sample_snapshot 1 10 [sample_report 5])"
    by (simp add: complete_def network_fields) (simp add: sample_report_def reported_instance_def)
  moreover have "\<forall>st. no_faults st = None" by (simp add: no_faults_def)
  ultimately show ?thesis
    using snapshot_reaches_response [OF db1 empty_consistent sample_supersedes, of no_faults
        "\<lparr>tq_active = Some True, tq_machine = None, tq_cursor = None, tq_limit = 200\<rparr>" text_codec 0] db1
    by (auto simp: network_fields page_limit_def)
qed

section \<open>The worker\<close>

text \<open>
  The worker with the client as its fetcher and the store as its ingester. What a pass meets is the
  reply of the gateway and the environment of its transaction; the texts of the errors, which the
  status shows, are an argument.
\<close>

record pass_env =
  pa_started :: int
  pa_succeeded :: int
  pa_request :: "unit result"
  pa_response :: "reply result"
  pa_pg :: pg

record error_texts =
  et_fetch :: "fetch_error \<Rightarrow> jsstr"
  et_ingest :: "ingest_error \<Rightarrow> jsstr"

definition fetched :: "decoder \<Rightarrow> error_texts \<Rightarrow> pass_env \<Rightarrow> int \<times> int \<times> (pg \<times> snapshot) result" where
  "fetched dc et pa =
     (pa_started pa, pa_succeeded pa,
      case FetchTopology dc (pa_request pa) (pa_response pa) of Inl e \<Rightarrow> Inl (et_fetch et e) | Inr s \<Rightarrow> Inr (pa_pg pa, s))"

definition ingester :: "error_texts \<Rightarrow> pg \<times> snapshot \<Rightarrow> database \<Rightarrow> database \<times> bool result" where
  "ingester et = (\<lambda>(env, s) db. case Ingest env s db of
     (db1, Inl e) \<Rightarrow> (db1, Inl (et_ingest et e)) | (db1, Inr b) \<Rightarrow> (db1, Inr b))"

definition controller_passes :: "decoder \<Rightarrow> error_texts \<Rightarrow> pass_env list \<Rightarrow> worker \<times> database \<Rightarrow> worker \<times> database" where
  "controller_passes dc et pas = worker_run (\<lambda>(env, s). sn_collection_id s) (ingester et) (map (fetched dc et) pas)"

lemma controller_passes_simps [simp]:
  "controller_passes dc et [] wd = wd"
  "controller_passes dc et (pa # pas) wd =
     controller_passes dc et pas (collect (\<lambda>(env, s). sn_collection_id s) (ingester et) (fetched dc et pa) wd)"
  by (simp_all add: controller_passes_def)

text \<open>A successful ingestion leaves the run in the database, and no later event removes it.\<close>

lemma Ingest_stores_run:
  assumes "Ingest env s db = (db1, Inr b)"
  shows "has_key (db_runs db1) (sn_collection_id s)"
proof (cases b)
  case True
  with assms have "Ingest env s db = (db1, Inr True)" by simp
  moreover obtain payload where "pg_marshal env s = Inr payload"
    using assms by (auto simp: Ingest_def split: option.splits sum.splits)
  ultimately show ?thesis using Ingest_new_digest by (fastforce simp: has_key_def)
next
  case False
  have v: "Validate s = None" using assms by (auto simp: Ingest_def split: option.splits)
  obtain payload t where t: "ingest_tx env s payload db = Inr (t, False)" and db1: "db1 = tx_db t"
    using assms False by (auto simp: Ingest_def v split: option.splits sum.splits prod.splits commit_outcome.splits)
  have here: "has_key (db_runs db) (sn_collection_id s)"
  proof (rule ccontr)
    assume "\<not> has_key (db_runs db) (sn_collection_id s)"
    from t [unfolded ingest_tx_new [OF v this]] show False by (auto simp: and_then_eq_Inr split: option.splits)
  qed
  then obtain r where "RBT.lookup (db_runs db) (sn_collection_id s) = Some r" by (auto simp: has_key_def)
  from t [unfolded ingest_tx_known [OF v this]] here show ?thesis by (auto simp: db1 split: option.splits if_splits)
qed

lemma Ingest_keeps_runs: "has_key (db_runs db) cid \<Longrightarrow> has_key (db_runs (fst (Ingest env s db))) cid"
  using store_exec_runs [of db cid _ "Collect env s"] by (auto simp: has_key_def)

lemma collect_store:
  assumes "collect (\<lambda>(env, s). sn_collection_id s) (ingester et) (fetched dc et pa) (w, db) = (w1, db1)"
  shows "db1 = db \<and> ps_lastSuccessAt (wk_status w1) = ps_lastSuccessAt (wk_status w) \<and>
      ps_lastCollectionID (wk_status w1) = ps_lastCollectionID (wk_status w) \<or>
    (\<exists>s. FetchTopology dc (pa_request pa) (pa_response pa) = Inr s \<and> db1 = fst (Ingest (pa_pg pa) s db) \<and>
      (ps_lastSuccessAt (wk_status w1) = ps_lastSuccessAt (wk_status w) \<and> ps_lastCollectionID (wk_status w1) = ps_lastCollectionID (wk_status w) \<or>
       (\<exists>b. snd (Ingest (pa_pg pa) s db) = Inr b) \<and> ps_lastCollectionID (wk_status w1) = sn_collection_id s))"
  using assms
  by (auto simp: collect_def fetched_def ingester_def Let_def set_running_def recordFailure_def recordSuccess_def begin_attempt_def
      split: sum.splits prod.splits)

definition worker_inv :: "worker \<Rightarrow> database \<Rightarrow> bool" where
  "worker_inv w db \<longleftrightarrow>
     db_consistent db \<and> (ps_lastSuccessAt (wk_status w) \<noteq> None \<longrightarrow> has_key (db_runs db) (ps_lastCollectionID (wk_status w))) \<and>
     (\<exists>collects. db = run_events store_exec (map (\<lambda>(env, s). Collect env s) collects) empty_database \<and>
        list_all (\<lambda>(env, s). valid_snapshot s) collects)"

lemma ingested_inv:
  assumes "worker_inv w0 db0" and "FetchTopology dc request response = Inr s" and "db1 = fst (Ingest env s db0)"
  shows "db_consistent db1 \<and> (\<exists>collects. db1 = run_events store_exec (map (\<lambda>(env, s). Collect env s) collects) empty_database \<and>
    list_all (\<lambda>(env, s). valid_snapshot s) collects)"
proof
  show "db_consistent db1" using assms(1) by (simp add: worker_inv_def assms(3) Ingest_consistent(1))
  obtain collects where "db0 = run_events store_exec (map (\<lambda>(env, s). Collect env s) collects) empty_database"
    and "list_all (\<lambda>(env, s). valid_snapshot s) collects" using assms(1) by (auto simp: worker_inv_def)
  with FetchTopology_valid [OF assms(2)]
  show "\<exists>collects. db1 = run_events store_exec (map (\<lambda>(env, s). Collect env s) collects) empty_database \<and>
      list_all (\<lambda>(env, s). valid_snapshot s) collects"
    by (intro exI [of _ "collects @ [(env, s)]"]) (simp add: assms(3) run_events_append)
qed

lemma collect_inv:
  assumes inv: "worker_inv w0 db0"
    and pass: "collect (\<lambda>(env, s). sn_collection_id s) (ingester et) (fetched dc et pa) (w0, db0) = (w1, db1)"
  shows "worker_inv w1 db1"
  using collect_store [OF pass]
proof (elim disjE exE conjE)
  assume "db1 = db0" and "ps_lastSuccessAt (wk_status w1) = ps_lastSuccessAt (wk_status w0)"
    and "ps_lastCollectionID (wk_status w1) = ps_lastCollectionID (wk_status w0)"
  with inv show ?thesis by (simp add: worker_inv_def)
next
  fix s
  assume s: "FetchTopology dc (pa_request pa) (pa_response pa) = Inr s" and db1: "db1 = fst (Ingest (pa_pg pa) s db0)"
    and status: "ps_lastSuccessAt (wk_status w1) = ps_lastSuccessAt (wk_status w0)"
      "ps_lastCollectionID (wk_status w1) = ps_lastCollectionID (wk_status w0)"
  have "has_key (db_runs db1) (ps_lastCollectionID (wk_status w1))" if "ps_lastSuccessAt (wk_status w1) \<noteq> None"
    using inv that by (simp add: worker_inv_def status db1 Ingest_keeps_runs)
  with ingested_inv [OF inv s db1] show ?thesis by (simp add: worker_inv_def)
next
  fix s b
  assume s: "FetchTopology dc (pa_request pa) (pa_response pa) = Inr s" and db1: "db1 = fst (Ingest (pa_pg pa) s db0)"
    and b: "snd (Ingest (pa_pg pa) s db0) = Inr b" and "ps_lastCollectionID (wk_status w1) = sn_collection_id s"
  moreover have "Ingest (pa_pg pa) s db0 = (db1, Inr b)" using b by (simp add: db1 prod_eq_iff)
  ultimately have "has_key (db_runs db1) (ps_lastCollectionID (wk_status w1))" by (simp add: Ingest_stores_run)
  with ingested_inv [OF inv s db1] show ?thesis by (simp add: worker_inv_def)
qed

lemma controller_passes_inv:
  "worker_inv w0 db0 \<Longrightarrow> controller_passes dc et pas (w0, db0) = (w, db) \<Longrightarrow> worker_inv w db"
proof (induction pas arbitrary: w0 db0)
  case (Cons pa pas)
  obtain w1 db1 where pass: "collect (\<lambda>(env, s). sn_collection_id s) (ingester et) (fetched dc et pa) (w0, db0) = (w1, db1)" by fastforce
  from Cons.IH [OF collect_inv [OF Cons.prems(1) pass]] Cons.prems(2) pass show ?case by simp
qed simp

text \<open>
  C19. The worker and the store. However the passes of the worker go, the database stays consistent,
  only snapshots that passed validation reach it, and when the status names a last collection, the
  database has the run of that collection.
\<close>

theorem worker_keeps_store:
  assumes "controller_passes dc et pas (NewWorker interval jitter timeout, empty_database) = (w, db)"
  shows "db_consistent db \<and> (ps_lastSuccessAt (wk_status w) \<noteq> None \<longrightarrow> has_key (db_runs db) (ps_lastCollectionID (wk_status w))) \<and>
    (\<exists>collects. db = run_events store_exec (map (\<lambda>(env, s). Collect env s) collects) empty_database \<and>
       list_all (\<lambda>(env, s). valid_snapshot s) collects)"
proof -
  have "worker_inv (NewWorker interval jitter timeout) empty_database"
    using empty_consistent by (auto simp: worker_inv_def NewWorker_def intro!: exI [of _ "[]"])
  from controller_passes_inv [OF this assms] show ?thesis unfolding worker_inv_def .
qed

definition sample_decoder :: decoder where
  "sample_decoder = \<lparr>dc_snapshot = \<lambda>b. Inr (sample_snapshot 1 10 [sample_report 5], []),
     dc_next = \<lambda>b. if b = [] then EndOfInput else AnotherValue, dc_text = widen\<rparr>"

definition sample_texts :: error_texts where
  "sample_texts = \<lparr>et_fetch = \<lambda>e. js ''fetch failed'', et_ingest = \<lambda>e. js ''ingest failed''\<rparr>"

definition sample_pass :: pass_env where
  "sample_pass = \<lparr>pa_started = 7, pa_succeeded = 8, pa_request = Inr (),
     pa_response = Inr \<lparr>rp_status = 200, rp_status_text = [], rp_body = [0x7B, 0x7D]\<rparr>, pa_pg = quiet_pg\<rparr>"

lemma sample_pass_succeeds:
  "ps_lastSuccessAt (wk_status (fst (controller_passes sample_decoder sample_texts [sample_pass] (NewWorker 60 5 10, empty_database)))) = Some 8"
proof -
  have "Validate (sample_snapshot 1 10 [sample_report 5]) = None" by code_simp
  then have "FetchTopology sample_decoder (pa_request sample_pass) (pa_response sample_pass) = Inr (sample_snapshot 1 10 [sample_report 5])"
    by (simp add: FetchTopology_def sample_decoder_def sample_pass_def ensureJSONEOF_def)
  moreover obtain db1 where "Ingest quiet_pg (sample_snapshot 1 10 [sample_report 5]) empty_database = (db1, Inr True)"
    using sample_ingested by (metis prod.collapse)
  ultimately show ?thesis
    by (simp add: collect_def fetched_def ingester_def set_running_def recordSuccess_def)
      (simp add: sample_pass_def Let_def)
qed

theorem worker_keeps_store_witness:
  "\<exists>w db. controller_passes sample_decoder sample_texts [sample_pass] (NewWorker 60 5 10, empty_database) = (w, db) \<and>
     ps_lastSuccessAt (wk_status w) = Some 8 \<and> has_key (db_runs db) (ps_lastCollectionID (wk_status w))"
proof -
  obtain w db where run: "controller_passes sample_decoder sample_texts [sample_pass] (NewWorker 60 5 10, empty_database) = (w, db)"
    by fastforce
  with sample_pass_succeeds have "ps_lastSuccessAt (wk_status w) = Some 8" by simp
  with worker_keeps_store [OF run] run show ?thesis by blast
qed

end
