(* ===== verification/Fleet.thy ===== *)
theory Fleet
  imports Gateway_Api Pipeline
begin

text \<open>
  From the clients to the console: the sessions of the gateway, a collection of them, the pass of the
  controller's worker that fetches and ingests it, and the answer of the topology endpoint.
\<close>

section \<open>What the ingestion relies on\<close>

text \<open>The part of \<open>supersedes\<close> that compares a snapshot with what the database has.\<close>

definition later_than :: "snapshot \<Rightarrow> database \<Rightarrow> bool" where
  "later_than s db \<longleftrightarrow>
     list_all (\<lambda>m. case RBT.lookup (db_machines db) (machine_of m) of None \<Rightarrow> True
       | Some r \<Rightarrow> mc_last_observed_at r < millis (sm_observed_at_ms m)) (sn_machines s) \<and>
     list_all (\<lambda>(mid, i).
       (case RBT.lookup (db_instances db) (si_instance_id i) of None \<Rightarrow> True
        | Some r \<Rightarrow> ic_last_observed_at r < millis (si_observed_at_ms i)) \<and>
       (case RBT.lookup (db_nodes db) (si_instance_id i) of None \<Rightarrow> True
        | Some r \<Rightarrow> nc_last_observed_at r < millis (si_observed_at_ms i)) \<and>
       table_all (\<lambda>k r. fst k = si_instance_id i \<longrightarrow> lc_last_observed_at r < millis (si_observed_at_ms i)) (db_links db))
       (reports (sn_machines s)) \<and>
     table_all (\<lambda>mid r. mc_last_collection_completed_at r < millis (sn_completed_at_ms s)) (db_machines db) \<and>
     table_all (\<lambda>iid r. ic_last_collection_completed_at r < millis (sn_completed_at_ms s)) (db_instances db)"

lemma supersedes_iff:
  "supersedes s db \<longleftrightarrow>
     distinct (map machine_of (sn_machines s)) \<and> distinct (map report_id (reports (sn_machines s))) \<and>
     list_all (\<lambda>(mid, i). distinct (map sp_peer_id (si_peers i))) (reports (sn_machines s)) \<and> later_than s db"
  unfolding supersedes_def later_than_def by (auto simp: list_all_iff)

text \<open>A route gives one peer, so routes to different peers give different ones.\<close>

lemma join_routes_ids: "map sp_peer_id (join_routes pr t rs) = map ri_peer_id rs"
  by (induction rs arbitrary: t) (simp_all add: peer_view_def Let_def)

lemma joined_ids_distinct:
  "distinct (map ri_peer_id rs) \<Longrightarrow> distinct (map sp_peer_id (join_peers_and_routes pr peers rs))"
  by (simp add: join_peers_and_routes_def sorted_ids join_routes_ids)

lemma collect_instance_peers:
  assumes "\<And>rs. ia_routes ia = RpcOk rs \<Longrightarrow> distinct (map ri_peer_id rs)"
  shows "distinct (map sp_peer_id (si_peers (collect_instance pr ia iid)))"
proof -
  have "distinct (map ri_peer_id (unwrap_or_default v))" if "rpc_value (ia_routes ia) operation errors = (v, es)" for operation errors v es
    using assms that by (auto simp: rpc_value_def unwrap_or_default_def split: rpc.splits)
  then show ?thesis by (auto simp: collect_instance_def split: prod.splits intro!: joined_ids_distinct)
qed

section \<open>A pass of the worker\<close>

lemma ingested_pass:
  assumes "FetchTopology dc (pa_request pa) (pa_response pa) = Inr s"
    and "collect (\<lambda>(env, s). sn_collection_id s) (ingester et) (fetched dc et pa) (w, db) = (w1, db1)"
    and "ps_lastError (wk_status w1) = []" and "ps_lastCollectionState (wk_status w1) = js ''ingested''"
  shows "Ingest (pa_pg pa) s db = (db1, Inr True)"
  using assms
  by (auto simp: collect_def fetched_def ingester_def Let_def set_running_def recordFailure_def recordSuccess_def
      split: sum.splits prod.splits if_splits)

section \<open>The fleet\<close>

text \<open>What the code relies on in the clients' answers: routes go to different peers.\<close>

definition routes_distinct :: "('a, 'p) machine_answers \<Rightarrow> bool" where
  "routes_distinct ma \<longleftrightarrow> (\<forall>n rs. ia_routes (ma_instance ma n) = RpcOk rs \<longrightarrow> distinct (map ri_peer_id rs))"

lemma collected_peers_distinct:
  assumes "session_machine g = Some mid" and "routes_distinct ma"
    and "i \<in> set (sm_instances (collect_machine pr (session_snapshot_of g) ma))"
  shows "distinct (map sp_peer_id (si_peers i))"
proof -
  obtain ids n where "i = collect_instance pr (ma_instance ma n) (ids ! n)"
    using collect_machine_fields(4) [OF assms(1,3)] by blast
  with assms(2) show ?thesis by (auto simp: routes_distinct_def intro: collect_instance_peers)
qed


lemma collection_unambiguous:
  assumes inv: "gateway_inv G" and "mset sessions = mset (pool_sessions (gw_sessions G))"
    and seen: "\<And>a. \<exists>es. trace_ok gateway_enabled gateway_exec es G \<and> seen a = run_events gateway_exec es G"
    and "0 < ce_concurrency env" and "s = collect_topology env (machine_task pr panic seen answers) sessions"
    and "\<And>a. routes_distinct (answers a)" and "sn_errors s = []"
  shows "machine_ids s = RBT.keys (gw_sessions G)"
    and "list_all (\<lambda>(mid, i). distinct (map sp_peer_id (si_peers i))) (reports (sn_machines s))"
proof -
  let ?m = "\<lambda>a. collect_machine pr (session_snapshot_of (gw_heap (seen a) ! a)) (answers a)"
  obtain fin left where split: "mset fin + mset left = mset sessions" and sub: "set fin \<subseteq> set (pool_sessions (gw_sessions G))"
    and ms: "set (sn_machines s) = ?m ` {a \<in> set fin. panic a = None}"
    and "\<And>a. a \<in> set fin \<Longrightarrow> se_machine_id (sm_session (?m a)) = listed_machine G a"
    and ids: "machine_ids s = sort (map (listed_machine G) (filter (\<lambda>a. panic a = None) fin))"
    and es: "sn_errors s = [] \<longleftrightarrow> left = [] \<and> filter (\<lambda>a. panic a = None) fin = fin"
    by (rule collected_sessions [OF assms(1-5)]) (rule that)
  have fin: "filter (\<lambda>a. panic a = None) fin = fin" and "left = []" using es assms(7) by simp_all
  with split assms(2) have "mset (map (listed_machine G) fin) = mset (map (listed_machine G) (pool_sessions (gw_sessions G)))" by simp
  then show "machine_ids s = RBT.keys (gw_sessions G)"
    unfolding map_listed_machine [OF inv] ids fin by (intro properties_for_sort) simp_all
  have "distinct (map sp_peer_id (si_peers i))" if "m \<in> set (sn_machines s)" and i: "i \<in> set (sm_instances m)" for m i
  proof -
    from that(1) ms obtain a where a: "a \<in> set fin" and m: "m = ?m a" by auto
    obtain es where "trace_ok gateway_enabled gateway_exec es G" "seen a = run_events gateway_exec es G" using seen by blast
    with a sub have "session_machine (gw_heap (seen a) ! a) = Some (listed_machine G a)" using later_session [OF inv] by blast
    from collected_peers_distinct [OF this assms(6)] i m show ?thesis by blast
  qed
  then show "list_all (\<lambda>(mid, i). distinct (map sp_peer_id (si_peers i))) (reports (sn_machines s))"
    by (auto simp: list_all_iff set_reports)
qed

text \<open>
  C7. The console shows the fleet. Take a collection of the gateway in which nothing failed, no client
  answered with two routes to one peer and no instance identifier was reported twice, that is fetched
  and ingested by a pass of the controller's worker after which its status reports success, into a
  consistent database whose rows of what was collected are all older than the collection. Then the first
  page of active machines, if it has room for all sessions that the gateway had listed and the queries
  succeed, has exactly their machines, in the order of their identifiers, each with what its client
  answered.
\<close>

theorem fleet_reaches_response:
  assumes "reachable gateway_enabled gateway_exec (new_gateway token) G" and "mset sessions = mset (pool_sessions (gw_sessions G))"
    and "\<And>a. \<exists>es. trace_ok gateway_enabled gateway_exec es G \<and> seen a = run_events gateway_exec es G"
    and "0 < ce_concurrency env" and "s = collect_topology env (machine_task pr panic seen answers) sessions"
    and "\<And>a. routes_distinct (answers a)" and "distinct (map report_id (reports (sn_machines s)))" and "complete s"
    and "FetchTopology dc (pa_request pa) (pa_response pa) = Inr s" and "db_consistent db" and "later_than s db"
    and "collect (\<lambda>(env, s). sn_collection_id s) (ingester et) (fetched dc et pa) (w, db) = (w1, db1)"
    and "ps_lastError (wk_status w1) = []" and "ps_lastCollectionState (wk_status w1) = js ''ingested''"
    and "\<forall>st. faults st = None" and "tq_active q = Some True" and "tq_machine q = None" and "tq_cursor q = None"
    and "length (RBT.keys (gw_sessions G)) \<le> page_limit q"
  shows "\<exists>page ms. CurrentTopology c now faults db1 q = Inr page \<and> next_cursor page = None \<and> t_machines page = Some ms \<and>
    map m_machine_id ms = map (cd_uuid c) (RBT.keys (gw_sessions G)) \<and> ms = map (served_machine c (sn_collection_id s)) (sn_machines s)"
proof -
  have inv: "gateway_inv G" using gateway_task.inv_reachable [OF assms(1)] by simp
  have "sn_errors s = []" using assms(8) by (simp add: complete_def)
  note collected = collection_unambiguous [OF inv assms(2-6) this]
  have ids: "map machine_of (sn_machines s) = RBT.keys (gw_sessions G)" using collected(1) by (simp add: machine_ids_def)
  then have "supersedes s db" using collected(2) assms(7,11) by (simp add: supersedes_iff)
  moreover have "length (sn_machines s) \<le> page_limit q" using assms(19) arg_cong [OF ids, of length] by simp
  ultimately obtain page where "CurrentTopology c now faults db1 q = Inr page" and "next_cursor page = None"
    and "t_machines page = Some (map (served_machine c (sn_collection_id s)) (sort_key machine_of (sn_machines s)))"
    using snapshot_served [OF ingested_pass [OF assms(9,12-14)] assms(10) _ assms(8,15-18)] by blast
  moreover have "sort_key machine_of (sn_machines s) = sn_machines s"
    using ids RBT.sorted_keys [of "gw_sessions G"] by (simp add: sorted_sort_id sort_key_id_if_sorted flip: ids)
  moreover have "map m_machine_id (map (served_machine c (sn_collection_id s)) (sn_machines s)) = map (cd_uuid c) (RBT.keys (gw_sessions G))"
    by (simp add: served_machine_def Let_def comp_def flip: ids)
  ultimately show ?thesis by auto
qed


text \<open>The sample collection, delivered to a worker with an empty database.\<close>

definition fleet_decoder :: decoder where
  "fleet_decoder = \<lparr>dc_snapshot = \<lambda>b. Inr (sample_collected 7, []), dc_next = \<lambda>b. if b = [] then EndOfInput else AnotherValue, dc_text = widen\<rparr>"

definition console_query_active :: topology_query where
  "console_query_active = \<lparr>tq_active = Some True, tq_machine = None, tq_cursor = None, tq_limit = 200\<rparr>"

lemma fleet_fetched: "FetchTopology fleet_decoder (pa_request sample_pass) (pa_response sample_pass) = Inr (sample_collected 7)"
proof -
  have "Validate (sample_collected 7) = None" by code_simp
  then show ?thesis by (simp add: FetchTopology_def fleet_decoder_def sample_pass_def ensureJSONEOF_def)
qed

lemma fleet_ingested: "snd (Ingest quiet_pg (sample_collected 7) empty_database) = Inr True"
  by code_simp

lemma fleet_sample:
  "complete (sample_collected 7)" "distinct (map report_id (reports (sn_machines (sample_collected 7))))"
  "length (sn_machines (sample_collected 7)) = 1"
  by code_simp+

lemma fleet_later: "later_than (sample_collected 7) empty_database"
  by (simp add: later_than_def empty_database_def table_all_def list_all_iff case_prod_beta)

theorem fleet_reaches_response_witness:
  "\<exists>w1 db1 page ms. collect (\<lambda>(env, s). sn_collection_id s) (ingester sample_texts) (fetched fleet_decoder sample_texts sample_pass)
       (NewWorker 60 5 10, empty_database) = (w1, db1) \<and>
     CurrentTopology text_codec 0 no_faults db1 console_query_active = Inr page \<and> t_machines page = Some ms \<and>
     map m_machine_id ms = [uuid_text 7]"
proof -
  let ?G = "sample_gateway 7"
  obtain db1 where db1: "Ingest quiet_pg (sample_collected 7) empty_database = (db1, Inr True)"
    using fleet_ingested by (metis prod.collapse)
  obtain w1 where pass: "collect (\<lambda>(env, s). sn_collection_id s) (ingester sample_texts) (fetched fleet_decoder sample_texts sample_pass)
       (NewWorker 60 5 10, empty_database) = (w1, db1)"
    and status: "ps_lastError (wk_status w1) = []" "ps_lastCollectionState (wk_status w1) = js ''ingested''"
  proof -
    let ?r = "collect (\<lambda>(env, s). sn_collection_id s) (ingester sample_texts) (fetched fleet_decoder sample_texts sample_pass) (NewWorker 60 5 10, empty_database)"
    have "snd ?r = db1 \<and> ps_lastError (wk_status (fst ?r)) = [] \<and> ps_lastCollectionState (wk_status (fst ?r)) = js ''ingested''"
      using db1 fleet_fetched by (simp add: collect_def fetched_def ingester_def Let_def set_running_def recordSuccess_def sample_pass_def)
    then show thesis using that [of "fst ?r"] by (metis prod.collapse)
  qed
  have reach: "reachable gateway_enabled gateway_exec (new_gateway (Some (js ''secret''))) ?G"
    unfolding sample_gateway_def by (rule sample_connections_reachable)
  have pool: "mset [1] = mset (pool_sessions (gw_sessions ?G))" by (simp add: pool_sessions_def sample_gateway_pool)
  have keys: "RBT.keys (gw_sessions ?G) = [7]" by (simp add: RBT.keys_def_alt sample_gateway_pool)
  have routes: "routes_distinct sample_answers" by (simp add: routes_distinct_def sample_answers_def)
  have one: "0 < ce_concurrency sample_collection" by (simp add: sample_collection_def)
  have faults: "\<forall>st. no_faults st = None" by (simp add: no_faults_def)
  have limit: "length (RBT.keys (gw_sessions ?G)) \<le> page_limit console_query_active"
    by (simp add: keys page_limit_def console_query_active_def)
  have q: "tq_active console_query_active = Some True" "tq_machine console_query_active = None" "tq_cursor console_query_active = None"
    by (simp_all add: console_query_active_def)
  from fleet_reaches_response [OF reach pool sample_gateway_later one sample_collected_def routes fleet_sample(2,1) fleet_fetched
      empty_consistent fleet_later pass status faults q limit, of text_codec 0]
  show ?thesis using pass by (auto simp: keys text_codec_def)
qed

end
