(* ===== verification/Gateway_Main.thy ===== *)
theory Gateway_Main
  imports Gateway_Api
begin

text \<open>
  The gateway's command, \<^verbatim>\<open>config.rs\<close> and \<^verbatim>\<open>main.rs\<close>, with \<^verbatim>\<open>ApiState::new\<close> and
  \<^verbatim>\<open>TelemetryCollector::new\<close>: its configuration with the defaults, the parts it builds from it and the
  result of the process. What the argument library finds on the command line or in the environment, its
  parsers for addresses and ports, the URL parser and how the two services end are arguments.
\<close>

section \<open>The configuration\<close>

text \<open>\<^verbatim>\<open>u64::from_str\<close>, \<^verbatim>\<open>NonZeroU64::from_str\<close> and, on 64 bits, \<^verbatim>\<open>NonZeroUsize::from_str\<close>\<close>

definition parse_u64 :: "jsstr \<Rightarrow> 64 word option" where
  "parse_u64 s =
     (let ds = (case s of [] \<Rightarrow> [] | c # cs \<Rightarrow> if c = 43 then cs else s) in
      if ds = [] \<or> (\<exists>c \<in> set ds. unat c < 48 \<or> 57 < unat c) \<or> 2 ^ 64 \<le> digits_val ds then None
      else Some (of_nat (digits_val ds)))"

definition parse_nonzero :: "jsstr \<Rightarrow> 64 word option" where
  "parse_nonzero s = (case parse_u64 s of None \<Rightarrow> None | Some n \<Rightarrow> if n = 0 then None else Some n)"

record gateway_config =
  gf_listen_addr :: jsstr
  gf_listen_port :: "16 word"
  gf_admission_token :: "jsstr option"
  gf_api_addr :: jsstr
  gf_rpc_timeout_ms :: "64 word"
  gf_collection_timeout_ms :: "64 word"
  gf_machine_concurrency :: "64 word"
  gf_snapshot_ttl_ms :: "64 word"

text \<open>An address is represented by the text it prints as.\<close>

record arguments =
  ar_given :: "string \<Rightarrow> jsstr option"
  ar_ip :: "jsstr \<Rightarrow> jsstr option"
  ar_port :: "jsstr \<Rightarrow> 16 word option"
  ar_socket :: "jsstr \<Rightarrow> jsstr option"

text \<open>\<^verbatim>\<open>default_value_t\<close> is a value, and \<^verbatim>\<open>default_value\<close> a text that is parsed like a given one.\<close>

definition arg_value :: "(jsstr \<Rightarrow> 'a option) \<Rightarrow> 'a \<Rightarrow> jsstr option \<Rightarrow> 'a option" where
  "arg_value parse fallback given = (case given of None \<Rightarrow> Some fallback | Some s \<Rightarrow> parse s)"

definition arg_text :: "(jsstr \<Rightarrow> 'a option) \<Rightarrow> string \<Rightarrow> jsstr option \<Rightarrow> 'a option" where
  "arg_text parse fallback given = parse (case given of None \<Rightarrow> js fallback | Some s \<Rightarrow> s)"

definition parse_config :: "arguments \<Rightarrow> gateway_config option" where
  "parse_config ar =
     Option.bind (arg_value (ar_ip ar) (js ''0.0.0.0'') (ar_given ar ''NEXUSTIER_GATEWAY_LISTEN_ADDR'')) (\<lambda>listen_addr.
     Option.bind (arg_value (ar_port ar) 22020 (ar_given ar ''NEXUSTIER_GATEWAY_LISTEN_PORT'')) (\<lambda>listen_port.
     Option.bind (arg_text (ar_socket ar) ''127.0.0.1:11211'' (ar_given ar ''NEXUSTIER_GATEWAY_API_ADDR'')) (\<lambda>api_addr.
     Option.bind (arg_value parse_u64 5000 (ar_given ar ''NEXUSTIER_GATEWAY_RPC_TIMEOUT_MS'')) (\<lambda>rpc_timeout_ms.
     Option.bind (arg_text parse_nonzero ''15000'' (ar_given ar ''NEXUSTIER_GATEWAY_COLLECTION_TIMEOUT_MS'')) (\<lambda>collection_timeout_ms.
     Option.bind (arg_text parse_nonzero ''8'' (ar_given ar ''NEXUSTIER_GATEWAY_MACHINE_CONCURRENCY'')) (\<lambda>machine_concurrency.
     Option.bind (arg_text parse_nonzero ''1000'' (ar_given ar ''NEXUSTIER_GATEWAY_SNAPSHOT_TTL_MS'')) (\<lambda>snapshot_ttl_ms.
     Some \<lparr>gf_listen_addr = listen_addr, gf_listen_port = listen_port,
       gf_admission_token = ar_given ar ''NEXUSTIER_GATEWAY_ADMISSION_TOKEN'', gf_api_addr = api_addr,
       gf_rpc_timeout_ms = rpc_timeout_ms, gf_collection_timeout_ms = collection_timeout_ms,
       gf_machine_concurrency = machine_concurrency, gf_snapshot_ttl_ms = snapshot_ttl_ms\<rparr>)))))))"

section \<open>The parts\<close>

record telemetry_collector =
  tl_rpc_timeout_ms :: "64 word"
  tl_collection_timeout_ms :: "64 word"
  tl_machine_concurrency :: "64 word"
  tl_snapshot_ttl_ms :: "64 word"
  tl_state :: collector_state

text \<open>\<open>None\<close> is the panic of the assertion.\<close>

definition collector_new :: "64 word \<Rightarrow> 64 word \<Rightarrow> 64 word \<Rightarrow> 64 word \<Rightarrow> telemetry_collector option" where
  "collector_new rpc_ms collection_ms machine_concurrency ttl_ms =
     (if machine_concurrency = 0 then None
      else Some \<lparr>tl_rpc_timeout_ms = rpc_ms, tl_collection_timeout_ms = collection_ms,
        tl_machine_concurrency = machine_concurrency, tl_snapshot_ttl_ms = ttl_ms, tl_state = collector_start\<rparr>)"

definition api_state_new :: "64 word \<Rightarrow> 64 word \<Rightarrow> 64 word \<Rightarrow> 64 word \<Rightarrow> telemetry_collector option" where
  "api_state_new rpc_ms collection_ms machine_concurrency ttl_ms =
     collector_new rpc_ms collection_ms machine_concurrency ttl_ms"

definition listen_text :: "gateway_config \<Rightarrow> jsstr" where
  "listen_text config = js ''udp://'' @ gf_listen_addr config @ js '':'' @ nat_str (unat (gf_listen_port config))"

section \<open>The process\<close>

text \<open>A task panics or is cancelled, ends with an error, or ends.\<close>

type_synonym task_end = "unit result result"

definition flatten_task_result :: "string \<Rightarrow> task_end \<Rightarrow> unit result" where
  "flatten_task_result service r =
     (case r of
        Inl e \<Rightarrow> Inl (js service @ js '' task failed: '' @ e)
      | Inr (Inl e) \<Rightarrow> Inl (js service @ js '' stopped: '' @ e)
      | Inr (Inr u) \<Rightarrow> Inr u)"

datatype first_end = GatewayTask task_end | ApiTask task_end | CtrlC "unit result"

definition first_result :: "first_end \<Rightarrow> unit result" where
  "first_result f =
     (case f of
        GatewayTask r \<Rightarrow> flatten_task_result ''EasyTier gateway'' r
      | ApiTask r \<Rightarrow> flatten_task_result ''gateway API'' r
      | CtrlC (Inl e) \<Rightarrow> Inl (js ''failed to install shutdown signal handler: '' @ e)
      | CtrlC (Inr u) \<Rightarrow> Inr u)"

datatype gateway_exit = UsageError | Panicked | Returned "unit result"

text \<open>\<^verbatim>\<open>main\<close> up to its result; how the tasks end during the shutdown does not change it.\<close>

definition gateway_main :: "arguments \<Rightarrow> (jsstr \<Rightarrow> 'u result) \<Rightarrow> (gateway \<Rightarrow> telemetry_collector \<Rightarrow> 'u \<Rightarrow> jsstr \<Rightarrow> first_end) \<Rightarrow> gateway_exit" where
  "gateway_main ar parse_url services =
     (case parse_config ar of
        None \<Rightarrow> UsageError
      | Some config \<Rightarrow>
          (case parse_url (listen_text config) of
             Inl e \<Rightarrow> Returned (Inl (js ''invalid gateway listen URL: '' @ e))
           | Inr listen_url \<Rightarrow>
               (case api_state_new (gf_rpc_timeout_ms config) (gf_collection_timeout_ms config)
                       (gf_machine_concurrency config) (gf_snapshot_ttl_ms config) of
                  None \<Rightarrow> Panicked
                | Some telemetry \<Rightarrow>
                    Returned (first_result (services (new_gateway (gf_admission_token config)) telemetry listen_url (gf_api_addr config))))))"

section \<open>What a configured gateway can rely on\<close>

lemma parse_nonzero_pos: "parse_nonzero s = Some n \<Longrightarrow> n \<noteq> 0"
  by (auto simp: parse_nonzero_def split: option.splits if_splits)

lemma parse_u64_nat_str: "n < 2 ^ 64 \<Longrightarrow> parse_u64 (nat_str n) = Some (of_nat n)"
proof -
  assume n: "n < 2 ^ 64"
  have digits: "48 \<le> unat c \<and> unat c \<le> 57" if "c \<in> set (nat_str n)" for c using set_nat_str [OF that] .
  then have "43 \<notin> set (nat_str n)" by force
  then have "(case nat_str n of [] \<Rightarrow> [] | c # cs \<Rightarrow> if c = 43 then cs else nat_str n) = nat_str n"
    by (auto split: list.splits)
  moreover have "\<not> 2 ^ 64 \<le> n" using n by simp
  moreover have "\<not> (\<exists>c \<in> set (nat_str n). unat c < 48 \<or> 57 < unat c)" using digits by (meson not_less)
  ultimately show ?thesis unfolding parse_u64_def Let_def by (simp only: digits_val_nat_str nat_str_nonempty if_False simp_thms)
qed

lemma parse_config_positive:
  assumes "parse_config ar = Some config"
  shows "gf_machine_concurrency config \<noteq> 0" and "gf_collection_timeout_ms config \<noteq> 0" and "gf_snapshot_ttl_ms config \<noteq> 0"
  using assms by (auto simp: parse_config_def arg_text_def bind_eq_Some_conv dest!: parse_nonzero_pos)

text \<open>
  The assertion of the collector holds, so the process never panics there, and a collection starts at
  least one task, as \<open>Collector\<close> assumes. The process succeeds exactly when the address makes a URL and a
  service ended, or the signal came, without an error.
\<close>

lemma gateway_main_result:
  "gateway_main ar parse_url services \<noteq> Panicked"
  "gateway_main ar parse_url services = Returned (Inr ()) \<longleftrightarrow>
     (\<exists>config u telemetry. parse_config ar = Some config \<and> parse_url (listen_text config) = Inr u \<and>
        telemetry = \<lparr>tl_rpc_timeout_ms = gf_rpc_timeout_ms config, tl_collection_timeout_ms = gf_collection_timeout_ms config,
          tl_machine_concurrency = gf_machine_concurrency config, tl_snapshot_ttl_ms = gf_snapshot_ttl_ms config, tl_state = collector_start\<rparr> \<and>
        services (new_gateway (gf_admission_token config)) telemetry u (gf_api_addr config) \<in>
          {GatewayTask (Inr (Inr ())), ApiTask (Inr (Inr ())), CtrlC (Inr ())})"
  by (auto simp: gateway_main_def api_state_new_def collector_new_def first_result_def flatten_task_result_def
      dest: parse_config_positive(1) split: option.splits sum.splits first_end.splits if_splits simp del: js_Cons)

lemma configured_concurrency:
  assumes "parse_config ar = Some config" and "ce_concurrency env = unat (gf_machine_concurrency config)"
  shows "0 < ce_concurrency env"
  using parse_config_positive(1) [OF assms(1)] by (simp add: assms(2) unat_gt_0)

text \<open>Without arguments clients are accepted from everywhere, without a token, and the API is local.\<close>

lemma parse_config_default:
  assumes "ar_given ar = (\<lambda>_. None)" and "ar_socket ar (js ''127.0.0.1:11211'') = Some api"
  shows "parse_config ar = Some \<lparr>gf_listen_addr = js ''0.0.0.0'', gf_listen_port = 22020, gf_admission_token = None,
    gf_api_addr = api, gf_rpc_timeout_ms = 5000, gf_collection_timeout_ms = 15000, gf_machine_concurrency = 8, gf_snapshot_ttl_ms = 1000\<rparr>"
proof -
  have "parse_nonzero (js ''15000'') = Some 15000" and "parse_nonzero (js ''8'') = Some 8" and "parse_nonzero (js ''1000'') = Some 1000"
    using parse_u64_nat_str [of 15000] parse_u64_nat_str [of 8] parse_u64_nat_str [of 1000]
    by (simp_all add: parse_nonzero_def nat_str_code digit_def)
  with assms show ?thesis by (simp add: parse_config_def arg_value_def arg_text_def del: js_Cons)
qed

text \<open>
  The address is not put in brackets, so the text made of an IPv6 address has no host before its first
  colon, which a URL needs.
\<close>

lemma ipv6_listen_text:
  assumes "gf_listen_addr config = js ''::'' @ rest"
  shows "listen_text config = js ''udp://'' @ js ''::'' @ rest @ js '':'' @ nat_str (unat (gf_listen_port config))"
  by (simp add: listen_text_def assms del: js_Cons)

end
