(* ===== verification/Spec2Isabelle.thy ===== *)
theory Spec2Isabelle
  imports Console Api Startup Fleet Gateway_Main
begin

text \<open>
  Verification of the NexusTier console and of the controller that serves it.

  The program. NexusTier collects telemetry of EasyTier networks. A gateway (Rust, under
  \<^verbatim>\<open>crates/\<close>) serves snapshots, the controller (Go, under \<^verbatim>\<open>controller/\<close>) polls them into PostgreSQL
  and answers \<^verbatim>\<open>GET /v1/topology\<close>, and the console (JavaScript, under
  \<^verbatim>\<open>controller/internal/webui/frontend/src/\<close>) polls that endpoint, keeps the machines it has loaded,
  and shows them as counters, a force-directed graph, a table and a details panel. The console
  is modelled as a whole; of the controller, the HTTP interface with its read path, the
  authentication in front of it, the configuration, the path of a snapshot from the gateway client
  through the polling worker into the tables, the retention cleaner, the migrations, and the start
  and stop of the process; of the
  gateway, the sessions of the clients, the collection of their telemetry and its interface.

  The theories.

  \<^item> \<open>Prelude\<close>: JavaScript strings as lists of UTF-16 code units with the operations the sources
    use (\<^verbatim>\<open>split\<close>, \<^verbatim>\<open>join\<close>, \<^verbatim>\<open>trim\<close>, \<^verbatim>\<open>includes\<close>, \<^verbatim>\<open>||\<close>), decimal text, and list lemmas.
  \<^item> \<open>Js_Number\<close>: JavaScript numbers as rationals with binary64 rounding to nearest-even after
    each operation (53 significant bits; the exponent is unbounded, so overflow to infinity, NaN
    and gradual underflow are not modelled), \<^verbatim>\<open>Math.round\<close> and \<^verbatim>\<open>toFixed\<close>. The locale \<open>rounding\<close>
    states what the later proofs use of the rounding function, and \<open>binary64\<close> interprets it.
  \<^item> \<open>Topology_Types\<close>: the JSON records of the response, named as in \<^verbatim>\<open>readmodel/store.go\<close>.
  \<^item> \<open>Utils\<close> (\<^verbatim>\<open>utils.js\<close>): formatters and \<^verbatim>\<open>resolveSelection\<close>. Accuracy of relative times, exact
    byte scaling, the latency colour scale, and the round trip of selection keys.
  \<^item> \<open>Graph_Build\<close> (\<^verbatim>\<open>buildGraph\<close>): the graph of a machine list; equality with a reference without
    the set of seen keys, well-formedness, completeness, resolution of node keys.
  \<^item> \<open>Simulation\<close> (\<^verbatim>\<open>createSimulation\<close>): the layout on an explicit store of node objects, since the
    component, the simulation and a drag share and mutate them; what a tick may change, and that
    the layout is cold after exactly 263 ticks.
  \<^item> \<open>Event_System\<close>: reachable states of event-driven components; the locale \<open>safe_component\<close>
    turns an invariant kept by every enabled event into a property of all traces.
  \<^item> \<open>Dom\<close>, \<open>Topology_View\<close>, \<open>Topology_Gestures\<close> (\<^verbatim>\<open>TopologyGraph.jsx\<close>): the rendered tree, the
    state in \<^verbatim>\<open>stateRef\<close> with the effects, the animation frame, the SVG rendering and all handlers,
    and their behaviour under every interleaving (interpretation \<open>topology_view\<close>).
  \<^item> \<open>Use_Topology\<close> (\<^verbatim>\<open>useTopology.js\<close>, \<^verbatim>\<open>useBuildInfo.js\<close>): the data hooks with requests in flight
    (interpretations \<open>topology_hook\<close> and \<open>build_hook\<close>); the locale \<open>paged_source\<close> is the contract
    with the server under which page by page loading is complete.
  \<^item> \<open>Views\<close> (\<^verbatim>\<open>Header\<close>, \<^verbatim>\<open>StatCard\<close>, \<^verbatim>\<open>Toolbar\<close>, \<^verbatim>\<open>MachineTable\<close>, \<^verbatim>\<open>DetailsPanel\<close>): the presentational
    components as functions to the tree they render.
  \<^item> \<open>Console\<close> (\<^verbatim>\<open>App.jsx\<close>): the page, its derived values, its events and the effects they cause
    (interpretation \<open>console\<close>); the graph on the canvas always is the graph of the data on show.
  \<^item> \<open>Database\<close> (\<^verbatim>\<open>migrations/*.sql\<close>): the tables as keyed search trees of row records, shared by the
    ingestion, the read model and the cleaner.
  \<^item> \<open>Snapshot\<close> (\<^verbatim>\<open>gatewayclient/types.go\<close>, \<^verbatim>\<open>client.go\<close>): the snapshot with integers at their width,
    \<^verbatim>\<open>Validate\<close> and \<^verbatim>\<open>FetchTopology\<close>; what is accepted is valid and its times do not wrap.
  \<^item> \<open>Ingest\<close> (\<^verbatim>\<open>ingest/store.go\<close>): the transaction, one function per SQL statement and Go function,
    with the constraints of the tables, failures at any statement and the outcomes of a commit. The
    locale \<open>versioned_table\<close> is the contract of the four tables that are written by upsert
    (interpretations \<open>machine_table\<close>, \<open>instance_table\<close>, \<open>node_table\<close>, \<open>link_table\<close>).
  \<^item> \<open>Ingest_Sound\<close>: the consistency of the database under every history of collections and retention
    statements (interpretation \<open>store\<close>), and ingestion exactly once.
  \<^item> \<open>Ingest_Current\<close>: which rows an ingestion leaves: a later collection becomes the current picture,
    what could not be collected is kept, observation times only grow, and what a late one does.
  \<^item> \<open>Pipeline\<close>: what the endpoint serves after a collection as a function of the snapshot, and the
    worker composed with the client and the store as \<^verbatim>\<open>main.go\<close> composes them. A database that a
    history leads to satisfies \<open>links_ok\<close>, which the read path assumes (\<open>consistent_links_ok\<close>).
  \<^item> \<open>Gateway\<close> (\<^verbatim>\<open>session.rs\<close>, \<^verbatim>\<open>session_pool.rs\<close>, \<^verbatim>\<open>gateway.rs\<close>): sessions as objects in a store, shared by
    the tasks that accept connections, the pool and the heartbeat service (interpretation
    \<open>gateway_task\<close>): which clients are listed, and that a replaced session cannot remove its successor.
  \<^item> \<open>Collector\<close> (\<^verbatim>\<open>telemetry.rs\<close>): what a collection makes of the clients' answers, and the bounded set of
    tasks under a deadline (interpretation \<open>collection_tasks\<close>): every listed session is accounted for,
    and which snapshots the controller accepts.
  \<^item> \<open>Gateway_Api\<close> (\<^verbatim>\<open>api.rs\<close>, \<^verbatim>\<open>topology\<close>): routes and handlers, and the cache with its shared collection
    (interpretation \<open>topology_cache\<close>).
  \<^item> \<open>Gateway_Main\<close> (\<^verbatim>\<open>config.rs\<close>, \<^verbatim>\<open>main.rs\<close>): the configuration of the gateway with its defaults and what
    it guarantees to the collector, the parts built from it, and the result of the process.
  \<^item> \<open>Fleet\<close>: the composition from the gateway's sessions to the answer of the topology endpoint.
  \<^item> \<open>Startup\<close> (\<^verbatim>\<open>main.go\<close>, \<^verbatim>\<open>database.Open\<close>, \<^verbatim>\<open>gatewayclient.New\<close>): how the process starts, stops and exits,
    and the command that prints a password hash; what a process that runs can rely on.
  \<^item> \<open>Migrate\<close> (\<^verbatim>\<open>database/database.go\<close>): the migrations and their ledger.
  \<^item> \<open>Read_Model\<close> (\<^verbatim>\<open>readmodel/store.go\<close>, the handler of \<^verbatim>\<open>api/api.go\<close>): the query parameters, the
    SQL queries over keyed tables and the assembly of the nested response, refined to a direct
    listing; the interpretation \<open>controller\<close> shows that it is a \<open>paged_source\<close>.
  \<^item> \<open>Go_Base\<close>, \<open>Http\<close>: what the controller uses of Go's library, with the round trips of decimal
    text and base64: byte strings, \<^verbatim>\<open>strconv\<close>, \<^verbatim>\<open>ServeMux\<close> routing, cookies, addresses.
  \<^item> \<open>Limiter\<close> (\<^verbatim>\<open>auth/limiter.go\<close>): token buckets in binary64 arithmetic. The locale \<open>amortized\<close> of
    \<open>Event_System\<close> turns a potential into a bound over all histories; its interpretation
    \<open>login_budget\<close> gives the rate limit, and waiting the advertised time is enough.
  \<^item> \<open>Session\<close> (\<^verbatim>\<open>auth/session.go\<close>, \<^verbatim>\<open>auth/credential.go\<close>): tokens and password hashes as bytes; their
    round trips, and that only signed tokens are accepted.
  \<^item> \<open>Guard\<close> (\<^verbatim>\<open>auth/auth.go\<close>, \<^verbatim>\<open>auth/login.go\<close>): every handler; admission, the lifetime of a session,
    and the rate of guesses (interpretation \<open>guard_budget\<close>, a refinement to the limiter's calls).
  \<^item> \<open>Retention\<close> (\<^verbatim>\<open>retention/cleaner.go\<close>): the batch loops against the interface \<open>batch_store\<close>, which
    the two SQL statements interpret (\<open>sample_store\<close>, \<open>payload_store\<close>).
  \<^item> \<open>Poller\<close> (\<^verbatim>\<open>poller/worker.go\<close>): the passes of the worker; its status as a function of the history.
  \<^item> \<open>Config\<close> (\<^verbatim>\<open>config/config.go\<close>, \<^verbatim>\<open>newProtector\<close>): loading and validation, fail-closed.
  \<^item> \<open>Api\<close> (\<^verbatim>\<open>api/api.go\<close>, \<^verbatim>\<open>webui/handler.go\<close>, \<^verbatim>\<open>buildinfo/buildinfo.go\<close>): all endpoints behind the guard; no
    data leaves without a session.

  Parameters. What the browser or code outside the repository provides is an argument: the
  clock, the date parser, \<^verbatim>\<open>Intl\<close> formats, the text of non-integral numbers and \<^verbatim>\<open>toLowerCase\<close> in
  \<open>js_env\<close>, \<^verbatim>\<open>Math.sqrt\<close> and \<^verbatim>\<open>Math.random\<close> in \<open>gfx\<close>, UUID text and JSON time in \<open>codec\<close>, query errors in
  \<open>faults\<close>, HMAC and PBKDF2 in \<open>crypto\<close>, random bytes in \<open>entropy\<close>, the environment of a request in
  \<open>auth_env\<close> and \<open>api_env\<close>, environment variables and the duration, URL and IP parsers in \<open>sysenv\<close>,
  the transport and the JSON decoder of the client in \<open>reply\<close> and \<open>decoder\<close>, JSON encoding, SHA-256, \<^verbatim>\<open>jsonb\<close>
  equality, the clock and the failures of the database in \<open>pg\<close> and \<open>migrate_env\<close>, error texts in
  \<open>error_texts\<close>, the messages and peer telemetry of EasyTier in \<open>machine_answers\<close> and \<open>proto\<close>, and the order in which
  the tasks of a collection finish in \<open>collection_env\<close>. Hypotheses about them are named in the statements (\<open>codec_ok\<close>,
  \<open>pbkdf2_ok\<close>, \<open>entropy_ok\<close>, random values in \<open>[0, 1)\<close>). There is no fuel: loops are structural or have
  a measure, except the batch loop of the cleaner, a partial function that is proved to return for
  positive batch sizes (and not to for zero).

  Not modelled: the percent-encoding of the query string, pointer capture, CSS, React's batching
  inside one event and the double mounting of its development mode, the build configuration, log
  lines, the text of the login template, how the gateway waits for its tasks at its end, and its tunnels
  and RPC transport, which are EasyTier's. Signals, the HTTP servers, the connection pool, the parsing
  of URLs and of command lines are libraries: their outcomes are arguments of \<open>Startup\<close> and
  \<open>Gateway_Main\<close>. Mutexes are modelled as atomic steps and database transactions as serial ones. Some steps that are
  several in the code are one here: the queries of one topology request read one state of the database,
  though they run without a transaction, so an ingestion between them is not covered; the pool of the
  gateway is read at one moment, though the concurrent map is read shard by shard; a heartbeat is stored
  and announced at once, though the lock is released in between; and a login takes from the limiter,
  verifies and refunds at once, though it takes the lock of the limiter for each call. What the
  scripts of the migrations do to the schema is an argument of \<open>Migrate\<close>; the tables they define are those of \<open>Database\<close>.
\<close>

section \<open>The console against the controller\<close>

text \<open>The header shows the commit as it is abbreviated in the tag of the image, and nothing when it is unknown.\<close>

lemma header_shows_image_tag:
  assumes "info = Current ver commit buildTime goVersion platform stamp"
  shows "shortCommit (Some info) = (if bi_commit info = Some (js ''unknown'') then None else Some (ShortCommit info))"
proof -
  have "bi_commit info \<noteq> None \<and> bi_commit info \<noteq> Some []" by (simp add: assms Current_def case_prod_beta Let_def)
  then obtain c where "bi_commit info = Some c" and "c \<noteq> []" by auto
  then show ?thesis by (simp add: shortCommit_def ShortCommit_def truthy_str_def)
qed

text \<open>
  C6. The console can load everything the controller has. From any reachable state of the data
  hook, a refresh followed by a bounded number of loads, each of which the button for more rows
  allows, ends online with no more rows to load, and the machines on show are exactly the rows
  of the machines table that match the filter, each once, in identifier order, with their
  instances and peers. Their identifiers are unique and free of colons, as the selection keys
  require.
\<close>

theorem console_loads_every_machine:
  assumes "codec_ok c" and "links_ok db" and "reachable hook_enabled hook_exec mounted_hook hk"
    and "rows = filter (row_matches (console_query (h_activeFilter hk) None)) (RBT.entries (db_machines db))"
  shows "\<exists>n d. n \<le> length rows \<and>
    h_data (load_pages (serve c now db) t n (fetch_now (serve c now db) t False hk)) = Some d \<and>
    pd_machines d = map (json_machine c db (active_of (h_activeFilter hk))) rows \<and> \<not> pd_hasMore d \<and>
    h_status (load_pages (serve c now db) t n (fetch_now (serve c now db) t False hk)) = Online \<and>
    (\<forall>k<n. has_more (load_pages (serve c now db) t k (fetch_now (serve c now db) t False hk))) \<and>
    plain_ids (pd_machines d) \<and> unique_ids (pd_machines d)"
proof -
  let ?f = "h_activeFilter hk"
  have f: "?f \<in> set filter_options"
    using topology_hook.inv_reachable [OF assms(3)] by (simp add: hook_inv_def hook_core_def)
  have dep: "Rep_deployment (Abs_deployment (c, db)) = (c, db)"
    using assms(1,2) by (intro Abs_deployment_inverse) simp
  have rows: "console_rows c db ?f None = rows"
    by (simp add: assms(4) console_rows_def matching_rows_def)
  then have window: "console_window c db ?f None = map (json_machine c db (active_of ?f)) rows"
    by (simp add: console_window_def)
  have "distinct (map fst rows)"
    unfolding rows [symmetric] console_rows_def by (rule distinct_matching_rows)
  note ids = json_machines_ids [OF assms(1,2) this, of "active_of ?f"]
  from controller.pagination_complete [OF f, where d = "Abs_deployment (c, db)" and now = t and nowa = now]
  show ?thesis
    using ids unfolding dep fst_conv snd_conv window by auto
qed

theorem console_loads_every_machine_witness:
  "\<exists>n d. h_data (load_pages (serve text_codec 0 sample_db) 0 n (fetch_now (serve text_codec 0 sample_db) 0 False mounted_hook)) = Some d \<and>
     \<not> pd_hasMore d"
  using console_loads_every_machine [OF text_codec_ok sample_db_facts(1) sample_hook_facts(1) refl, of 0 0] by blast

end
